(* ===== verification/Prelude.thy ===== *)
theory Prelude
  imports Main "HOL-Library.Word" "HOL-Library.Sublist"
begin

text \<open>
  Shared vocabulary of the development: the names of the machine types the code uses, the
  little- and big-endian byte images of integers (\<^verbatim>\<open>util::endian::big\<close>,
  \<^verbatim>\<open>std::copy_n\<close> of an integer's bytes, packed structs), and the list and word lemmas the
  component theories share. Rewrite rules that unfold small operations of a component are
  collected in \<open>op_defs\<close>; facts that an operation keeps an invariant in \<open>inv_intros\<close>.
\<close>

unbundle bit_operations_syntax

named_theorems op_defs "definitions of small operations, for unfolding"
named_theorems inv_intros "an operation keeps the invariant of its component"

type_synonym u8 = "8 word"
type_synonym u16 = "16 word"
type_synonym u32 = "32 word"
type_synonym u64 = "64 word"
type_synonym bytes = "u8 list"

section \<open>Byte images of integers\<close>

definition le_bytes :: "nat \<Rightarrow> 'a::len word \<Rightarrow> bytes" where
  "le_bytes n w = map (\<lambda>i. ucast (drop_bit (8 * i) w)) [0..<n]"

definition be_bytes :: "nat \<Rightarrow> 'a::len word \<Rightarrow> bytes" where
  "be_bytes n w = rev (le_bytes n w)"

fun of_le_bytes :: "bytes \<Rightarrow> 'a::len word" where
  "of_le_bytes [] = 0"
| "of_le_bytes (b # bs) = ucast b OR push_bit 8 (of_le_bytes bs)"

definition of_be_bytes :: "bytes \<Rightarrow> 'a::len word" where
  "of_be_bytes bs = of_le_bytes (rev bs)"

lemma length_le_bytes [simp]: "length (le_bytes n w) = n"
  by (simp add: le_bytes_def)

lemma length_be_bytes [simp]: "length (be_bytes n w) = n"
  by (simp add: be_bytes_def)

lemma le_bytes_Suc:
  "le_bytes (Suc n) w = ucast w # le_bytes n (drop_bit 8 w)"
  by (simp add: le_bytes_def upt_conv_Cons map_Suc_upt [symmetric] drop_bit_drop_bit ac_simps
      del: upt_Suc)

lemma split_word:
  "ucast (ucast (w :: 'a::len word) :: 8 word) OR push_bit 8 (take_bit (8 * n) (drop_bit 8 w)) =
   take_bit (8 + 8 * n) w"
  apply (rule bit_word_eqI)
  apply (simp add: bit_or_iff bit_push_bit_iff bit_take_bit_iff bit_drop_bit_eq bit_ucast_iff)
  apply auto
  done

lemma of_le_bytes_le_bytes_take:
  "(of_le_bytes (le_bytes n w) :: 'a::len word) = take_bit (8 * n) w"
proof (induction n arbitrary: w)
  case 0
  then show ?case by (simp add: le_bytes_def)
next
  case (Suc n)
  show ?case
    unfolding le_bytes_Suc of_le_bytes.simps Suc split_word mult_Suc_right by (rule refl)
qed

lemma of_le_bytes_le_bytes:
  "LENGTH('a) \<le> 8 * n \<Longrightarrow> (of_le_bytes (le_bytes n (w :: 'a::len word)) :: 'a word) = w"
  unfolding of_le_bytes_le_bytes_take by (rule take_bit_word_eq_self)

lemma of_be_bytes_be_bytes:
  "LENGTH('a) \<le> 8 * n \<Longrightarrow> (of_be_bytes (be_bytes n (w :: 'a::len word)) :: 'a word) = w"
  unfolding of_be_bytes_def be_bytes_def rev_rev_ident by (rule of_le_bytes_le_bytes)

lemma le_bytes_inj:
  assumes "LENGTH('a) \<le> 8 * n" and "le_bytes n (v :: 'a::len word) = le_bytes n w"
  shows "v = w"
  using of_le_bytes_le_bytes [OF assms(1), of v] of_le_bytes_le_bytes [OF assms(1), of w]
  unfolding assms(2) by (rule trans [OF sym])

lemma ucast_plus:
  "LENGTH('b) \<le> LENGTH('a) \<Longrightarrow> (ucast (a + b :: 'a::len word) :: 'b::len word) = ucast a + ucast b"
  apply transfer
  apply (subst (2) take_bit_add [symmetric])
  by (simp add: min_def take_bit_add)

section \<open>Lists\<close>

text \<open>The index of the first element with a property, as the code's search loops compute it.\<close>

fun find_index :: "('a \<Rightarrow> bool) \<Rightarrow> 'a list \<Rightarrow> nat option" where
  "find_index P [] = None"
| "find_index P (x # xs) = (if P x then Some 0 else map_option Suc (find_index P xs))"

lemma find_index_None: "find_index P xs = None \<longleftrightarrow> (\<forall>x \<in> set xs. \<not> P x)"
  by (induction xs) auto

lemma find_index_Some:
  "find_index P xs = Some i \<longleftrightarrow> i < length xs \<and> P (xs ! i) \<and> (\<forall>j < i. \<not> P (xs ! j))"
proof (induction xs arbitrary: i)
  case Nil
  then show ?case by simp
next
  case (Cons x xs)
  show ?case
  proof (cases i)
    case 0
    then show ?thesis by (auto split: if_splits)
  next
    case (Suc k)
    then show ?thesis
      by (auto simp: Cons less_Suc_eq_0_disj split: if_splits)
  qed
qed

text \<open>Remove the first element with a property.\<close>

fun remove_first :: "('a \<Rightarrow> bool) \<Rightarrow> 'a list \<Rightarrow> 'a list" where
  "remove_first P [] = []"
| "remove_first P (x # xs) = (if P x then xs else x # remove_first P xs)"

lemma remove_first_id: "\<forall>x \<in> set xs. \<not> P x \<Longrightarrow> remove_first P xs = xs"
  by (induction xs) auto

lemma set_remove_first_subset: "set (remove_first P xs) \<subseteq> set xs"
  by (induction xs) auto

lemma remove_first_split:
  "\<forall>x \<in> set xs. \<not> P x \<Longrightarrow> P y \<Longrightarrow> remove_first P (xs @ y # ys) = xs @ ys"
  by (induction xs) auto

lemma length_remove_first:
  "length (remove_first P xs) = length xs - (if \<exists>x \<in> set xs. P x then 1 else 0)"
proof (induction xs)
  case (Cons x xs)
  then show ?case by (cases xs) auto
qed simp

lemma subseq_remove_first: "subseq (remove_first P xs) xs"
  by (induction xs) auto

lemma distinct_remove_first [simp]: "distinct xs \<Longrightarrow> distinct (remove_first P xs)"
proof (induction xs)
  case (Cons x xs)
  then show ?case using set_remove_first_subset [of P xs] by auto
qed simp

lemma subseq_drop: "subseq (drop n xs) xs"
  by (metis append_take_drop_id subseq_order.order_refl list_emb_append2)

lemma subseq_append_drop:
  "subseq (ps @ qs) hs \<Longrightarrow> subseq (ps @ drop n qs) hs"
  by (meson list_emb_append_mono subseq_drop subseq_order.order_refl subseq_order.order_trans)

text \<open>Cut a list into pieces of a given length; the last one may be shorter.\<close>

function chunks :: "nat \<Rightarrow> 'a list \<Rightarrow> 'a list list" where
  "chunks n xs = (if n = 0 \<or> xs = [] then [] else take n xs # chunks n (drop n xs))"
  by pat_completeness auto

termination
  by (relation "measure (\<lambda>(n, xs). length xs)") (auto simp: neq_Nil_conv)

declare chunks.simps [simp del]

lemma chunks_Nil [simp]: "chunks n [] = []"
  by (simp add: chunks.simps)

lemma chunks_step: "0 < n \<Longrightarrow> xs \<noteq> [] \<Longrightarrow> chunks n xs = take n xs # chunks n (drop n xs)"
  by (subst chunks.simps) simp

lemma concat_chunks: "0 < n \<Longrightarrow> concat (chunks n xs) = xs"
proof (induction n xs rule: chunks.induct)
  case (1 n xs)
  then show ?case by (cases "xs = []") (simp_all add: chunks_step)
qed

lemma chunks_append:
  "0 < n \<Longrightarrow> length xs = n \<Longrightarrow> chunks n (xs @ ys) = xs # chunks n ys"
  by (cases "xs @ ys = []") (auto simp: chunks_step)

lemma length_chunks: "0 < n \<Longrightarrow> length (chunks n xs) = (length xs + n - 1) div n"
proof (induction n xs rule: chunks.induct)
  case (1 n xs)
  show ?case
  proof (cases "xs = []")
    case False
    have len: "length (chunks n xs) = Suc ((length xs - n + n - 1) div n)"
      using 1 False by (simp add: chunks_step)
    have eq: "length xs + n - 1 = (length xs - 1) + n" using False by (cases xs) auto
    have "Suc ((length xs - n + n - 1) div n) = (length xs + n - 1) div n"
    proof (cases "n \<le> length xs")
      case True
      have "(length xs + n - 1) div n = ((length xs - 1) + n) div n" unfolding eq by (rule refl)
      also have "\<dots> = Suc ((length xs - 1) div n)" using 1(2) by (simp only: div_add_self2)
      finally show ?thesis using True 1(2) by simp
    next
      case small: False
      have "(length xs + n - 1) div n = ((length xs - 1) + n) div n" unfolding eq by (rule refl)
      also have "\<dots> = Suc ((length xs - 1) div n)" using 1(2) by (simp only: div_add_self2)
      finally show ?thesis using small 1(2) by simp
    qed
    then show ?thesis using len by simp
  qed (use 1 in simp)
qed

section \<open>Maps\<close>

text \<open>\<open>emplace\<close> of the standard maps keeps an entry that is there already.\<close>

definition emplace :: "'k \<Rightarrow> 'v \<Rightarrow> ('k \<rightharpoonup> 'v) \<Rightarrow> ('k \<rightharpoonup> 'v)" where
  "emplace k v m = (if m k = None then m(k \<mapsto> v) else m)"

section \<open>Options\<close>

lemma bind_Some: "Option.bind m f = Some y \<longleftrightarrow> (\<exists>x. m = Some x \<and> f x = Some y)"
  by (cases m) auto

section \<open>Settings laid over others\<close>

text \<open>
  A component that overwrites settings for a while and puts them back: \<open>user\<close> is what the user
  configured, \<open>current\<close> what is in force, \<open>active\<close> whether the two may differ. When no step loses what
  the user configured, it is in force again whenever nothing is laid over it.
\<close>

locale overlay =
  fixes user :: "'s \<Rightarrow> 'v" and current :: "'s \<Rightarrow> 'v" and active :: "'s \<Rightarrow> bool"
    and step :: "'e \<Rightarrow> 's \<Rightarrow> 's"
  assumes step_user: "user (step e s) = user s"
    and inactive: "\<not> active s \<Longrightarrow> current s = user s"
begin

lemma run_user: "user (fold step es s) = user s"
  by (induction es arbitrary: s) (simp_all add: step_user)

lemma restored:
  "\<not> active s \<Longrightarrow> \<not> active (fold step es s) \<Longrightarrow> current (fold step es s) = current s"
  using inactive run_user by metis

end

end
