(* ===== verification/EventQueue.thy ===== *)
theory EventQueue
  imports Prelude
begin

text \<open>
  The inter-thread channels of \<^verbatim>\<open>src/thread_safe.h\<close>: the one-slot \<open>event_t\<close>, the alarm,
  the bounded \<open>queue_t\<close>, the reference-counted \<open>shared_t\<close> and the mail box that names channels
  and shares them. Every method runs under the channel's mutex, so one method is one atomic
  step. A blocking method releases the mutex while it waits: it is a function of the channel and
  of the list of its wake-ups, each of them the batch of steps the other threads made while the
  method slept (empty for a spurious wake-up) and, for a timed wait, whether the wait reported a
  timeout. Its value is \<open>Blocked\<close> when the wake-ups are used up and it still sleeps.
\<close>

datatype 'a waited = Blocked | Returned "'a option"

section \<open>The one-slot event\<close>

record 'a event_t =
  ev_continue :: bool
  ev_status :: "'a option"

definition event_new :: "'a event_t" where
  "event_new = \<lparr>ev_continue = True, ev_status = None\<rparr>"

definition event_raise :: "'a \<Rightarrow> 'a event_t \<Rightarrow> 'a event_t" where
  "event_raise x e = (if \<not> ev_continue e then e else e\<lparr>ev_status := Some x\<rparr>)"

definition event_try_pop :: "'a event_t \<Rightarrow> 'a option \<times> 'a event_t" where
  "event_try_pop e =
    (if \<not> ev_continue e \<or> ev_status e = None then (None, e)
     else (ev_status e, e\<lparr>ev_status := None\<rparr>))"

definition event_peek :: "'a event_t \<Rightarrow> bool" where
  "event_peek e \<longleftrightarrow> ev_continue e \<and> ev_status e \<noteq> None"

definition event_stop :: "'a event_t \<Rightarrow> 'a event_t" where
  "event_stop e = e\<lparr>ev_continue := False\<rparr>"

definition event_reset :: "'a event_t \<Rightarrow> 'a event_t" where
  "event_reset e = e\<lparr>ev_continue := True, ev_status := None\<rparr>"

definition event_running :: "'a event_t \<Rightarrow> bool" where
  "event_running e = ev_continue e"

lemmas event_defs [op_defs] = event_new_def event_raise_def event_try_pop_def event_peek_def
  event_stop_def event_reset_def event_running_def

text \<open>The steps other threads can make on an event.\<close>

datatype 'a event_op = EvRaise 'a | EvTake | EvStop | EvReset

fun event_step :: "'a event_op \<Rightarrow> 'a event_t \<Rightarrow> 'a event_t" where
  "event_step (EvRaise x) e = event_raise x e"
| "event_step EvTake e = snd (event_try_pop e)"
| "event_step EvStop e = event_stop e"
| "event_step EvReset e = event_reset e"

text \<open>The wait loop shared by \<open>pop()\<close> and \<open>view()\<close>: wait until there is a value, give up as
  soon as a wake-up finds the event stopped.\<close>

fun event_wait :: "'a event_op list list \<Rightarrow> 'a event_t \<Rightarrow> 'a waited \<times> 'a event_t" where
  "event_wait ws e =
    (case ev_status e of
       Some v \<Rightarrow> (Returned (Some v), e)
     | None \<Rightarrow>
         (case ws of
            [] \<Rightarrow> (Blocked, e)
          | w # ws' \<Rightarrow>
              (let e' = fold event_step w e in
               if \<not> ev_continue e' then (Returned None, e') else event_wait ws' e')))"

declare event_wait.simps [simp del]

definition event_view :: "'a event_op list list \<Rightarrow> 'a event_t \<Rightarrow> 'a waited \<times> 'a event_t" where
  "event_view ws e = (if \<not> ev_continue e then (Returned None, e) else event_wait ws e)"

definition event_pop :: "'a event_op list list \<Rightarrow> 'a event_t \<Rightarrow> 'a waited \<times> 'a event_t" where
  "event_pop ws e =
    (if \<not> ev_continue e then (Returned None, e)
     else (case event_wait ws e of
             (Returned (Some v), e') \<Rightarrow> (Returned (Some v), e'\<lparr>ev_status := None\<rparr>)
           | r \<Rightarrow> r))"

text \<open>The predicate wait of \<open>pop(delay)\<close>: it sleeps while the predicate is false and, on a timeout,
  returns the predicate's value at that time.\<close>

fun event_wait_pred ::
    "(bool \<times> 'a event_op list) list \<Rightarrow> 'a event_t \<Rightarrow> bool option \<times> 'a event_t" where
  "event_wait_pred ws e =
    (if ev_status e \<noteq> None \<or> \<not> ev_continue e then (Some True, e)
     else (case ws of
             [] \<Rightarrow> (None, e)
           | (timeout, w) # ws' \<Rightarrow>
               (let e' = fold event_step w e in
                if timeout then (Some (ev_status e' \<noteq> None \<or> \<not> ev_continue e'), e')
                else event_wait_pred ws' e')))"

declare event_wait_pred.simps [simp del]

definition event_pop_for ::
    "(bool \<times> 'a event_op list) list \<Rightarrow> 'a event_t \<Rightarrow> 'a waited \<times> 'a event_t" where
  "event_pop_for ws e =
    (case event_wait_pred ws e of
       (None, e') \<Rightarrow> (Blocked, e')
     | (Some success, e') \<Rightarrow>
         (if \<not> success \<or> \<not> ev_continue e' then (Returned None, e')
          else (Returned (ev_status e'), e'\<lparr>ev_status := None\<rparr>)))"

text \<open>\<open>view(delay)\<close> looks at the value before it looks at \<open>_continue\<close> again.\<close>

fun event_view_loop ::
    "(bool \<times> 'a event_op list) list \<Rightarrow> 'a event_t \<Rightarrow> 'a waited \<times> 'a event_t" where
  "event_view_loop ws e =
    (case ev_status e of
       Some v \<Rightarrow> (Returned (Some v), e)
     | None \<Rightarrow>
         (if \<not> ev_continue e then (Returned None, e)
          else (case ws of
                  [] \<Rightarrow> (Blocked, e)
                | (timeout, w) # ws' \<Rightarrow>
                    (let e' = fold event_step w e in
                     if timeout then (Returned None, e') else event_view_loop ws' e'))))"

declare event_view_loop.simps [simp del]

definition event_view_for ::
    "(bool \<times> 'a event_op list) list \<Rightarrow> 'a event_t \<Rightarrow> 'a waited \<times> 'a event_t" where
  "event_view_for ws e = (if \<not> ev_continue e then (Returned None, e) else event_view_loop ws e)"

section \<open>The alarm\<close>

record 'a alarm_raw_t =
  al_status :: "'a option"
  al_rang :: bool

definition make_alarm :: "'a alarm_raw_t" where
  "make_alarm = \<lparr>al_status = None, al_rang = False\<rparr>"

definition alarm_ring :: "'a option \<Rightarrow> 'a alarm_raw_t \<Rightarrow> 'a alarm_raw_t" where
  "alarm_ring s a = a\<lparr>al_status := s, al_rang := True\<rparr>"

definition alarm_reset :: "'a alarm_raw_t \<Rightarrow> 'a alarm_raw_t" where
  "alarm_reset a = a\<lparr>al_status := None, al_rang := False\<rparr>"

lemmas alarm_defs [op_defs] = make_alarm_def alarm_ring_def alarm_reset_def

text \<open>
  \<open>wait_for(rel_time, pred)\<close> (and \<open>wait_until\<close>, and the versions without \<open>pred\<close>, where it is
  false): the value of \<open>pred\<close> each time it is called is given with the wake-up, as is the ring
  another thread may have made meanwhile.
\<close>

fun alarm_wait_for ::
    "bool \<Rightarrow> (bool \<times> 'a option option \<times> bool) list \<Rightarrow> 'a alarm_raw_t \<Rightarrow>
     bool option \<times> 'a alarm_raw_t" where
  "alarm_wait_for p ws a =
    (if al_rang a \<or> p then (Some True, a)
     else (case ws of
             [] \<Rightarrow> (None, a)
           | (timeout, ring, p') # ws' \<Rightarrow>
               (let a' = (case ring of None \<Rightarrow> a | Some s \<Rightarrow> alarm_ring s a) in
                if timeout then (Some (al_rang a' \<or> p'), a') else alarm_wait_for p' ws' a')))"

declare alarm_wait_for.simps [simp del]

section \<open>The bounded queue\<close>

datatype queue_overflow_e = clear_all | drop_oldest

record 'a queue_t =
  q_continue :: bool
  q_max_elements :: u32
  q_overflow_policy :: queue_overflow_e
  q_queue :: "'a list"

definition queue_new :: "u32 \<Rightarrow> queue_overflow_e \<Rightarrow> 'a queue_t" where
  "queue_new m p =
    \<lparr>q_continue = True, q_max_elements = m, q_overflow_policy = p, q_queue = []\<rparr>"

definition queue_overflow :: "u32 \<Rightarrow> queue_overflow_e \<Rightarrow> 'a list \<Rightarrow> 'a list" where
  "queue_overflow m p xs =
    (if m \<noteq> 0 \<and> unat m \<le> length xs
     then (case p of drop_oldest \<Rightarrow> tl xs | clear_all \<Rightarrow> [])
     else xs)"

definition queue_raise :: "'a \<Rightarrow> 'a queue_t \<Rightarrow> 'a queue_t" where
  "queue_raise x q =
    (if \<not> q_continue q then q
     else q\<lparr>q_queue :=
       queue_overflow (q_max_elements q) (q_overflow_policy q) (q_queue q) @ [x]\<rparr>)"

definition queue_peek :: "'a queue_t \<Rightarrow> bool" where
  "queue_peek q \<longleftrightarrow> q_continue q \<and> q_queue q \<noteq> []"

definition queue_try_pop :: "'a queue_t \<Rightarrow> 'a option \<times> 'a queue_t" where
  "queue_try_pop q =
    (if \<not> q_continue q \<or> q_queue q = [] then (None, q)
     else (Some (hd (q_queue q)), q\<lparr>q_queue := tl (q_queue q)\<rparr>))"

definition queue_stop :: "'a queue_t \<Rightarrow> 'a queue_t" where
  "queue_stop q = q\<lparr>q_continue := False\<rparr>"

definition queue_running :: "'a queue_t \<Rightarrow> bool" where
  "queue_running q = q_continue q"

lemmas queue_defs [op_defs] = queue_new_def queue_overflow_def queue_raise_def queue_peek_def
  queue_try_pop_def queue_stop_def queue_running_def

datatype 'a queue_op = QRaise 'a | QTake | QStop

fun queue_step :: "'a queue_op \<Rightarrow> 'a queue_t \<Rightarrow> 'a queue_t" where
  "queue_step (QRaise x) q = queue_raise x q"
| "queue_step QTake q = snd (queue_try_pop q)"
| "queue_step QStop q = queue_stop q"

fun queue_pop_loop :: "'a queue_op list list \<Rightarrow> 'a queue_t \<Rightarrow> 'a waited \<times> 'a queue_t" where
  "queue_pop_loop ws q =
    (case q_queue q of
       v # rest \<Rightarrow> (Returned (Some v), q\<lparr>q_queue := rest\<rparr>)
     | [] \<Rightarrow>
         (case ws of
            [] \<Rightarrow> (Blocked, q)
          | w # ws' \<Rightarrow>
              (let q' = fold queue_step w q in
               if \<not> q_continue q' then (Returned None, q') else queue_pop_loop ws' q')))"

declare queue_pop_loop.simps [simp del]

definition queue_pop :: "'a queue_op list list \<Rightarrow> 'a queue_t \<Rightarrow> 'a waited \<times> 'a queue_t" where
  "queue_pop ws q = (if \<not> q_continue q then (Returned None, q) else queue_pop_loop ws q)"

fun queue_pop_for_loop ::
    "(bool \<times> 'a queue_op list) list \<Rightarrow> 'a queue_t \<Rightarrow> 'a waited \<times> 'a queue_t" where
  "queue_pop_for_loop ws q =
    (case q_queue q of
       v # rest \<Rightarrow> (Returned (Some v), q\<lparr>q_queue := rest\<rparr>)
     | [] \<Rightarrow>
         (if \<not> q_continue q then (Returned None, q)
          else (case ws of
                  [] \<Rightarrow> (Blocked, q)
                | (timeout, w) # ws' \<Rightarrow>
                    (let q' = fold queue_step w q in
                     if timeout then (Returned None, q') else queue_pop_for_loop ws' q'))))"

declare queue_pop_for_loop.simps [simp del]

definition queue_pop_for ::
    "(bool \<times> 'a queue_op list) list \<Rightarrow> 'a queue_t \<Rightarrow> 'a waited \<times> 'a queue_t" where
  "queue_pop_for ws q = (if \<not> q_continue q then (Returned None, q) else queue_pop_for_loop ws q)"

section \<open>The reference-counted object and its handles\<close>

text \<open>
  \<open>shared_t\<close>: the object lives in a raw buffer, so it is constructed by \<open>ref\<close> when the count is 0
  and destructed by the \<open>release\<close> that brings the count back to 0. \<open>sh_built\<close> and \<open>sh_destructed\<close>
  count the successful constructions and the destructions. The outcome of \<open>_construct\<close> (its return
  code and the object it leaves) is an argument of \<open>ref\<close>.
\<close>

record 'a shared_t =
  sh_count :: u32
  sh_object :: "'a option"
  sh_built :: nat
  sh_destructed :: nat

definition shared_new :: "'a shared_t" where
  "shared_new = \<lparr>sh_count = 0, sh_object = None, sh_built = 0, sh_destructed = 0\<rparr>"

text \<open>\<open>ref\<close> returns whether the handle it makes has an owner.\<close>

definition shared_ref :: "int \<times> 'a \<Rightarrow> 'a shared_t \<Rightarrow> bool \<times> 'a shared_t" where
  "shared_ref built s =
    (if sh_count s = 0
     then (if fst built \<noteq> 0 then (False, s\<lparr>sh_object := Some (snd built)\<rparr>)
           else (True, s\<lparr>sh_object := Some (snd built), sh_built := Suc (sh_built s), sh_count := 1\<rparr>))
     else (True, s\<lparr>sh_count := sh_count s + 1\<rparr>))"

definition shared_release :: "'a shared_t \<Rightarrow> 'a shared_t" where
  "shared_release s =
    (let c = sh_count s - 1 in
     if c = 0
     then s\<lparr>sh_count := c, sh_object := None, sh_destructed := Suc (sh_destructed s)\<rparr>
     else s\<lparr>sh_count := c\<rparr>)"

text \<open>
  The handles (\<open>ptr_t\<close>) a program holds, each a flag: does it have an owner. \<open>HRef i\<close> move-assigns a
  fresh reference to handle i, \<open>HMove i j\<close> move-assigns handle j to handle i, \<open>HCopy j\<close> and
  \<open>HEmpty\<close> construct a new handle, \<open>HDrop i\<close> destructs handle i (it stays in the list, without owner).
\<close>

datatype 'a handle_op = HRef nat "int \<times> 'a" | HMove nat nat | HCopy nat "int \<times> 'a" | HEmpty | HDrop nat

type_synonym 'a handles = "bool list \<times> 'a shared_t"

definition handle_release :: "nat \<Rightarrow> 'a handles \<Rightarrow> 'a handles" where
  "handle_release i = (\<lambda>(hs, s).
    if i < length hs \<and> hs ! i then (hs[i := False], shared_release s) else (hs, s))"

definition handle_assign :: "nat \<Rightarrow> bool \<Rightarrow> 'a handles \<Rightarrow> 'a handles" where
  "handle_assign i owned = (\<lambda>(hs, s). (hs[i := owned], s))"

fun handle_step :: "'a handle_op \<Rightarrow> 'a handles \<Rightarrow> 'a handles" where
  "handle_step (HRef i built) (hs, s) =
    (if i < length hs then
       (let (owned, s') = shared_ref built s in
        handle_assign i owned (handle_release i (hs, s')))
     else (hs, s))"
| "handle_step (HMove i j) (hs, s) =
    (if i < length hs \<and> j < length hs then
       (let (hs', s') = handle_release i (hs, s) in
        (hs'[i := hs' ! j, j := hs' ! i], s'))
     else (hs, s))"
| "handle_step (HCopy j built) (hs, s) =
    (if j < length hs then
       (if hs ! j then
          (let (owned, s') = shared_ref built s in (hs @ [True], s'))
        else (hs @ [False], s))
     else (hs, s))"
| "handle_step HEmpty (hs, s) = (hs @ [False], s)"
| "handle_step (HDrop i) (hs, s) = handle_release i (hs, s)"

text \<open>
  The invariant: the count is the number of handles with an owner, plus \<open>t\<close> temporaries inside a
  step; a counted object exists; and every built object but a counted one is destructed.
\<close>

definition owners :: "bool list \<Rightarrow> nat" where
  "owners hs = length (filter id hs)"

definition handles_inv :: "nat \<Rightarrow> 'a handles \<Rightarrow> bool" where
  "handles_inv t = (\<lambda>(hs, s).
     owners hs + t = unat (sh_count s) \<and>
     (sh_count s \<noteq> 0 \<longrightarrow> sh_object s \<noteq> None) \<and>
     sh_built s = sh_destructed s + (if sh_count s = 0 then 0 else 1))"

lemma owners_simps [simp]:
  "owners [] = 0" "owners (h # hs) = (if h then 1 else 0) + owners hs"
  "owners (hs @ hs') = owners hs + owners hs'"
  by (auto simp: owners_def)

lemma owners_le: "owners hs \<le> length hs"
  by (simp add: owners_def)

lemma owners_update:
  "i < length hs \<Longrightarrow>
   owners (hs[i := b]) + (if hs ! i then 1 else 0) = owners hs + (if b then 1 else 0)"
proof (induction hs arbitrary: i)
  case (Cons h hs)
  show ?case
  proof (cases i)
    case (Suc k)
    then show ?thesis using Cons.IH [of k] Cons.prems by (simp split: if_splits)
  qed simp
qed simp

lemma owners_pos: "i < length hs \<Longrightarrow> hs ! i \<Longrightarrow> 0 < owners hs"
  using owners_update [of i hs False] by simp

lemma handle_release_inv [inv_intros]:
  assumes "handles_inv t (hs, s)"
  shows "handles_inv t (handle_release i (hs, s))"
proof (cases "i < length hs \<and> hs ! i")
  case True
  then have pos: "0 < owners hs" using owners_pos by blast
  have upd: "owners (hs[i := False]) = owners hs - 1"
    using owners_update [of i hs False] True by simp
  have c: "sh_count s \<noteq> 0" using pos assms by (auto simp: handles_inv_def)
  then have u: "unat (sh_count s - 1) = unat (sh_count s) - 1"
    by (simp add: unat_minus_one)
  show ?thesis
    using True assms c u upd pos
    by (auto simp: handle_release_def handles_inv_def shared_release_def Let_def)
next
  case False
  then show ?thesis using assms by (auto simp: handle_release_def)
qed

lemma handle_release_false: "i < length hs \<Longrightarrow> fst (handle_release i (hs, s)) = hs[i := False]"
  by (simp add: handle_release_def) (metis (full_types) list_update_id)

lemma shared_ref_inv:
  assumes "handles_inv t (hs, s)" and "owners hs + t + 1 < 2 ^ 32"
  shows "handles_inv (if fst (shared_ref built s) then Suc t else t) (hs, snd (shared_ref built s))"
proof (cases "sh_count s = 0")
  case False
  have "unat (sh_count s + 1) = unat (sh_count s) + 1"
    using assms by (subst unat_add_lem [THEN iffD1]) (auto simp: handles_inv_def)
  moreover from this have "sh_count s + 1 \<noteq> 0" by (metis add_is_0 unat_0 zero_neq_one)
  ultimately show ?thesis
    using False assms by (auto simp: shared_ref_def handles_inv_def)
qed (use assms in \<open>auto simp: shared_ref_def handles_inv_def\<close>)

lemma shared_ref_owned: "\<not> fst (shared_ref built s) \<Longrightarrow> sh_count s = 0"
  by (auto simp: shared_ref_def split: if_splits)

lemma handle_assign_inv:
  assumes "handles_inv (if owned then Suc t else t) (hs, s)" and "i < length hs" and "\<not> hs ! i"
  shows "handles_inv t (handle_assign i owned (hs, s))"
  using assms owners_update [of i hs owned] by (auto simp: handle_assign_def handles_inv_def)

lemma handle_step_inv [inv_intros]:
  assumes inv: "handles_inv 0 (hs, s)" and small: "length hs + 1 < 2 ^ 32"
  shows "handles_inv 0 (handle_step op (hs, s))"
proof -
  have ref: "handles_inv (if fst (shared_ref b s) then 1 else 0) (hs, snd (shared_ref b s))" for b
    using shared_ref_inv [OF inv, of b] owners_le [of hs] small by (simp split: if_splits)
  show ?thesis
  proof (cases op)
    case (HRef i b)
    show ?thesis
    proof (cases "i < length hs")
      case True
      obtain hs' s' where r: "handle_release i (hs, snd (shared_ref b s)) = (hs', s')" by fastforce
      then have "hs' = hs[i := False]" using handle_release_false [OF True] by (metis fst_conv)
      moreover have "handles_inv (if fst (shared_ref b s) then 1 else 0) (hs', s')"
        using handle_release_inv [OF ref [of b], of i] r by simp
      ultimately have "handles_inv 0 (handle_assign i (fst (shared_ref b s)) (hs', s'))"
        using True by (intro handle_assign_inv) (auto split: if_splits)
      then show ?thesis using HRef True r by (simp add: split_beta)
    qed (use HRef inv in simp)
  next
    case (HMove i j)
    show ?thesis
    proof (cases "i < length hs \<and> j < length hs")
      case True
      obtain hs' s' where r: "handle_release i (hs, s) = (hs', s')" by fastforce
      then have hs': "hs' = hs[i := False]" using handle_release_false True by (metis fst_conv)
      have "handles_inv 0 (hs', s')" using handle_release_inv [OF inv, of i] r by simp
      moreover have "owners (hs'[i := hs' ! j, j := hs' ! i]) = owners hs'"
        using owners_update [of i hs' "hs' ! j"] owners_update [of j "hs'[i := hs' ! j]" "hs' ! i"]
          hs' True by (cases "i = j") (auto split: if_splits)
      ultimately show ?thesis using HMove True r by (simp add: handles_inv_def)
    qed (use HMove inv in auto)
  next
    case (HCopy j b)
    have "hs ! j \<Longrightarrow> j < length hs \<Longrightarrow> sh_count s \<noteq> 0"
      using owners_pos [of j hs] inv by (auto simp: handles_inv_def)
    then have "hs ! j \<Longrightarrow> j < length hs \<Longrightarrow> fst (shared_ref b s)"
      using shared_ref_owned [of b s] by blast
    then show ?thesis
      using HCopy ref [of b] inv by (auto simp: split_beta handles_inv_def)
  qed (use inv handle_release_inv [OF inv] in \<open>auto simp: handles_inv_def\<close>)
qed

lemma handle_step_length:
  "length (fst (handle_step op (hs, s))) \<le> length hs + (case op of HCopy _ _ \<Rightarrow> 1 | HEmpty \<Rightarrow> 1 | _ \<Rightarrow> 0)"
  by (cases op) (auto simp: handle_release_def handle_assign_def split: prod.splits)

lemma handle_steps_inv:
  "handles_inv 0 h \<Longrightarrow> length (fst h) + length ops + 1 < 2 ^ 32 \<Longrightarrow>
   handles_inv 0 (fold handle_step ops h)"
proof (induction ops arbitrary: h)
  case (Cons op ops)
  obtain hs s where h: "h = (hs, s)" by fastforce
  have "length (fst (handle_step op h)) \<le> length hs + 1"
    using handle_step_length [of op hs s] h by (auto split: handle_op.splits)
  then show ?case
    using Cons h handle_step_inv [of hs s op] by simp
qed simp

section \<open>The mail box\<close>

text \<open>
  \<open>mail_raw_t\<close> maps an identifier to a weak pointer. A channel (\<open>post_t\<close>) is known here by the
  number of its allocation. When its last shared pointer goes, the weak pointer has expired at
  once, and the destructor calls \<open>cleanup\<close> a moment later: \<open>ml_dying\<close> counts the destructors that
  have not reached \<open>cleanup\<close> yet.
\<close>

record 'k mail_raw_t =
  ml_posts :: "('k \<times> nat) list"
  ml_alive :: "nat list"
  ml_dying :: nat
  ml_next :: nat

definition mail_new :: "'k mail_raw_t" where
  "mail_new = \<lparr>ml_posts = [], ml_alive = [], ml_dying = 0, ml_next = 0\<rparr>"

text \<open>\<open>event(id)\<close> and \<open>queue(id)\<close>: lock the weak pointer found (the null pointer when it has
  expired), or make the channel and enter it, in the order of the keys.\<close>

definition mail_get :: "'k::linorder \<Rightarrow> 'k mail_raw_t \<Rightarrow> nat option \<times> 'k mail_raw_t" where
  "mail_get k m =
    (case map_of (ml_posts m) k of
       Some p \<Rightarrow> (if p \<in> set (ml_alive m) then Some p else None, m)
     | None \<Rightarrow>
         (Some (ml_next m),
          m\<lparr>ml_posts := insort_key fst (k, ml_next m) (ml_posts m),
            ml_alive := ml_next m # ml_alive m, ml_next := Suc (ml_next m)\<rparr>))"

definition mail_drop :: "nat \<Rightarrow> 'k mail_raw_t \<Rightarrow> 'k mail_raw_t" where
  "mail_drop p m =
    (if p \<in> set (ml_alive m)
     then m\<lparr>ml_alive := remove1 p (ml_alive m), ml_dying := Suc (ml_dying m)\<rparr> else m)"

definition expired :: "nat list \<Rightarrow> 'k \<times> nat \<Rightarrow> bool" where
  "expired alive e \<longleftrightarrow> snd e \<notin> set alive"

text \<open>\<open>cleanup\<close>: erase the first expired entry.\<close>

definition mail_cleanup :: "'k mail_raw_t \<Rightarrow> 'k mail_raw_t" where
  "mail_cleanup m =
    (if ml_dying m = 0 then m
     else m\<lparr>ml_posts := remove_first (expired (ml_alive m)) (ml_posts m),
            ml_dying := ml_dying m - 1\<rparr>)"

datatype 'k mail_op = MGet 'k | MDrop nat | MCleanup

fun mail_step :: "'k::linorder mail_op \<Rightarrow> 'k mail_raw_t \<Rightarrow> 'k mail_raw_t" where
  "mail_step (MGet k) m = snd (mail_get k m)"
| "mail_step (MDrop p) m = mail_drop p m"
| "mail_step MCleanup m = mail_cleanup m"

definition mail_expired :: "'k mail_raw_t \<Rightarrow> ('k \<times> nat) list" where
  "mail_expired m = filter (expired (ml_alive m)) (ml_posts m)"

definition mail_inv :: "'k mail_raw_t \<Rightarrow> bool" where
  "mail_inv m \<longleftrightarrow>
     length (mail_expired m) = ml_dying m \<and>
     distinct (map fst (ml_posts m)) \<and> distinct (map snd (ml_posts m)) \<and>
     distinct (ml_alive m) \<and> set (ml_alive m) \<subseteq> snd ` set (ml_posts m) \<and>
     (\<forall>p \<in> snd ` set (ml_posts m). p < ml_next m)"

lemma length_filter_insort_key [simp]:
  "length (filter P (insort_key f x xs)) = length (filter P (x # xs))"
  by (induction xs) auto

lemma distinct_map_insort_key [simp]:
  "distinct (map g (insort_key f x xs)) \<longleftrightarrow> distinct (map g (x # xs))"
  by (induction xs) (auto simp: set_insort_key)

lemma length_filter_remove_first:
  "length (filter P (remove_first P xs)) = length (filter P xs) - 1"
  by (induction xs) auto

lemma remove_first_keeps: "x \<in> set xs \<Longrightarrow> \<not> P x \<Longrightarrow> x \<in> set (remove_first P xs)"
  by (induction xs) auto

lemma distinct_map_remove_first: "distinct (map f xs) \<Longrightarrow> distinct (map f (remove_first P xs))"
proof (induction xs)
  case (Cons x xs)
  then show ?case using set_remove_first_subset [of P xs] by auto
qed simp

lemma filter_expired_drop:
  "distinct (map snd ps) \<Longrightarrow> p \<in> set alive \<Longrightarrow> distinct alive \<Longrightarrow>
   length (filter (expired (remove1 p alive)) ps) =
   length (filter (expired alive) ps) + (if p \<in> snd ` set ps then 1 else 0)"
proof (induction ps)
  case (Cons e ps)
  then show ?case by (cases "snd e = p") (auto simp: expired_def image_iff)
qed simp

lemma mail_get_inv [inv_intros]:
  assumes inv: "mail_inv m"
  shows "mail_inv (snd (mail_get k m))"
proof (cases "map_of (ml_posts m) k")
  case None
  let ?p = "ml_next m"
  have old: "\<forall>e \<in> set (ml_posts m). snd e < ?p" using inv by (simp add: mail_inv_def)
  have "filter (expired (?p # ml_alive m)) (ml_posts m) = filter (expired (ml_alive m)) (ml_posts m)"
    using old by (intro filter_cong) (auto simp: expired_def)
  moreover have "?p \<notin> snd ` set (ml_posts m)" "?p \<notin> set (ml_alive m)"
    using old inv by (force simp: mail_inv_def)+
  moreover have "k \<notin> fst ` set (ml_posts m)" using None by (simp add: map_of_eq_None_iff)
  ultimately show ?thesis
    using inv None
    by (simp add: mail_inv_def mail_expired_def mail_get_def set_insort_key less_Suc_eq subset_insertI2)
      (simp add: expired_def)
qed (simp add: mail_get_def inv)

lemma mail_drop_inv [inv_intros]:
  assumes inv: "mail_inv m"
  shows "mail_inv (mail_drop p m)"
proof (cases "p \<in> set (ml_alive m)")
  case True
  then have "p \<in> snd ` set (ml_posts m)" using inv by (auto simp: mail_inv_def)
  then show ?thesis
    using inv True
    by (auto simp: mail_inv_def mail_expired_def mail_drop_def filter_expired_drop
        dest: notin_set_remove1 in_set_remove1 [THEN iffD1, rotated])
qed (simp add: mail_drop_def inv)

lemma mail_cleanup_inv [inv_intros]:
  assumes inv: "mail_inv m"
  shows "mail_inv (mail_cleanup m)"
proof (cases "ml_dying m = 0")
  case False
  let ?ps = "remove_first (expired (ml_alive m)) (ml_posts m)"
  have sub: "set ?ps \<subseteq> set (ml_posts m)" by (rule set_remove_first_subset)
  have "p \<in> snd ` set ?ps" if "p \<in> set (ml_alive m)" for p
  proof -
    have "p \<in> snd ` set (ml_posts m)" using that inv by (auto simp: mail_inv_def)
    then obtain e where "e \<in> set (ml_posts m)" "p = snd e" by blast
    then show ?thesis using that by (auto intro!: remove_first_keeps simp: expired_def)
  qed
  then show ?thesis
    using inv False sub
    by (auto simp: mail_inv_def mail_expired_def mail_cleanup_def length_filter_remove_first
        distinct_map_remove_first)
qed (simp add: mail_cleanup_def inv)

lemma mail_steps_inv: "mail_inv m \<Longrightarrow> mail_inv (fold mail_step ops m)"
proof (induction ops arbitrary: m)
  case (Cons op ops)
  then show ?case by (cases op) (auto intro: inv_intros)
qed simp

lemma mail_new_inv: "mail_inv mail_new"
  by (simp add: mail_inv_def mail_new_def mail_expired_def)

lemma mail_get_null:
  assumes "mail_inv m"
  shows "fst (mail_get k m) = None \<longleftrightarrow> k \<in> fst ` set (mail_expired m)"
proof -
  have d: "distinct (map fst (ml_posts m))" using assms by (simp add: mail_inv_def)
  have mem: "k \<in> fst ` set (mail_expired m) \<longleftrightarrow>
      (\<exists>p. map_of (ml_posts m) k = Some p \<and> p \<notin> set (ml_alive m))"
    unfolding map_of_eq_Some_iff [OF d]
    by (auto simp: mail_expired_def expired_def image_iff Bex_def)
  show ?thesis
    unfolding mem by (cases "map_of (ml_posts m) k") (simp_all add: mail_get_def)
qed

section \<open>Histories of a queue\<close>

text \<open>A run of the queue's steps, with the values the consumers took.\<close>

fun queue_run :: "'a queue_op list \<Rightarrow> 'a queue_t \<Rightarrow> 'a list \<times> 'a queue_t" where
  "queue_run [] q = ([], q)"
| "queue_run (op # ops) q =
    (let (taken, q') = queue_run ops (queue_step op q) in
     case (op, fst (queue_try_pop q)) of
       (QTake, Some v) \<Rightarrow> (v # taken, q')
     | _ \<Rightarrow> (taken, q'))"

fun raised :: "'a queue_op list \<Rightarrow> 'a list" where
  "raised [] = []"
| "raised (QRaise x # ops) = x # raised ops"
| "raised (_ # ops) = raised ops"

lemma queue_run_state [simp]:
  "snd (queue_run (op # ops) q) = snd (queue_run ops (queue_step op q))"
  by (simp add: split_beta split: queue_op.split option.split)

lemma subseq_queue_overflow: "subseq (queue_overflow m p xs) xs"
  by (cases p) (auto simp: queue_overflow_def simp flip: drop_Suc intro: subseq_drop)

lemma queue_run_subseq:
  "subseq (fst (queue_run ops q) @ q_queue (snd (queue_run ops q))) (q_queue q @ raised ops)"
proof (induction ops arbitrary: q)
  case (Cons op ops)
  note IH = Cons.IH [of "queue_step op q"]
  show ?case
  proof (cases op)
    case (QRaise x)
    have "subseq (q_queue (queue_raise x q) @ raised ops) (q_queue q @ x # raised ops)"
      using subseq_queue_overflow [of "q_max_elements q" "q_overflow_policy q" "q_queue q"]
      by (auto simp: queue_raise_def intro: list_emb_append_mono)
    then show ?thesis
      using IH QRaise by (auto simp: split_beta intro: subseq_order.order_trans)
  next
    case QTake
    then show ?thesis
      using IH by (cases "q_queue q") (auto simp: split_beta queue_try_pop_def split: if_splits)
  next
    case QStop
    then show ?thesis using IH by (simp add: split_beta queue_stop_def)
  qed
qed simp

definition queue_inv :: "'a queue_t \<Rightarrow> bool" where
  "queue_inv q \<longleftrightarrow> q_max_elements q = 0 \<or> length (q_queue q) \<le> unat (q_max_elements q)"

lemma queue_step_max [simp]:
  "q_max_elements (queue_step op q) = q_max_elements q"
  "q_overflow_policy (queue_step op q) = q_overflow_policy q"
  by (cases op; simp add: queue_raise_def queue_try_pop_def queue_stop_def)+

lemma queue_run_max [simp]:
  "q_max_elements (snd (queue_run ops q)) = q_max_elements q"
  by (induction ops arbitrary: q) (simp_all del: queue_run.simps(2))

lemma queue_step_inv [inv_intros]: "queue_inv q \<Longrightarrow> queue_inv (queue_step op q)"
proof (cases op)
  case (QRaise x)
  assume "queue_inv q"
  then show ?thesis
    using QRaise unat_gt_0 [of "q_max_elements q"]
    by (auto simp: queue_inv_def queue_raise_def queue_overflow_def Suc_le_eq
        split: queue_overflow_e.split)
qed (auto simp: queue_inv_def queue_try_pop_def queue_stop_def)

lemma queue_run_inv: "queue_inv q \<Longrightarrow> queue_inv (snd (queue_run ops q))"
  by (induction ops arbitrary: q) (simp_all add: queue_step_inv del: queue_run.simps(2))

lemma queue_new_inv: "queue_inv (queue_new m p)"
  by (simp add: queue_inv_def queue_new_def)

text \<open>A running queue under a burst of raises: what each overflow policy keeps.\<close>

definition raise_all :: "'a list \<Rightarrow> 'a queue_t \<Rightarrow> 'a queue_t" where
  "raise_all xs q = fold queue_raise xs q"

lemma raise_all_const [simp]:
  "q_continue (raise_all xs q) = q_continue q"
  "q_max_elements (raise_all xs q) = q_max_elements q"
  "q_overflow_policy (raise_all xs q) = q_overflow_policy q"
  unfolding raise_all_def by (induction xs arbitrary: q) (auto simp: queue_raise_def)

lemma raise_all_snoc:
  "q_continue q \<Longrightarrow> q_queue (raise_all (xs @ [x]) q) =
   queue_overflow (q_max_elements q) (q_overflow_policy q) (q_queue (raise_all xs q)) @ [x]"
  using raise_all_const [of xs q] by (simp add: raise_all_def queue_raise_def)

lemma raise_all_drop_oldest:
  assumes "m \<noteq> 0"
  shows "q_queue (raise_all xs (queue_new m drop_oldest)) = drop (length xs - unat m) xs"
proof (induction xs rule: rev_induct)
  case Nil
  then show ?case by (simp add: raise_all_def queue_new_def)
next
  case (snoc x xs)
  have "0 < unat m" using assms by (simp add: unat_gt_0)
  then show ?case
    using snoc assms
    by (subst raise_all_snoc)
      (auto simp: queue_new_def queue_overflow_def Suc_diff_le not_le drop_Suc tl_drop)
qed

lemma drop_clear_step:
  fixes m :: nat
  assumes "0 < m"
  defines "k n \<equiv> m * ((n - 1) div m)"
  shows "(if m \<le> n - k n then n else k n) = k (Suc n)"
proof (cases n)
  case (Suc j)
  have "Suc j - m * (j div m) = Suc (j mod m)" by (simp add: minus_mult_div_eq_mod [symmetric] Suc_diff_le)
  moreover have "j mod m < m" using assms(1) by simp
  moreover have "Suc j = m * Suc (j div m)" if "Suc (j mod m) = m"
    using that by (metis add_Suc_right mult_Suc_right mult_div_mod_eq add.commute)
  ultimately show ?thesis
    using Suc by (auto simp: k_def div_Suc mod_Suc not_le split: if_splits)
qed (use assms in \<open>simp add: k_def\<close>)

lemma raise_all_clear_all:
  assumes "m \<noteq> 0"
  shows "q_queue (raise_all xs (queue_new m clear_all)) =
    drop (unat m * ((length xs - 1) div unat m)) xs"
proof (induction xs rule: rev_induct)
  case Nil
  then show ?case by (simp add: raise_all_def queue_new_def)
next
  case (snoc x xs)
  have pos: "0 < unat m" using assms by (simp add: unat_gt_0)
  have "unat m * ((length xs - 1) div unat m) \<le> length xs"
    by (metis diff_le_self le_trans mult.commute div_times_less_eq_dividend)
  then show ?case
    using snoc assms drop_clear_step [OF pos, of "length xs"]
    by (subst raise_all_snoc)
      (auto simp: queue_new_def queue_overflow_def split: if_splits)
qed

section \<open>When a blocking pop returns\<close>

fun queue_states :: "'a queue_op list list \<Rightarrow> 'a queue_t \<Rightarrow> 'a queue_t list" where
  "queue_states [] q = [q]"
| "queue_states (w # ws) q = q # queue_states ws (fold queue_step w q)"

definition queue_idle :: "'a queue_t \<Rightarrow> bool" where
  "queue_idle q \<longleftrightarrow> q_continue q \<and> q_queue q = []"

lemma queue_pop_loop_blocked:
  "q_continue q \<Longrightarrow>
   fst (queue_pop_loop ws q) = Blocked \<longleftrightarrow> list_all queue_idle (queue_states ws q)"
proof (induction ws arbitrary: q)
  case (Cons w ws)
  let ?q = "fold queue_step w q"
  have "list_all queue_idle (queue_states ws ?q) \<Longrightarrow> q_continue ?q"
    by (cases ws) (auto simp: queue_idle_def)
  then show ?case
    using Cons.IH [of ?q] Cons.prems
    by (subst queue_pop_loop.simps) (auto simp: queue_idle_def [of q] Let_def split: list.split)
qed (simp add: queue_pop_loop.simps queue_idle_def split: list.split)

lemma queue_pop_loop_none:
  "q_continue q \<Longrightarrow>
   fst (queue_pop_loop ws q) = Returned None \<longleftrightarrow> \<not> q_continue (snd (queue_pop_loop ws q))"
proof (induction ws arbitrary: q)
  case (Cons w ws)
  then show ?case
    by (subst (1 2) queue_pop_loop.simps) (auto simp: Let_def split: list.split)
qed (simp add: queue_pop_loop.simps split: list.split)

section \<open>The contract of a channel\<close>

text \<open>
  What the clients of a channel rely on: a first-in first-out list of items while it is active,
  nothing at all once it is halted. Both channels provide it, the event with room for one item.
\<close>

fun drain :: "('s \<Rightarrow> 'a option \<times> 's) \<Rightarrow> nat \<Rightarrow> 's \<Rightarrow> 'a list \<times> 's" where
  "drain grab 0 s = ([], s)"
| "drain grab (Suc n) s =
    (case grab s of
       (None, s') \<Rightarrow> ([], s')
     | (Some x, s') \<Rightarrow> (let (xs, s'') = drain grab n s' in (x # xs, s'')))"

locale mailbox =
  fixes put :: "'a \<Rightarrow> 's \<Rightarrow> 's"
    and grab :: "'s \<Rightarrow> 'a option \<times> 's"
    and halt :: "'s \<Rightarrow> 's"
    and items :: "'s \<Rightarrow> 'a list"
    and active :: "'s \<Rightarrow> bool"
  assumes grab_some: "active s \<Longrightarrow> items s = x # xs \<Longrightarrow>
      fst (grab s) = Some x \<and> items (snd (grab s)) = xs \<and> active (snd (grab s))"
    and grab_none: "\<not> active s \<or> items s = [] \<Longrightarrow> grab s = (None, s)"
    and put_inactive: "\<not> active s \<Longrightarrow> put x s = s"
    and put_active: "active s \<Longrightarrow>
      active (put x s) \<and> (\<exists>ys. items (put x s) = ys @ [x] \<and> subseq ys (items s))"
    and halt_inactive: "\<not> active (halt s)"
begin

lemma drain_all:
  "active s \<Longrightarrow> length (items s) \<le> n \<Longrightarrow>
   fst (drain grab n s) = items s \<and> items (snd (drain grab n s)) = [] \<and> active (snd (drain grab n s))"
proof (induction n arbitrary: s)
  case (Suc n)
  show ?case
  proof (cases "items s")
    case Nil
    then show ?thesis using Suc.prems by (simp add: grab_none)
  next
    case (Cons x xs)
    obtain o' s' where g: "grab s = (o', s')" by fastforce
    then have "o' = Some x" "items s' = xs" "active s'"
      using grab_some [OF Suc.prems(1) Cons] by simp_all
    then show ?thesis using Suc.IH [of s'] Suc.prems Cons g by (simp add: split_beta)
  qed
qed simp

lemma drain_halted: "drain grab n (halt s) = ([], halt s)"
  by (cases n) (simp_all add: grab_none halt_inactive)

lemma drain_after_put:
  "active s \<Longrightarrow> length (items (put x s)) \<le> n \<Longrightarrow> last (fst (drain grab n (put x s))) = x"
  using put_active [of s x] drain_all [of "put x s" n] by auto

end

interpretation qm: mailbox queue_raise queue_try_pop queue_stop q_queue q_continue
proof
  fix x and q :: "'a queue_t"
  show "q_continue q \<Longrightarrow> q_continue (queue_raise x q) \<and>
      (\<exists>ys. q_queue (queue_raise x q) = ys @ [x] \<and> subseq ys (q_queue q))"
    by (simp add: queue_raise_def subseq_queue_overflow)
qed (auto simp: queue_raise_def queue_try_pop_def queue_stop_def)

definition event_items :: "'a event_t \<Rightarrow> 'a list" where
  "event_items e = (case ev_status e of None \<Rightarrow> [] | Some v \<Rightarrow> [v])"

interpretation em: mailbox event_raise event_try_pop event_stop event_items ev_continue
  by unfold_locales
    (auto simp: event_items_def event_raise_def event_try_pop_def event_stop_def split: option.splits)

section \<open>Properties\<close>

text \<open>C1: A queue never holds more than its capacity, and whatever the order of raises, takes and
  stops, the values taken followed by the values still queued are a subsequence of the values
  raised: values may be lost to the overflow policy, never reordered, duplicated or invented.\<close>

theorem queue_history:
  "subseq (fst (queue_run ops (queue_new m p)) @ q_queue (snd (queue_run ops (queue_new m p))))
     (raised ops) \<and>
   (m = 0 \<or> length (q_queue (snd (queue_run ops (queue_new m p)))) \<le> unat m)"
  using queue_run_subseq [of ops "queue_new m p"]
    queue_run_inv [OF queue_new_inv [of m p], of ops]
  by (auto simp: queue_inv_def queue_new_def)

text \<open>A burst of raises on an empty bounded queue leaves exactly the newest values up to the
  capacity under \<open>drop_oldest\<close>, and under \<open>clear_all\<close> the values since the last multiple of the
  capacity.\<close>

theorem queue_burst:
  assumes "m \<noteq> 0"
  shows "q_queue (raise_all xs (queue_new m drop_oldest)) = drop (length xs - unat m) xs \<and>
    q_queue (raise_all xs (queue_new m clear_all)) =
      drop (unat m * ((length xs - 1) div unat m)) xs"
  using raise_all_drop_oldest [OF assms] raise_all_clear_all [OF assms] by blast

theorem queue_burst_witness:
  "q_queue (raise_all [1::nat, 2, 3] (queue_new 2 drop_oldest)) = [2, 3] \<and>
   q_queue (raise_all [1::nat, 2, 3] (queue_new 2 clear_all)) = [3]"
  using queue_burst [of 2 "[1::nat, 2, 3]"] by (simp add: drop_Cons')

text \<open>A blocking \<open>pop\<close> still sleeps after its wake-ups exactly when the queue was running and
  empty at every one of them; and it returns the empty value exactly when it leaves the queue
  stopped, so a value is never mistaken for shutdown nor shutdown for a value.\<close>

theorem queue_pop_returns:
  "(fst (queue_pop ws q) = Blocked \<longleftrightarrow> list_all queue_idle (queue_states ws q)) \<and>
   (fst (queue_pop ws q) = Returned None \<longleftrightarrow> \<not> q_continue (snd (queue_pop ws q)))"
proof (cases "q_continue q")
  case True
  then show ?thesis
    by (simp add: queue_pop_def queue_pop_loop_blocked queue_pop_loop_none)
next
  case False
  then show ?thesis by (cases ws) (simp_all add: queue_pop_def queue_idle_def)
qed

text \<open>In every program of handle operations (fewer than 2^32) on a shared object, the reference
  count is the number of handles with an owner, a counted object is there, and each object that
  was built has been destructed once, unless it is the one still counted.\<close>

theorem handles_lifetime:
  assumes "length ops + 1 < 2 ^ 32"
  shows "case fold handle_step ops ([], shared_new) of (hs, s) \<Rightarrow>
    owners hs = unat (sh_count s) \<and> (sh_count s = 0 \<or> sh_object s \<noteq> None) \<and>
    sh_built s = sh_destructed s + (if sh_count s = 0 then 0 else 1)"
  using handle_steps_inv [of "([], shared_new)" ops] assms
  by (auto simp: handles_inv_def shared_new_def split: prod.splits)

theorem handles_lifetime_witness:
  "owners (fst (fold handle_step [HEmpty, HRef 0 (0, ''ctx''), HCopy 0 (0, ''x''), HDrop 0]
     ([], shared_new))) = 1"
  using handles_lifetime [of "[HEmpty, HRef 0 (0, ''ctx''), HCopy 0 (0, ''x''), HDrop 0]"]
  by (simp add: shared_ref_def shared_new_def handle_assign_def handle_release_def
      shared_release_def)

text \<open>Asking the mail box for a channel returns the null pointer exactly for an identifier
  whose channel has lost its last owner and is not cleaned up yet, and there are as many such
  identifiers as destructors still to run their \<open>cleanup\<close>: none once they all have.\<close>

theorem mail_get_null_iff:
  "case fold mail_step ops mail_new of m \<Rightarrow>
    (fst (mail_get k m) = None \<longleftrightarrow> k \<in> fst ` set (mail_expired m)) \<and>
    length (mail_expired m) = ml_dying m"
  using mail_steps_inv [OF mail_new_inv, of ops] mail_get_null by (auto simp: mail_inv_def)

text \<open>After a wake-up in which a value was raised and the queue was stopped, the untimed \<open>pop\<close>
  reports the shutdown while the timed \<open>pop(delay)\<close> hands out the value: its loop looks at the
  queue before it looks at \<open>_continue\<close>. The same holds of \<open>view\<close> and \<open>view(delay)\<close>.\<close>

theorem timed_pop_after_stop:
  "fst (queue_pop [[QRaise x, QStop]] (queue_new m p)) = Returned None \<and>
   fst (queue_pop_for [(False, [QRaise x, QStop])] (queue_new m p)) = Returned (Some x) \<and>
   fst (event_view [[EvRaise x, EvStop]] event_new) = Returned None \<and>
   fst (event_view_for [(False, [EvRaise x, EvStop])] event_new) = Returned (Some x)"
  by (simp add: queue_pop_def queue_pop_for_def queue_pop_loop.simps queue_pop_for_loop.simps
      event_view_def event_view_for_def event_wait.simps event_view_loop.simps op_defs unat_eq_0)

end
