(* ===== verification/TaskPool.thy ===== *)
theory TaskPool
  imports Prelude "HOL-Library.Multiset"
begin

text \<open>
  The task pool of \<^verbatim>\<open>src/task_pool.h\<close> and the worker of \<^verbatim>\<open>src/thread_pool.h\<close>: a FIFO of ready
  tasks and a vector of timed tasks in descending order of their time, so that the task due first
  is at the back. Times are nanoseconds of the steady clock. A task is known by its address, the
  \<open>task_id_t\<close> the callers keep; the address of a new task is an argument (the allocator picks it),
  0 is the null pointer, and an empty \<open>__task\<close> (a moved-from \<open>unique_ptr\<close>) is \<open>None\<close>.
\<close>

type_synonym time_point = int
type_synonym task_id = nat
type_synonym 't task = "(task_id \<times> 't) option"

record 't task_pool =
  tp_tasks :: "'t task list"
  tp_timers :: "(time_point \<times> 't task) list"

definition pool_new :: "'t task_pool" where
  "pool_new = \<lparr>tp_tasks = [], tp_timers = []\<rparr>"

definition task_addr :: "'t task \<Rightarrow> task_id" where
  "task_addr t = (case t of None \<Rightarrow> 0 | Some (i, _) \<Rightarrow> i)"

definition pool_push :: "task_id \<Rightarrow> 't \<Rightarrow> 't task_pool \<Rightarrow> 't task_pool" where
  "pool_push i x p = p\<lparr>tp_tasks := tp_tasks p @ [Some (i, x)]\<rparr>"

text \<open>\<open>pushDelayed(pair)\<close>: before the first entry with a smaller time.\<close>

fun insert_timer :: "time_point \<times> 't task \<Rightarrow> (time_point \<times> 't task) list \<Rightarrow> (time_point \<times> 't task) list"
where
  "insert_timer e [] = [e]"
| "insert_timer e (x # xs) = (if fst x < fst e then e # x # xs else x # insert_timer e xs)"

definition pool_push_delayed_at :: "time_point \<times> 't task \<Rightarrow> 't task_pool \<Rightarrow> 't task_pool" where
  "pool_push_delayed_at e p = p\<lparr>tp_timers := insert_timer e (tp_timers p)\<rparr>"

definition pool_push_delayed ::
    "time_point \<Rightarrow> task_id \<Rightarrow> 't \<Rightarrow> int \<Rightarrow> 't task_pool \<Rightarrow> task_id \<times> 't task_pool" where
  "pool_push_delayed now i x duration p =
    (i, pool_push_delayed_at (now + duration, Some (i, x)) p)"

text \<open>\<open>delay\<close>: set the new time of the entry, then one pass of swaps from its place to the front.\<close>

fun bubble :: "nat \<Rightarrow> (time_point \<times> 't task) list \<Rightarrow> (time_point \<times> 't task) list" where
  "bubble 0 xs = xs"
| "bubble (Suc i) xs =
    bubble i (if fst (xs ! i) < fst (xs ! Suc i) then xs[i := xs ! Suc i, Suc i := xs ! i] else xs)"

definition pool_delay :: "time_point \<Rightarrow> task_id \<Rightarrow> int \<Rightarrow> 't task_pool \<Rightarrow> 't task_pool" where
  "pool_delay now i duration p =
    (case find_index (\<lambda>e. task_addr (snd e) = i) (tp_timers p) of
       None \<Rightarrow> p
     | Some k \<Rightarrow>
         p\<lparr>tp_timers := bubble k ((tp_timers p)[k := (now + duration, snd (tp_timers p ! k))])\<rparr>)"

definition pool_cancel :: "task_id \<Rightarrow> 't task_pool \<Rightarrow> bool \<times> 't task_pool" where
  "pool_cancel i p =
    (if \<exists>e \<in> set (tp_timers p). task_addr (snd e) = i
     then (True, p\<lparr>tp_timers := remove_first (\<lambda>e. task_addr (snd e) = i) (tp_timers p)\<rparr>)
     else (False, p))"

text \<open>\<open>pop(task_id)\<close> moves the pair out of the vector: the entry stays, with an empty task.\<close>

definition pool_pop_id ::
    "task_id \<Rightarrow> 't task_pool \<Rightarrow> (time_point \<times> 't task) option \<times> 't task_pool" where
  "pool_pop_id i p =
    (case find_index (\<lambda>e. task_addr (snd e) = i) (tp_timers p) of
       None \<Rightarrow> (None, p)
     | Some k \<Rightarrow>
         (Some (tp_timers p ! k),
          p\<lparr>tp_timers := (tp_timers p)[k := (fst (tp_timers p ! k), None)]\<rparr>))"

definition pool_pop :: "time_point \<Rightarrow> 't task_pool \<Rightarrow> 't task option \<times> 't task_pool" where
  "pool_pop now p =
    (if tp_tasks p \<noteq> [] then (Some (hd (tp_tasks p)), p\<lparr>tp_tasks := tl (tp_tasks p)\<rparr>)
     else if tp_timers p \<noteq> [] \<and> fst (last (tp_timers p)) \<le> now
     then (Some (snd (last (tp_timers p))), p\<lparr>tp_timers := butlast (tp_timers p)\<rparr>)
     else (None, p))"

definition pool_ready :: "time_point \<Rightarrow> 't task_pool \<Rightarrow> bool" where
  "pool_ready now p \<longleftrightarrow>
     tp_tasks p \<noteq> [] \<or> (tp_timers p \<noteq> [] \<and> fst (last (tp_timers p)) \<le> now)"

definition pool_next :: "'t task_pool \<Rightarrow> time_point option" where
  "pool_next p = (if tp_timers p = [] then None else Some (fst (last (tp_timers p))))"

section \<open>The worker of the thread pool\<close>

text \<open>One turn of the loop of \<open>_main\<close>: run a task, look again, stop, or sleep on the condition
  variable. \<open>_continue\<close> is read twice, before \<open>pop()\<close> and, under the lock, after \<open>ready()\<close>, which
  reads the clock again.\<close>

datatype 't worker_turn = RunTask "'t task" | Again | Leave | WaitUntil time_point | WaitForever

definition worker_turn ::
    "bool \<Rightarrow> time_point \<Rightarrow> bool \<Rightarrow> time_point \<Rightarrow> 't task_pool \<Rightarrow> 't worker_turn \<times> 't task_pool" where
  "worker_turn continue now continue' now' p =
    (if \<not> continue then (Leave, p)
     else (case pool_pop now p of
       (Some t, p') \<Rightarrow> (RunTask t, p')
     | (None, p') \<Rightarrow>
         (if pool_ready now' p' then (Again, p')
          else if \<not> continue' then (Leave, p')
          else (case pool_next p' of
                  Some tp \<Rightarrow> (WaitUntil tp, p')
                | None \<Rightarrow> (WaitForever, p')))))"

text \<open>After the loop: run what is ready at \<open>now\<close> (tasks that are not due yet stay).\<close>

function worker_finish :: "time_point \<Rightarrow> 't task_pool \<Rightarrow> 't task list \<times> 't task_pool" where
  "worker_finish now p =
    (case pool_pop now p of
       (None, p') \<Rightarrow> ([], p')
     | (Some t, p') \<Rightarrow> (let (ts, p'') = worker_finish now p' in (t # ts, p'')))"
  by pat_completeness auto

termination
  by (relation "measure (\<lambda>(now, p). length (tp_tasks p) + length (tp_timers p))")
    (auto simp: pool_pop_def split: if_splits)

declare worker_finish.simps [simp del]

section \<open>The order of the timed tasks\<close>

definition timers_ok :: "(time_point \<times> 't task) list \<Rightarrow> bool" where
  "timers_ok ts \<longleftrightarrow> sorted_wrt (\<lambda>x y. fst y \<le> fst x) ts"

definition pool_inv :: "'t task_pool \<Rightarrow> bool" where
  "pool_inv p \<longleftrightarrow> timers_ok (tp_timers p)"

lemma mset_insert_timer [simp]: "mset (insert_timer e xs) = add_mset e (mset xs)"
  by (induction xs) auto

lemma set_insert_timer [simp]: "set (insert_timer e xs) = insert e (set xs)"
  by (metis mset_insert_timer set_mset_add_mset_insert set_mset_mset)

lemma timers_ok_insert: "timers_ok xs \<Longrightarrow> timers_ok (insert_timer e xs)"
  by (induction xs) (force simp: timers_ok_def)+

lemma timers_ok_remove_first: "timers_ok xs \<Longrightarrow> timers_ok (remove_first P xs)"
proof (induction xs)
  case (Cons x xs)
  then show ?case using set_remove_first_subset [of P xs] by (auto simp: timers_ok_def)
qed simp

lemma timers_ok_butlast: "timers_ok xs \<Longrightarrow> timers_ok (butlast xs)"
  by (metis timers_ok_def sorted_wrt_append append_butlast_last_id butlast.simps(1))

lemma timers_ok_last: "timers_ok xs \<Longrightarrow> e \<in> set xs \<Longrightarrow> fst (last xs) \<le> fst e"
proof (induction xs rule: rev_induct)
  case (snoc x xs)
  then show ?case by (auto simp: timers_ok_def sorted_wrt_append)
qed simp

lemma insert_timer_snoc:
  "timers_ok (xs @ [x]) \<Longrightarrow>
   insert_timer e (xs @ [x]) = (if fst x < fst e then insert_timer e xs @ [x] else xs @ [x, e])"
  by (induction xs) (force simp: timers_ok_def)+

lemma bubble_insert:
  "timers_ok xs \<Longrightarrow> bubble (length xs) (xs @ e # ys) = insert_timer e xs @ ys"
proof (induction xs arbitrary: e ys rule: rev_induct)
  case (snoc x xs)
  have ok: "timers_ok xs" using snoc.prems by (simp add: timers_ok_def sorted_wrt_append)
  show ?case
  proof (cases "fst x < fst e")
    case True
    then show ?thesis
      using snoc.IH [OF ok, of e "x # ys"] insert_timer_snoc [OF snoc.prems, of e]
      by (simp add: nth_append list_update_append)
  next
    case False
    have "insert_timer x xs = xs @ [x]"
      using snoc.prems by (induction xs) (auto simp: timers_ok_def)
    then show ?thesis
      using False snoc.IH [OF ok, of x "e # ys"] insert_timer_snoc [OF snoc.prems, of e]
      by (simp add: nth_append)
  qed
qed simp

lemma pool_delay_split:
  assumes "pool_inv p" and "tp_timers p = xs @ (d, t) # ys" and "task_addr t = i"
    and "\<forall>e \<in> set xs. task_addr (snd e) \<noteq> i"
  shows "tp_timers (pool_delay now i duration p) = insert_timer (now + duration, t) xs @ ys"
proof -
  have "timers_ok xs" using assms(1,2) by (simp add: pool_inv_def timers_ok_def sorted_wrt_append)
  moreover have "find_index (\<lambda>e. task_addr (snd e) = i) (xs @ (d, t) # ys) = Some (length xs)"
    using assms(3,4) by (auto simp: find_index_Some nth_append)
  ultimately show ?thesis
    using assms(2) bubble_insert [of xs "(now + duration, t)" ys]
    by (simp add: pool_delay_def)
qed

lemma pool_delay_later_inv:
  assumes "pool_inv p" and "tp_timers p = xs @ (d, t) # ys" and "task_addr t = i"
    and "\<forall>e \<in> set xs. task_addr (snd e) \<noteq> i" and "d \<le> now + duration"
  shows "pool_inv (pool_delay now i duration p)"
proof -
  have "timers_ok xs" "timers_ok ys" "\<forall>y \<in> set ys. fst y \<le> d" "\<forall>x \<in> set xs. \<forall>y \<in> set ys. fst y \<le> fst x"
    using assms(1,2) by (auto simp: pool_inv_def timers_ok_def sorted_wrt_append)
  then show ?thesis
    using pool_delay_split [OF assms(1-4), of now duration] timers_ok_insert [of xs] assms(5)
    by (fastforce simp: pool_inv_def timers_ok_def sorted_wrt_append)
qed

section \<open>Histories of the pool\<close>

datatype 't pool_op =
    PPush task_id 't
  | PPushDelayed time_point task_id 't int
  | PCancel task_id
  | PPop time_point

record pool_log =
  lg_run :: "task_id list"
  lg_cancelled :: "task_id list"

fun pool_step :: "'t pool_op \<Rightarrow> pool_log \<times> 't task_pool \<Rightarrow> pool_log \<times> 't task_pool" where
  "pool_step (PPush i x) (l, p) = (l, pool_push i x p)"
| "pool_step (PPushDelayed now i x d) (l, p) = (l, snd (pool_push_delayed now i x d p))"
| "pool_step (PCancel i) (l, p) =
    (let (found, p') = pool_cancel i p in
     (if found then l\<lparr>lg_cancelled := i # lg_cancelled l\<rparr> else l, p'))"
| "pool_step (PPop now) (l, p) =
    (case pool_pop now p of
       (Some t, p') \<Rightarrow> (l\<lparr>lg_run := task_addr t # lg_run l\<rparr>, p')
     | (None, p') \<Rightarrow> (l, p'))"

definition pool_run :: "'t pool_op list \<Rightarrow> pool_log \<times> 't task_pool" where
  "pool_run ops = fold pool_step ops (\<lparr>lg_run = [], lg_cancelled = []\<rparr>, pool_new)"

fun pushed_ids :: "'t pool_op list \<Rightarrow> task_id list" where
  "pushed_ids [] = []"
| "pushed_ids (PPush i x # ops) = i # pushed_ids ops"
| "pushed_ids (PPushDelayed now i x d # ops) = i # pushed_ids ops"
| "pushed_ids (_ # ops) = pushed_ids ops"

definition pool_ids :: "'t task_pool \<Rightarrow> task_id multiset" where
  "pool_ids p = image_mset task_addr (mset (tp_tasks p)) +
     image_mset (\<lambda>e. task_addr (snd e)) (mset (tp_timers p))"

definition log_ids :: "pool_log \<times> 't task_pool \<Rightarrow> task_id multiset" where
  "log_ids = (\<lambda>(l, p). mset (lg_run l) + mset (lg_cancelled l) + pool_ids p)"

lemma remove_first_ids:
  "\<exists>e \<in> set xs. f e = i \<Longrightarrow>
   image_mset f (mset xs) = add_mset i (image_mset f (mset (remove_first (\<lambda>e. f e = i) xs)))"
  by (induction xs) auto

lemma butlast_ids:
  "xs \<noteq> [] \<Longrightarrow> image_mset f (mset xs) = add_mset (f (last xs)) (image_mset f (mset (butlast xs)))"
  by (metis append_butlast_last_id image_mset_add_mset mset_append mset_single_iff_right
      add_mset_add_single mset.simps)

lemma pool_pop_ids:
  "pool_ids p = (case fst (pool_pop now p) of None \<Rightarrow> {#} | Some t \<Rightarrow> {#task_addr t#}) +
     pool_ids (snd (pool_pop now p))"
proof (cases "tp_tasks p")
  case Nil
  then show ?thesis
    using butlast_ids [of "tp_timers p" "\<lambda>e. task_addr (snd e)"]
    by (auto simp: pool_pop_def pool_ids_def)
qed (simp add: pool_pop_def pool_ids_def)

lemma pool_step_ids:
  "log_ids (pool_step op lp) = log_ids lp + mset (pushed_ids [op])"
proof (cases lp)
  case (Pair l p)
  show ?thesis
  proof (cases op)
    case (PCancel i)
    then show ?thesis
      using Pair remove_first_ids [of "tp_timers p" "\<lambda>e. task_addr (snd e)" i]
      by (auto simp: log_ids_def pool_cancel_def pool_ids_def)
  next
    case (PPop now)
    then show ?thesis
      using Pair pool_pop_ids [of p now]
      by (auto simp: log_ids_def split: prod.split option.split)
  qed (use Pair in \<open>simp_all add: log_ids_def pool_push_def pool_push_delayed_def
        pool_push_delayed_at_def pool_ids_def task_addr_def\<close>)
qed

lemma pushed_ids_Cons: "pushed_ids (op # ops) = pushed_ids [op] @ pushed_ids ops"
  by (cases op) auto

lemma pool_run_ids: "log_ids (fold pool_step ops lp) = log_ids lp + mset (pushed_ids ops)"
proof (induction ops arbitrary: lp)
  case (Cons op ops)
  then show ?case by (simp add: pool_step_ids pushed_ids_Cons [of op ops] ac_simps)
qed simp

lemma pool_pop_inv [inv_intros]: "pool_inv p \<Longrightarrow> pool_inv (snd (pool_pop now p))"
  by (simp add: pool_inv_def pool_pop_def timers_ok_butlast)

lemma pool_cancel_inv [inv_intros]: "pool_inv p \<Longrightarrow> pool_inv (snd (pool_cancel i p))"
  by (simp add: pool_inv_def pool_cancel_def timers_ok_remove_first)

lemma pool_push_delayed_inv [inv_intros]:
  "pool_inv p \<Longrightarrow> pool_inv (snd (pool_push_delayed now i x d p))"
  by (simp add: pool_inv_def pool_push_delayed_def pool_push_delayed_at_def timers_ok_insert)

lemma pool_step_inv: "pool_inv (snd lp) \<Longrightarrow> pool_inv (snd (pool_step op lp))"
proof (cases lp)
  case (Pair l p)
  assume "pool_inv (snd lp)"
  then have inv: "pool_inv p" using Pair by simp
  show ?thesis
  proof (cases op)
    case (PPop now)
    then show ?thesis
      using Pair pool_pop_inv [OF inv, of now] by (auto split: prod.split option.split)
  qed (use Pair inv in \<open>auto simp: split_beta pool_push_def pool_inv_def
        dest: pool_cancel_inv [unfolded pool_inv_def] pool_push_delayed_inv [unfolded pool_inv_def]\<close>)
qed

lemma pool_run_inv: "pool_inv (snd (pool_run ops))"
proof -
  have "pool_inv (snd lp) \<Longrightarrow> pool_inv (snd (fold pool_step ops lp))" for lp :: "pool_log \<times> 'a task_pool"
  proof (induction ops arbitrary: lp)
    case (Cons op ops)
    then show ?case using pool_step_inv [of lp op] by (metis fold_simps(2))
  qed simp
  then show ?thesis by (simp add: pool_run_def pool_new_def pool_inv_def timers_ok_def)
qed

lemma pool_pop_due:
  assumes "pool_inv p"
  shows "case pool_pop now p of
      (Some t, p') \<Rightarrow> (tp_tasks p \<noteq> [] \<and> t = hd (tp_tasks p)) \<or>
        (tp_tasks p = [] \<and> (\<exists>d. (d, t) \<in> set (tp_timers p) \<and> d \<le> now \<and>
           list_all (\<lambda>e. d \<le> fst e) (tp_timers p)))
    | (None, p') \<Rightarrow> p' = p \<and> tp_tasks p = [] \<and> list_all (\<lambda>e. now < fst e) (tp_timers p)"
proof -
  have first: "list_all (\<lambda>e. fst (last (tp_timers p)) \<le> fst e) (tp_timers p)"
    using timers_ok_last assms by (auto simp: pool_inv_def list_all_iff)
  show ?thesis
  proof (cases "tp_tasks p = [] \<and> tp_timers p \<noteq> []")
    case True
    then have "last (tp_timers p) \<in> set (tp_timers p)" by simp
    then have mem: "(fst (last (tp_timers p)), snd (last (tp_timers p))) \<in> set (tp_timers p)" by simp
    show ?thesis
    proof (cases "fst (last (tp_timers p)) \<le> now")
      case le: True
      then show ?thesis
        using True mem first
        by (auto simp: pool_pop_def intro!: exI [of _ "fst (last (tp_timers p))"])
    next
      case False
      then show ?thesis using True first by (auto simp: pool_pop_def list_all_iff)
    qed
  qed (auto simp: pool_pop_def)
qed

lemma worker_turn_sleep:
  assumes "pool_inv p"
  shows "case worker_turn c now c' now' p of
      (WaitUntil tp, p') \<Rightarrow> p' = p \<and> tp_tasks p = [] \<and> now' < tp \<and>
        tp \<in> fst ` set (tp_timers p) \<and> list_all (\<lambda>e. tp \<le> fst e) (tp_timers p)
    | (WaitForever, p') \<Rightarrow> p' = p \<and> tp_tasks p = [] \<and> tp_timers p = []
    | (RunTask t, p') \<Rightarrow> c \<and> pool_pop now p = (Some t, p')
    | (_, p') \<Rightarrow> p' = p"
proof -
  have "e \<in> set (tp_timers p) \<Longrightarrow> fst (last (tp_timers p)) \<le> fst e" for e
    using timers_ok_last [of "tp_timers p" e] assms by (simp add: pool_inv_def)
  then show ?thesis
    by (auto simp: worker_turn_def pool_pop_def pool_ready_def pool_next_def list_all_iff
        split: if_splits)
qed

lemma filter_due_snoc:
  assumes "timers_ok (ts @ [e])" and "now < fst e"
  shows "filter (\<lambda>e. fst e \<le> now) (ts @ [e]) = []"
  using assms by (fastforce simp: timers_ok_def sorted_wrt_append filter_empty_conv)

lemma worker_finish_timers:
  "timers_ok ts \<Longrightarrow>
   worker_finish now \<lparr>tp_tasks = [], tp_timers = ts\<rparr> =
   (map snd (rev (filter (\<lambda>e. fst e \<le> now) ts)),
    \<lparr>tp_tasks = [], tp_timers = filter (\<lambda>e. now < fst e) ts\<rparr>)"
proof (induction ts rule: rev_induct)
  case (snoc e ts)
  have ok: "timers_ok ts" using snoc.prems by (simp add: timers_ok_def sorted_wrt_append)
  show ?case
  proof (cases "fst e \<le> now")
    case True
    then show ?thesis
      using snoc.IH [OF ok] by (subst worker_finish.simps) (simp add: pool_pop_def)
  next
    case False
    then have none: "filter (\<lambda>e. fst e \<le> now) (ts @ [e]) = []"
      using filter_due_snoc [OF snoc.prems] by simp
    then have "filter (\<lambda>e. now < fst e) (ts @ [e]) = ts @ [e]"
      using False by (auto simp: filter_empty_conv filter_id_conv not_le)
    then show ?thesis
      using False none by (subst worker_finish.simps) (simp add: pool_pop_def)
  qed
qed (subst worker_finish.simps, simp add: pool_pop_def)

lemma worker_finish_all:
  assumes "pool_inv p"
  shows "worker_finish now p =
    (tp_tasks p @ map snd (rev (filter (\<lambda>e. fst e \<le> now) (tp_timers p))),
     \<lparr>tp_tasks = [], tp_timers = filter (\<lambda>e. now < fst e) (tp_timers p)\<rparr>)"
proof -
  have "worker_finish now \<lparr>tp_tasks = xs, tp_timers = tp_timers p\<rparr> =
    (xs @ map snd (rev (filter (\<lambda>e. fst e \<le> now) (tp_timers p))),
     \<lparr>tp_tasks = [], tp_timers = filter (\<lambda>e. now < fst e) (tp_timers p)\<rparr>)" for xs
  proof (induction xs)
    case Nil
    then show ?case using assms by (simp add: pool_inv_def worker_finish_timers)
  next
    case (Cons x xs)
    then show ?case by (subst worker_finish.simps) (simp add: pool_pop_def)
  qed
  then show ?thesis by (metis (full_types) task_pool.surjective unit.exhaust)
qed

section \<open>The contract of the timers\<close>

text \<open>
  What the input component relies on when it arms, disarms and re-arms a timer (key repeat, the
  deferred left button, the back button of a gamepad): arming adds one pending timer, disarming
  removes one of that identity, and neither touches another timer. The client keeps the identity
  of its own timer; re-arming through it never leaves two of its timers pending.
\<close>

locale timers =
  fixes arm :: "time_point \<Rightarrow> task_id \<Rightarrow> 't \<Rightarrow> int \<Rightarrow> 's \<Rightarrow> 's"
    and disarm :: "task_id \<Rightarrow> 's \<Rightarrow> 's"
    and pending :: "'s \<Rightarrow> task_id multiset"
  assumes arm_pending: "pending (arm now i x d s) = add_mset i (pending s)"
    and disarm_pending: "pending (disarm i s) = pending s - {#i#}"
begin

lemma rearm_pending:
  "i \<in># pending s \<Longrightarrow>
   size (pending (arm now j x d (disarm i s))) = size (pending s)"
  by (metis arm_pending disarm_pending size_add_mset size_Suc_Diff1)

lemma disarm_fresh: "i \<notin># pending s \<Longrightarrow> pending (disarm i (arm now i x d s)) = pending s"
  by (simp add: arm_pending disarm_pending)

lemma disarm_other: "j \<noteq> i \<Longrightarrow> count (pending (disarm i s)) j = count (pending s) j"
  by (simp add: disarm_pending)

end

definition pool_pending :: "'t task_pool \<Rightarrow> task_id multiset" where
  "pool_pending p = image_mset (\<lambda>e. task_addr (snd e)) (mset (tp_timers p))"

interpretation pt: timers "\<lambda>now i x d p. snd (pool_push_delayed now i x d p)"
  "\<lambda>i p. snd (pool_cancel i p)" pool_pending
proof
  fix now i d and x :: 't and p :: "'t task_pool"
  show "pool_pending (snd (pool_push_delayed now i x d p)) = add_mset i (pool_pending p)"
    by (simp add: pool_pending_def pool_push_delayed_def pool_push_delayed_at_def task_addr_def)
next
  fix i and p :: "'t task_pool"
  show "pool_pending (snd (pool_cancel i p)) = pool_pending p - {#i#}"
  proof (cases "\<exists>e \<in> set (tp_timers p). task_addr (snd e) = i")
    case True
    then show ?thesis
      using remove_first_ids [of "tp_timers p" "\<lambda>e. task_addr (snd e)" i]
      by (simp add: pool_pending_def pool_cancel_def)
  next
    case False
    then have "i \<notin># pool_pending p" by (auto simp: pool_pending_def)
    then show ?thesis using False by (simp add: pool_cancel_def diff_single_trivial)
  qed
qed

section \<open>Timers by identity\<close>

text \<open>A pool with no ready task whose timed tasks have distinct addresses, none of them a mark.\<close>

definition pool_wf :: "'t task_pool \<Rightarrow> bool" where
  "pool_wf p \<longleftrightarrow> tp_tasks p = [] \<and> distinct (map (\<lambda>e. task_addr (snd e)) (tp_timers p)) \<and>
     (\<forall>e \<in> set (tp_timers p). \<exists>i t. snd e = Some (i, t) \<and> 1 < i)"

definition timer_at :: "'t task_pool \<Rightarrow> task_id \<Rightarrow> 't \<Rightarrow> bool" where
  "timer_at p i t \<longleftrightarrow> (\<exists>d. (d, Some (i, t)) \<in> set (tp_timers p))"

lemma timer_at_unique:
  assumes "pool_wf p" and "timer_at p i t" and "timer_at p i u"
  shows "t = u"
proof -
  obtain d d' where "(d, Some (i, t)) \<in> set (tp_timers p)" "(d', Some (i, u)) \<in> set (tp_timers p)"
    using assms(2,3) by (auto simp: timer_at_def)
  moreover have "inj_on (\<lambda>e. task_addr (snd e)) (set (tp_timers p))"
    using assms(1) by (simp add: pool_wf_def distinct_map)
  moreover have "task_addr (snd (d, Some (i, t))) = task_addr (snd (d', Some (i, u)))"
    by (simp add: task_addr_def)
  ultimately have "(d, Some (i, t)) = (d', Some (i, u))" by (metis inj_onD)
  then show ?thesis by simp
qed

lemma timer_at_id: "pool_wf p \<Longrightarrow> timer_at p i t \<Longrightarrow> 1 < i"
  by (force simp: pool_wf_def timer_at_def)

lemma pool_wf_push:
  assumes "pool_wf p" and "1 < i" and "i \<notin># pool_pending p"
  shows "pool_wf (snd (pool_push_delayed now i x d p))"
proof -
  have "mset (map (\<lambda>e. task_addr (snd e)) (insert_timer e (tp_timers p))) =
      mset (task_addr (snd e) # map (\<lambda>e. task_addr (snd e)) (tp_timers p))" for e :: "int \<times> 'a task"
    by simp
  then have "distinct (map (\<lambda>e. task_addr (snd e)) (insert_timer e (tp_timers p))) \<longleftrightarrow>
      distinct (task_addr (snd e) # map (\<lambda>e. task_addr (snd e)) (tp_timers p))" for e :: "int \<times> 'a task"
    by (rule mset_eq_imp_distinct_iff)
  then show ?thesis
    using assms
    by (auto simp: pool_wf_def pool_push_delayed_def pool_push_delayed_at_def pool_pending_def
        task_addr_def)
qed

lemma timer_at_push:
  "timer_at (snd (pool_push_delayed now i x d p)) j u \<longleftrightarrow> timer_at p j u \<or> (j = i \<and> u = x)"
  by (auto simp: timer_at_def pool_push_delayed_def pool_push_delayed_at_def)

lemma remove_first_distinct:
  "distinct (map f xs) \<Longrightarrow>
   set (remove_first (\<lambda>e. f e = i) xs) = {e \<in> set xs. f e \<noteq> i} \<and>
   distinct (map f (remove_first (\<lambda>e. f e = i) xs))"
proof (induction xs)
  case (Cons a xs)
  then show ?case by (cases "f a = i") (auto simp: image_iff)
qed simp

lemma pool_wf_cancel: "pool_wf p \<Longrightarrow> pool_wf (snd (pool_cancel i p))"
  using remove_first_distinct [of "\<lambda>e. task_addr (snd e)" "tp_timers p" i]
  by (auto simp: pool_wf_def pool_cancel_def)

lemma timer_at_cancel:
  "pool_wf p \<Longrightarrow> timer_at (snd (pool_cancel i p)) j u \<longleftrightarrow> timer_at p j u \<and> j \<noteq> i"
  using remove_first_distinct [of "\<lambda>e. task_addr (snd e)" "tp_timers p" i]
  by (force simp: pool_wf_def pool_cancel_def timer_at_def task_addr_def)

lemma pool_pop_wf:
  assumes "pool_wf p" and "pool_pop now p = (Some t, p')"
  shows "\<exists>i u. t = Some (i, u) \<and> timer_at p i u \<and> pool_wf p' \<and>
    (\<forall>j v. timer_at p' j v \<longleftrightarrow> timer_at p j v \<and> j \<noteq> i)"
proof -
  have ne: "tp_timers p \<noteq> []" and t: "t = snd (last (tp_timers p))"
    and p': "p' = p\<lparr>tp_timers := butlast (tp_timers p)\<rparr>"
    using assms by (auto simp: pool_wf_def pool_pop_def split: if_splits)
  obtain xs d z where ts: "tp_timers p = xs @ [(d, z)]"
    using ne by (metis append_butlast_last_id prod.collapse)
  obtain i u where z: "z = Some (i, u)" using assms(1) ts by (auto simp: pool_wf_def)
  have q: "tp_timers p' = xs" "tp_tasks p' = []" "t = Some (i, u)"
    using p' t ts z assms(1) by (simp_all add: pool_wf_def)
  have fresh: "(e, Some (i, v)) \<notin> set xs" for e v
    using assms(1) ts z by (force simp: pool_wf_def task_addr_def)
  have "timer_at p i u" using ts z by (auto simp: timer_at_def)
  moreover have "pool_wf p'" using assms(1) ts q(1,2) by (simp add: pool_wf_def)
  moreover have "timer_at p' j v \<longleftrightarrow> timer_at p j v \<and> j \<noteq> i" for j v
    using fresh unfolding timer_at_def q(1) ts z by (cases "j = i") auto
  ultimately show ?thesis using q(3) by blast
qed

section \<open>Properties\<close>


text \<open>After any history \<open>pop\<close> hands out the oldest ready task; without one, a timed task that is
  due and has the earliest time of all; and it returns nothing only when nothing is due.\<close>

theorem pool_pop_earliest:
  "case snd (pool_run ops) of p \<Rightarrow>
    (case pool_pop now p of
       (Some t, p') \<Rightarrow> (tp_tasks p \<noteq> [] \<and> t = hd (tp_tasks p)) \<or>
         (tp_tasks p = [] \<and> (\<exists>d. (d, t) \<in> set (tp_timers p) \<and> d \<le> now \<and>
            list_all (\<lambda>e. d \<le> fst e) (tp_timers p)))
     | (None, p') \<Rightarrow> p' = p \<and> tp_tasks p = [] \<and> list_all (\<lambda>e. now < fst e) (tp_timers p))"
  by (rule pool_pop_due [OF pool_run_inv])

text \<open>A worker goes to sleep only when nothing is ready, and then until the earliest timed task,
  which is in the future, or for good when there is none; a turn that runs nothing changes
  nothing.\<close>

theorem worker_sleeps_until_due:
  "case snd (pool_run ops) of p \<Rightarrow>
    (case worker_turn c now c' now' p of
       (WaitUntil tp, p') \<Rightarrow> p' = p \<and> tp_tasks p = [] \<and> now' < tp \<and>
         tp \<in> fst ` set (tp_timers p) \<and> list_all (\<lambda>e. tp \<le> fst e) (tp_timers p)
     | (WaitForever, p') \<Rightarrow> p' = p \<and> tp_tasks p = [] \<and> tp_timers p = []
     | (RunTask t, p') \<Rightarrow> c \<and> pool_pop now p = (Some t, p')
     | (_, p') \<Rightarrow> p' = p)"
  by (rule worker_turn_sleep [OF pool_run_inv])

text \<open>The loop that runs the remaining tasks at shutdown ends; it runs every ready task in order,
  then the timed tasks that are due, earliest first, and leaves exactly the timed tasks that are
  not due: those are never run.\<close>

theorem worker_finish_runs_due:
  "case snd (pool_run ops) of p \<Rightarrow>
    worker_finish now p =
      (tp_tasks p @ map snd (rev (filter (\<lambda>e. fst e \<le> now) (tp_timers p))),
       \<lparr>tp_tasks = [], tp_timers = filter (\<lambda>e. now < fst e) (tp_timers p)\<rparr>)"
  by (rule worker_finish_all [OF pool_run_inv])

text \<open>\<open>delay\<close> moves a timed task to a new time: to a later time (or the same) it keeps the vector
  in descending order, so the earliest task is still found at the back.\<close>

theorem pool_delay_keeps_order:
  assumes "pool_inv p" and "tp_timers p = xs @ (d, t) # ys" and "task_addr t = i"
    and "\<forall>e \<in> set xs. task_addr (snd e) \<noteq> i" and "d \<le> now + duration"
  shows "tp_timers (pool_delay now i duration p) = insert_timer (now + duration, t) xs @ ys \<and>
    pool_inv (pool_delay now i duration p)"
  using pool_delay_split [OF assms(1-4)] pool_delay_later_inv [OF assms] by blast

theorem pool_delay_keeps_order_witness:
  "pool_inv (pool_delay 0 2 40
     \<lparr>tp_tasks = [], tp_timers = [(30, Some (1, ''a'')), (20, Some (2, ''b''))]\<rparr>)"
  using pool_delay_keeps_order [of "\<lparr>tp_tasks = [], tp_timers = [(30, Some (1, ''a'')), (20, Some (2, ''b''))]\<rparr>"
      "[(30, Some (1, ''a''))]" 20 "Some (2, ''b'')" "[]" 2 0 40]
  by (simp add: pool_inv_def timers_ok_def task_addr_def)

text \<open>Moving a task to an earlier time with \<open>delay\<close> leaves it at its old place, in front of
  entries with a later time: here the task is due at time 10, yet at time 15 \<open>pop\<close> returns nothing
  and \<open>next\<close> asks the worker to sleep until 20. And \<open>pop(task_id)\<close> hands a task out without erasing its entry: the
  pool hands out the empty task that stays behind once its time comes.\<close>

theorem pool_delay_earlier_and_pop_id:
  "case \<lparr>tp_tasks = [], tp_timers = [(30, Some (5, x)), (20, Some (6, y))]\<rparr> of p \<Rightarrow>
    fst (pool_pop 15 (pool_delay 0 5 10 p)) = None \<and>
    pool_next (pool_delay 0 5 10 p) = Some 20 \<and>
    fst (pool_pop_id 6 p) = Some (20, Some (6, y)) \<and>
    fst (pool_pop 20 (snd (pool_pop_id 6 p))) = Some None"
  by (simp add: pool_delay_def pool_pop_def pool_next_def pool_pop_id_def task_addr_def)

end
