(* ===== verification/InputBatch.thy ===== *)
theory InputBatch
  imports Prelude "HOL-Library.Multiset"
begin

text \<open>
  The client's input messages and their batching, from \<^verbatim>\<open>src/input.cpp\<close>: \<open>batch\<close> merges a later
  message into the one about to be sent, and the single-flight drain takes messages off the queue.
  The packet structs belong to the protocol library: a message is one constructor per packet type
  (the magic), with its fields in host order. The values of the protocol's constants are a
  parameter. Floating point fields are opaque 32-bit values, only ever copied here.
\<close>

record limelight =
  lim_touch_move :: u8
  lim_touch_hover :: u8
  lim_button_left :: int
  lim_button_right :: int
  lim_modifier_shift :: u8
  lim_modifier_ctrl :: u8
  lim_modifier_alt :: u8

record abs_mouse_packet =
  am_x :: u16
  am_y :: u16
  am_width :: u16
  am_height :: u16

record keyboard_packet =
  kb_flags :: u8
  kb_keyCode :: u16
  kb_modifiers :: u8

record multi_controller_packet =
  mc_controllerNumber :: u16
  mc_activeGamepadMask :: u16
  mc_buttonFlags :: u16
  mc_buttonFlags2 :: u16
  mc_leftTrigger :: u8
  mc_rightTrigger :: u8
  mc_leftStickX :: u16
  mc_leftStickY :: u16
  mc_rightStickX :: u16
  mc_rightStickY :: u16

record touch_packet =
  to_eventType :: u8
  to_rotation :: u16
  to_pointerId :: u32
  to_data :: "u32 list"

record pen_packet =
  pe_eventType :: u8
  pe_toolType :: u8
  pe_penButtons :: u8
  pe_tilt :: u8
  pe_rotation :: u16
  pe_data :: "u32 list"

record controller_arrival_packet =
  ca_controllerNumber :: u8
  ca_type :: u8
  ca_capabilities :: u16
  ca_supportedButtonFlags :: u32

record controller_touch_packet =
  ct_controllerNumber :: u8
  ct_eventType :: u8
  ct_pointerId :: u32
  ct_data :: "u32 list"

record controller_motion_packet =
  cm_controllerNumber :: u8
  cm_motionType :: u8
  cm_x :: u32
  cm_y :: u32
  cm_z :: u32

record controller_battery_packet =
  cb_controllerNumber :: u8
  cb_batteryState :: u8
  cb_batteryPercentage :: u8

datatype input_msg =
    RelMouse u16 u16
  | AbsMouse abs_mouse_packet
  | MouseButton bool u8
  | Scroll u16 u16
  | HScroll u16
  | Keyboard bool keyboard_packet
  | Unicode bytes
  | MultiController multi_controller_packet
  | Touch touch_packet
  | Pen pen_packet
  | ControllerArrival controller_arrival_packet
  | ControllerTouch controller_touch_packet
  | ControllerMotion controller_motion_packet
  | ControllerBattery controller_battery_packet
  | OtherMsg u32

section \<open>Batching two messages\<close>

datatype 'a batch_result = batched 'a | not_batchable | terminate_batch

text \<open>\<open>__builtin_add_overflow\<close> into a \<open>short\<close>.\<close>

definition add_short :: "u16 \<Rightarrow> u16 \<Rightarrow> u16 option" where
  "add_short a b =
    (if sint a + sint b < - 32768 \<or> 32767 < sint a + sint b then None else Some (a + b))"

definition batch_rel_mouse :: "u16 \<times> u16 \<Rightarrow> u16 \<times> u16 \<Rightarrow> (u16 \<times> u16) batch_result" where
  "batch_rel_mouse dest src =
    (case (add_short (fst dest) (fst src), add_short (snd dest) (snd src)) of
       (Some deltaX, Some deltaY) \<Rightarrow> batched (deltaX, deltaY)
     | _ \<Rightarrow> terminate_batch)"

definition batch_abs_mouse ::
    "abs_mouse_packet \<Rightarrow> abs_mouse_packet \<Rightarrow> abs_mouse_packet batch_result" where
  "batch_abs_mouse dest src =
    (if am_width dest \<noteq> am_width src \<or> am_height dest \<noteq> am_height src
     then terminate_batch else batched src)"

definition batch_scroll :: "u16 \<times> u16 \<Rightarrow> u16 \<times> u16 \<Rightarrow> (u16 \<times> u16) batch_result" where
  "batch_scroll dest src =
    (case add_short (fst dest) (fst src) of
       None \<Rightarrow> terminate_batch
     | Some scrollAmt \<Rightarrow> batched (scrollAmt, scrollAmt))"

definition batch_hscroll :: "u16 \<Rightarrow> u16 \<Rightarrow> u16 batch_result" where
  "batch_hscroll dest src =
    (case add_short dest src of
       None \<Rightarrow> terminate_batch
     | Some scrollAmt \<Rightarrow> batched scrollAmt)"

definition batch_multi_controller ::
    "multi_controller_packet \<Rightarrow> multi_controller_packet \<Rightarrow> multi_controller_packet batch_result" where
  "batch_multi_controller dest src =
    (if mc_activeGamepadMask dest \<noteq> mc_activeGamepadMask src then terminate_batch
     else if mc_controllerNumber dest \<noteq> mc_controllerNumber src then not_batchable
     else if mc_buttonFlags dest \<noteq> mc_buttonFlags src \<or> mc_buttonFlags2 dest \<noteq> mc_buttonFlags2 src
     then terminate_batch
     else batched src)"

definition move_or_hover :: "limelight \<Rightarrow> u8 \<Rightarrow> bool" where
  "move_or_hover lim e \<longleftrightarrow> \<not> (e \<noteq> lim_touch_move lim \<and> e \<noteq> lim_touch_hover lim)"

definition batch_touch :: "limelight \<Rightarrow> touch_packet \<Rightarrow> touch_packet \<Rightarrow> touch_packet batch_result" where
  "batch_touch lim dest src =
    (if \<not> move_or_hover lim (to_eventType dest) then terminate_batch
     else if \<not> move_or_hover lim (to_eventType src) then terminate_batch
     else if to_pointerId dest \<noteq> to_pointerId src then not_batchable
     else if to_eventType dest \<noteq> to_eventType src then terminate_batch
     else batched src)"

definition batch_pen :: "limelight \<Rightarrow> pen_packet \<Rightarrow> pen_packet \<Rightarrow> pen_packet batch_result" where
  "batch_pen lim dest src =
    (if \<not> move_or_hover lim (pe_eventType dest) then terminate_batch
     else if pe_eventType dest \<noteq> pe_eventType src then terminate_batch
     else if pe_penButtons dest \<noteq> pe_penButtons src then terminate_batch
     else if pe_toolType dest \<noteq> pe_toolType src then terminate_batch
     else batched src)"

definition batch_controller_touch ::
    "limelight \<Rightarrow> controller_touch_packet \<Rightarrow> controller_touch_packet \<Rightarrow>
     controller_touch_packet batch_result" where
  "batch_controller_touch lim dest src =
    (if \<not> move_or_hover lim (ct_eventType dest) then terminate_batch
     else if ct_controllerNumber dest \<noteq> ct_controllerNumber src then not_batchable
     else if \<not> move_or_hover lim (ct_eventType src) then terminate_batch
     else if ct_pointerId dest \<noteq> ct_pointerId src then not_batchable
     else if ct_eventType dest \<noteq> ct_eventType src then terminate_batch
     else batched src)"

definition batch_controller_motion ::
    "controller_motion_packet \<Rightarrow> controller_motion_packet \<Rightarrow> controller_motion_packet batch_result"
where
  "batch_controller_motion dest src =
    (if cm_controllerNumber dest \<noteq> cm_controllerNumber src then not_batchable
     else if cm_motionType dest \<noteq> cm_motionType src then not_batchable
     else batched src)"

fun map_batch :: "('a \<Rightarrow> 'b) \<Rightarrow> 'a batch_result \<Rightarrow> 'b batch_result" where
  "map_batch f (batched x) = batched (f x)"
| "map_batch f not_batchable = not_batchable"
| "map_batch f terminate_batch = terminate_batch"

text \<open>The dispatcher: equal magics (the same constructor), one of the nine batchable types.\<close>

definition batch :: "limelight \<Rightarrow> input_msg \<Rightarrow> input_msg \<Rightarrow> input_msg batch_result" where
  "batch lim dest src =
    (case dest of
       RelMouse x y \<Rightarrow>
         (case src of
            RelMouse x' y' \<Rightarrow> map_batch (\<lambda>(a, b). RelMouse a b) (batch_rel_mouse (x, y) (x', y'))
          | _ \<Rightarrow> terminate_batch)
     | AbsMouse d \<Rightarrow>
         (case src of AbsMouse s \<Rightarrow> map_batch AbsMouse (batch_abs_mouse d s) | _ \<Rightarrow> terminate_batch)
     | Scroll a b \<Rightarrow>
         (case src of
            Scroll a' b' \<Rightarrow> map_batch (\<lambda>(a, b). Scroll a b) (batch_scroll (a, b) (a', b'))
          | _ \<Rightarrow> terminate_batch)
     | HScroll d \<Rightarrow>
         (case src of HScroll s \<Rightarrow> map_batch HScroll (batch_hscroll d s) | _ \<Rightarrow> terminate_batch)
     | MultiController d \<Rightarrow>
         (case src of
            MultiController s \<Rightarrow> map_batch MultiController (batch_multi_controller d s)
          | _ \<Rightarrow> terminate_batch)
     | Touch d \<Rightarrow>
         (case src of Touch s \<Rightarrow> map_batch Touch (batch_touch lim d s) | _ \<Rightarrow> terminate_batch)
     | Pen d \<Rightarrow>
         (case src of Pen s \<Rightarrow> map_batch Pen (batch_pen lim d s) | _ \<Rightarrow> terminate_batch)
     | ControllerTouch d \<Rightarrow>
         (case src of
            ControllerTouch s \<Rightarrow> map_batch ControllerTouch (batch_controller_touch lim d s)
          | _ \<Rightarrow> terminate_batch)
     | ControllerMotion d \<Rightarrow>
         (case src of
            ControllerMotion s \<Rightarrow> map_batch ControllerMotion (batch_controller_motion d s)
          | _ \<Rightarrow> terminate_batch)
     | _ \<Rightarrow> terminate_batch)"

text \<open>The loop over the rest of the queue: it stops at the first message that terminates the batch,
  erases the messages it merges and steps over the others.\<close>

fun batch_queue :: "limelight \<Rightarrow> input_msg \<Rightarrow> input_msg list \<Rightarrow> input_msg \<times> input_msg list" where
  "batch_queue lim d [] = (d, [])"
| "batch_queue lim d (m # ms) =
    (case batch lim d m of
       terminate_batch \<Rightarrow> (d, m # ms)
     | batched d' \<Rightarrow> batch_queue lim d' ms
     | not_batchable \<Rightarrow> (let (d', ms') = batch_queue lim d ms in (d', m # ms')))"

section \<open>The queue and its single-flight drain\<close>

text \<open>
  \<open>iq_drains\<close> counts the drain tasks in the pool and \<open>iq_turns\<close> is the turns the running drain has
  left. A step of the control thread is \<open>passthrough_enqueue\<close>; of the worker \<open>drain_start\<close> and
  \<open>drain_turn\<close>, one turn of the loop, which returns the message it sends. Each runs under the
  queue's lock, so the steps interleave freely.
\<close>

record input_queue_t =
  iq_queue :: "input_msg list"
  iq_drain_pending :: bool
  iq_drains :: nat
  iq_turns :: "nat option"

definition MAX_MESSAGES_PER_DRAIN :: nat where
  "MAX_MESSAGES_PER_DRAIN = 64"

definition input_queue_new :: input_queue_t where
  "input_queue_new = \<lparr>iq_queue = [], iq_drain_pending = False, iq_drains = 0, iq_turns = None\<rparr>"

definition passthrough_enqueue :: "input_msg \<Rightarrow> input_queue_t \<Rightarrow> input_queue_t" where
  "passthrough_enqueue m s =
    (let schedule_drain = \<not> iq_drain_pending s in
     s\<lparr>iq_queue := iq_queue s @ [m], iq_drain_pending := True,
       iq_drains := iq_drains s + (if schedule_drain then 1 else 0)\<rparr>)"

definition drain_start :: "input_queue_t \<Rightarrow> input_queue_t" where
  "drain_start s =
    (if iq_drains s = 0 \<or> iq_turns s \<noteq> None then s
     else s\<lparr>iq_drains := iq_drains s - 1, iq_turns := Some MAX_MESSAGES_PER_DRAIN\<rparr>)"

definition drain_turn :: "limelight \<Rightarrow> input_queue_t \<Rightarrow> input_msg option \<times> input_queue_t" where
  "drain_turn lim s =
    (case iq_turns s of
       None \<Rightarrow> (None, s)
     | Some 0 \<Rightarrow> (None, s\<lparr>iq_turns := None, iq_drains := iq_drains s + 1\<rparr>)
     | Some (Suc n) \<Rightarrow>
         (case iq_queue s of
            [] \<Rightarrow> (None, s\<lparr>iq_drain_pending := False, iq_turns := None\<rparr>)
          | entry # rest \<Rightarrow>
              (let (payload, queue) = batch_queue lim entry rest in
               (Some payload, s\<lparr>iq_queue := queue, iq_turns := Some n\<rparr>))))"

datatype queue_event = Arrive input_msg | Start | Turn

text \<open>A run: what was sent to the host so far, and the queue.\<close>

fun queue_event_step ::
    "limelight \<Rightarrow> queue_event \<Rightarrow> input_msg list \<times> input_queue_t \<Rightarrow> input_msg list \<times> input_queue_t" where
  "queue_event_step lim (Arrive m) (sent, s) = (sent, passthrough_enqueue m s)"
| "queue_event_step lim Start (sent, s) = (sent, drain_start s)"
| "queue_event_step lim Turn (sent, s) =
    (case drain_turn lim s of
       (None, s') \<Rightarrow> (sent, s')
     | (Some m, s') \<Rightarrow> (sent @ [m], s'))"

definition input_run :: "limelight \<Rightarrow> queue_event list \<Rightarrow> input_msg list \<times> input_queue_t" where
  "input_run lim evs = fold (queue_event_step lim) evs ([], input_queue_new)"

fun arrived :: "queue_event list \<Rightarrow> input_msg list" where
  "arrived [] = []"
| "arrived (Arrive m # evs) = m # arrived evs"
| "arrived (_ # evs) = arrived evs"

section \<open>What batching keeps\<close>

lemma add_short_sum: "add_short a b = Some c \<Longrightarrow> sint c = sint a + sint b"
proof -
  assume "add_short a b = Some c"
  then have "c = a + b" "- 32768 \<le> sint a + sint b" "sint a + sint b \<le> 32767"
    by (auto simp: add_short_def split: if_splits)
  then show ?thesis
    by (simp add: sint_word_ariths signed_take_bit_int_eq_self)
qed

definition rel_x :: "input_msg \<Rightarrow> int" where
  "rel_x m = (case m of RelMouse x y \<Rightarrow> sint x | _ \<Rightarrow> 0)"

definition rel_y :: "input_msg \<Rightarrow> int" where
  "rel_y m = (case m of RelMouse x y \<Rightarrow> sint y | _ \<Rightarrow> 0)"

definition scroll_amount :: "input_msg \<Rightarrow> int" where
  "scroll_amount m = (case m of Scroll a b \<Rightarrow> sint a | _ \<Rightarrow> 0)"

definition hscroll_amount :: "input_msg \<Rightarrow> int" where
  "hscroll_amount m = (case m of HScroll a \<Rightarrow> sint a | _ \<Rightarrow> 0)"

lemmas amount_defs = rel_x_def rel_y_def scroll_amount_def hscroll_amount_def

text \<open>The messages that are never merged: button, key, text, arrival and battery events.\<close>

definition discrete :: "input_msg \<Rightarrow> bool" where
  "discrete m = (case m of MouseButton _ _ \<Rightarrow> True | Keyboard _ _ \<Rightarrow> True | Unicode _ \<Rightarrow> True
     | ControllerArrival _ \<Rightarrow> True | ControllerBattery _ \<Rightarrow> True | OtherMsg _ \<Rightarrow> True | _ \<Rightarrow> False)"

text \<open>The button state a message reports for a controller.\<close>

definition pad_buttons :: "u16 \<Rightarrow> input_msg \<Rightarrow> (u16 \<times> u16) list" where
  "pad_buttons c m =
    (case m of
       MultiController p \<Rightarrow>
         (if mc_controllerNumber p = c then [(mc_buttonFlags p, mc_buttonFlags2 p)] else [])
     | _ \<Rightarrow> [])"

lemmas msg_defs = amount_defs discrete_def pad_buttons_def

lemma batch_cases:
  assumes "batch lim d m = batched d'"
  shows "rel_x d' = rel_x d + rel_x m \<and> rel_y d' = rel_y d + rel_y m \<and>
    scroll_amount d' = scroll_amount d + scroll_amount m \<and>
    hscroll_amount d' = hscroll_amount d + hscroll_amount m \<and>
    \<not> discrete d \<and> \<not> discrete m \<and> \<not> discrete d' \<and>
    pad_buttons c d' = pad_buttons c d \<and> pad_buttons c m = pad_buttons c d"
proof (cases d)
  case (RelMouse x y)
  then show ?thesis
    using assms
    by (cases m) (auto simp: batch_def msg_defs batch_rel_mouse_def add_short_sum split: if_splits option.splits)
next
  case (AbsMouse x)
  then show ?thesis
    using assms
    by (cases m) (auto simp: batch_def msg_defs batch_abs_mouse_def split: if_splits option.splits)
next
  case (Scroll x y)
  then show ?thesis
    using assms
    by (cases m) (auto simp: batch_def msg_defs batch_scroll_def add_short_sum split: if_splits option.splits)
next
  case (HScroll x)
  then show ?thesis
    using assms
    by (cases m) (auto simp: batch_def msg_defs batch_hscroll_def add_short_sum split: if_splits option.splits)
next
  case (MultiController x)
  then show ?thesis
    using assms
    by (cases m) (auto simp: batch_def msg_defs batch_multi_controller_def split: if_splits option.splits)
next
  case (Touch x)
  then show ?thesis
    using assms
    by (cases m) (auto simp: batch_def msg_defs batch_touch_def split: if_splits option.splits)
next
  case (Pen x)
  then show ?thesis
    using assms
    by (cases m) (auto simp: batch_def msg_defs batch_pen_def split: if_splits option.splits)
next
  case (ControllerTouch x)
  then show ?thesis
    using assms
    by (cases m) (auto simp: batch_def msg_defs batch_controller_touch_def split: if_splits option.splits)
next
  case (ControllerMotion x)
  then show ?thesis
    using assms
    by (cases m) (auto simp: batch_def msg_defs batch_controller_motion_def split: if_splits option.splits)
qed (use assms in \<open>simp_all add: batch_def\<close>)

lemma map_batch_simps [simp]:
  "map_batch f r = not_batchable \<longleftrightarrow> r = not_batchable"
  "map_batch f r = terminate_batch \<longleftrightarrow> r = terminate_batch"
  by (cases r; simp)+

lemma batch_never_skips [simp]:
  "batch_rel_mouse x y \<noteq> not_batchable" "batch_abs_mouse a b \<noteq> not_batchable"
  "batch_scroll x y \<noteq> not_batchable" "batch_hscroll v w \<noteq> not_batchable"
  "batch_pen lim p q \<noteq> not_batchable"
  by (auto simp: batch_rel_mouse_def batch_abs_mouse_def batch_scroll_def batch_hscroll_def
      batch_pen_def split: option.split)

lemma batch_skip:
  assumes "batch lim d m = not_batchable"
  shows "(pad_buttons c d = [] \<or> pad_buttons c m = []) \<and> \<not> discrete d \<and> \<not> discrete m"
proof (cases d)
  case (MultiController x)
  then show ?thesis
    using assms
    by (cases m) (auto simp: batch_def pad_buttons_def discrete_def batch_multi_controller_def
        split: if_splits)
next
  case (Touch x)
  then show ?thesis using assms by (cases m) (simp_all add: batch_def pad_buttons_def discrete_def)
next
  case (ControllerTouch x)
  then show ?thesis using assms by (cases m) (simp_all add: batch_def pad_buttons_def discrete_def)
next
  case (ControllerMotion x)
  then show ?thesis using assms by (cases m) (simp_all add: batch_def pad_buttons_def discrete_def)
qed (use assms in \<open>simp_all add: batch_def split: input_msg.splits\<close>)

lemma batch_queue_sum:
  fixes w :: "input_msg \<Rightarrow> int"
  assumes "\<And>d m d'. batch lim d m = batched d' \<Longrightarrow> w d' = w d + w m"
  shows "batch_queue lim d ms = (d', ms') \<Longrightarrow>
    w d' + sum_list (map w ms') = w d + sum_list (map w ms)"
proof (induction ms arbitrary: d d' ms')
  case (Cons m ms)
  show ?case
  proof (cases "batch lim d m")
    case (batched e)
    then show ?thesis using Cons.IH [of e d' ms'] Cons.prems assms [OF batched] by simp
  next
    case not_batchable
    then show ?thesis using Cons.IH [of d] Cons.prems by (auto split: prod.splits)
  qed (use Cons.prems in auto)
qed simp

lemma batch_queue_discrete:
  "batch_queue lim d ms = (d', ms') \<Longrightarrow> filter discrete (d' # ms') = filter discrete (d # ms)"
proof (induction ms arbitrary: d d' ms')
  case (Cons m ms)
  show ?case
  proof (cases "batch lim d m")
    case (batched e)
    then show ?thesis
      using Cons.IH [of e d' ms'] Cons.prems batch_cases [OF batched] by auto
  next
    case not_batchable
    then obtain ms'' where b: "batch_queue lim d ms = (d', ms'')" "ms' = m # ms''"
      using Cons.prems by (auto split: prod.splits)
    then show ?thesis
      using Cons.IH [OF b(1)] batch_skip [OF not_batchable] by (auto split: if_splits)
  qed (use Cons.prems in auto)
qed simp

lemma remdups_adj_context:
  "remdups_adj xs = remdups_adj ys \<Longrightarrow> remdups_adj (zs @ xs) = remdups_adj (zs @ ys)"
  by (induction zs) (simp_all add: remdups_adj_Cons)

lemma remdups_adj_context_right:
  "remdups_adj xs = remdups_adj ys \<Longrightarrow> remdups_adj (xs @ zs) = remdups_adj (ys @ zs)"
proof -
  assume "remdups_adj xs = remdups_adj ys"
  then have "remdups_adj (rev xs) = remdups_adj (rev ys)" by simp
  then have "remdups_adj (rev zs @ rev xs) = remdups_adj (rev zs @ rev ys)"
    by (rule remdups_adj_context)
  then have "remdups_adj (rev (xs @ zs)) = remdups_adj (rev (ys @ zs))" by simp
  then show ?thesis unfolding remdups_adj_rev by simp
qed

definition pad_history :: "u16 \<Rightarrow> input_msg list \<Rightarrow> (u16 \<times> u16) list" where
  "pad_history c ms = remdups_adj (concat (map (pad_buttons c) ms))"

lemma batch_queue_head: "batch_queue lim d ms = (d', ms') \<Longrightarrow> pad_buttons c d' = pad_buttons c d"
proof (induction ms arbitrary: d d' ms')
  case (Cons m ms)
  show ?case
  proof (cases "batch lim d m")
    case (batched e)
    then have "pad_buttons c d' = pad_buttons c e" using Cons by simp
    then show ?thesis using batch_cases [OF batched, of c] by (elim conjE) (rule trans)
  qed (use Cons in \<open>auto split: prod.splits\<close>)
qed simp

lemma pad_buttons_length: "pad_buttons c m = [] \<or> (\<exists>b. pad_buttons c m = [b])"
  by (auto simp: pad_buttons_def split: input_msg.split)

lemma batch_queue_pad:
  "batch_queue lim d ms = (d', ms') \<Longrightarrow> pad_history c (d' # ms') = pad_history c (d # ms)"
proof (induction ms arbitrary: d d' ms')
  case (Cons m ms)
  show ?case
  proof (cases "batch lim d m")
    case (batched e)
    then have "pad_history c (d' # ms') = pad_history c (e # ms)"
      using Cons.IH [of e d' ms'] Cons.prems by simp
    also have "\<dots> = pad_history c (d # m # ms)"
    proof -
      have eq: "pad_buttons c e = pad_buttons c d" "pad_buttons c m = pad_buttons c d"
        using batch_cases [OF batched, of c] by blast+
      have "remdups_adj (pad_buttons c d @ xs) = remdups_adj (pad_buttons c d @ pad_buttons c d @ xs)" for xs
        using pad_buttons_length [of c d] by auto
      then show ?thesis unfolding pad_history_def by (simp only: list.map concat.simps eq)
    qed
    finally show ?thesis .
  next
    case not_batchable
    then obtain ms'' where b: "batch_queue lim d ms = (d', ms'')" "ms' = m # ms''"
      using Cons.prems by (auto split: prod.splits)
    note IH = Cons.IH [OF b(1)] and hd = batch_queue_head [OF b(1), of c]
    show ?thesis
    proof (cases "pad_buttons c m = []")
      case True
      then show ?thesis using IH unfolding pad_history_def b(2) by simp
    next
      case False
      then have "pad_buttons c d = []" using batch_skip [OF not_batchable] by blast
      moreover from this have "pad_buttons c d' = []" using hd by simp
      ultimately show ?thesis
        using IH remdups_adj_context [of "concat (map (pad_buttons c) ms'')"
            "concat (map (pad_buttons c) ms)" "pad_buttons c m"]
        unfolding pad_history_def b(2) by simp
    qed
  qed (use Cons.prems in auto)
qed simp

section \<open>What every run of the queue keeps\<close>

lemma queue_event_seen:
  assumes "queue_event_step lim ev (sent, s) = (sent', s')"
  shows "case ev of
      Arrive m \<Rightarrow> sent' @ iq_queue s' = sent @ iq_queue s @ [m]
    | _ \<Rightarrow> sent' @ iq_queue s' = sent @ iq_queue s \<or>
        (\<exists>d ms d' ms'. iq_queue s = d # ms \<and> batch_queue lim d ms = (d', ms') \<and>
           sent' @ iq_queue s' = sent @ d' # ms')"
proof (cases ev)
  case Turn
  then show ?thesis
    using assms
    by (fastforce simp: drain_turn_def split: option.splits nat.splits list.splits prod.splits)
qed (use assms in \<open>auto simp: passthrough_enqueue_def drain_start_def Let_def\<close>)

lemma arrived_snoc:
  "arrived (evs @ [ev]) = arrived evs @ (case ev of Arrive m \<Rightarrow> [m] | _ \<Rightarrow> [])"
proof (induction evs)
  case Nil
  then show ?case by (cases ev) simp_all
next
  case (Cons a evs)
  then show ?case by (cases a) simp_all
qed

text \<open>
  A view of the message stream that merging does not change and that arrivals extend. Whatever the
  interleaving of arrivals and drains, the view of what was sent and what is still queued is the
  view of what arrived.
\<close>

locale queue_view =
  fixes lim :: limelight and view :: "input_msg list \<Rightarrow> 'v"
  assumes merge: "batch_queue lim d ms = (d', ms') \<Longrightarrow> view (xs @ d' # ms') = view (xs @ d # ms)"
    and extend: "view xs = view ys \<Longrightarrow> view (xs @ [m]) = view (ys @ [m])"
begin

lemma run_view:
  "view (fst (input_run lim evs) @ iq_queue (snd (input_run lim evs))) = view (arrived evs)"
proof (induction evs rule: rev_induct)
  case Nil
  then show ?case by (simp add: input_run_def input_queue_new_def)
next
  case (snoc ev evs)
  obtain sent s where r: "input_run lim evs = (sent, s)" by fastforce
  obtain sent' s' where r': "queue_event_step lim ev (sent, s) = (sent', s')" by fastforce
  have run: "input_run lim (evs @ [ev]) = (sent', s')"
    using r r' by (simp add: input_run_def)
  note arr = arrived_snoc [of evs ev]
  have IH: "view (sent @ iq_queue s) = view (arrived evs)" using snoc.IH r by simp
  note seen = queue_event_seen [OF r']
  show ?case
  proof (cases ev)
    case (Arrive m)
    then show ?thesis using run arr seen extend [OF IH, of m] by simp
  next
    case Start
    then show ?thesis using run arr seen IH merge by auto
  next
    case Turn
    then show ?thesis using run arr seen IH merge by auto
  qed
qed

end

lemma sum_view:
  assumes "\<And>d m d'. batch lim d m = batched d' \<Longrightarrow> w d' = w d + w m"
  shows "queue_view lim (\<lambda>ms. \<Sum>m\<leftarrow>ms. w m :: int)"
  using batch_queue_sum [of lim w, OF assms] by unfold_locales fastforce+

interpretation rx: queue_view lim "\<lambda>ms. \<Sum>m\<leftarrow>ms. rel_x m" for lim
  by (rule sum_view) (use batch_cases in blast)

interpretation ry: queue_view lim "\<lambda>ms. \<Sum>m\<leftarrow>ms. rel_y m" for lim
  by (rule sum_view) (use batch_cases in blast)

interpretation sv: queue_view lim "\<lambda>ms. \<Sum>m\<leftarrow>ms. scroll_amount m" for lim
  by (rule sum_view) (use batch_cases in blast)

interpretation sh: queue_view lim "\<lambda>ms. \<Sum>m\<leftarrow>ms. hscroll_amount m" for lim
  by (rule sum_view) (use batch_cases in blast)

interpretation dv: queue_view lim "filter discrete" for lim
  using batch_queue_discrete by unfold_locales fastforce+

interpretation pv: queue_view lim "pad_history c" for lim c
proof
  fix d ms d' ms' xs
  assume "batch_queue lim d ms = (d', ms')"
  then show "pad_history c (xs @ d' # ms') = pad_history c (xs @ d # ms)"
    using batch_queue_pad [of lim d ms d' ms' c]
      remdups_adj_context [of "concat (map (pad_buttons c) (d' # ms'))"
        "concat (map (pad_buttons c) (d # ms))" "concat (map (pad_buttons c) xs)"]
    by (simp add: pad_history_def)
next
  fix xs ys m
  assume "pad_history c xs = pad_history c ys"
  then show "pad_history c (xs @ [m]) = pad_history c (ys @ [m])"
    using remdups_adj_context_right by (simp add: pad_history_def)
qed

definition drain_inv :: "input_queue_t \<Rightarrow> bool" where
  "drain_inv s \<longleftrightarrow>
     iq_drains s + (if iq_turns s = None then 0 else 1) = (if iq_drain_pending s then 1 else 0) \<and>
     (iq_queue s = [] \<or> iq_drain_pending s)"

lemma queue_event_inv [inv_intros]:
  assumes "drain_inv s"
  shows "drain_inv (snd (queue_event_step lim ev (sent, s)))"
proof (cases ev)
  case Turn
  then show ?thesis
    using assms
    by (auto simp: drain_inv_def drain_turn_def split: option.splits nat.splits list.splits
        prod.splits if_splits)
qed (use assms in \<open>auto simp: drain_inv_def passthrough_enqueue_def drain_start_def Let_def
      split: if_splits\<close>)

lemma input_run_inv: "drain_inv (snd (input_run lim evs))"
proof (induction evs rule: rev_induct)
  case Nil
  then show ?case by (simp add: input_run_def input_queue_new_def drain_inv_def)
next
  case (snoc ev evs)
  then show ?case
    using queue_event_inv by (cases "input_run lim evs") (simp add: input_run_def)
qed

section \<open>Properties\<close>

text \<open>C5: Batching loses no motion: however arrivals and drains interleave, the relative mouse motion
  and the scroll amounts sent to the host plus those still queued add up to those that arrived.\<close>

theorem input_conserves_motion:
  "case input_run lim evs of (sent, s) \<Rightarrow>
    (\<Sum>m\<leftarrow>sent @ iq_queue s. rel_x m) = (\<Sum>m\<leftarrow>arrived evs. rel_x m) \<and>
    (\<Sum>m\<leftarrow>sent @ iq_queue s. rel_y m) = (\<Sum>m\<leftarrow>arrived evs. rel_y m) \<and>
    (\<Sum>m\<leftarrow>sent @ iq_queue s. scroll_amount m) = (\<Sum>m\<leftarrow>arrived evs. scroll_amount m) \<and>
    (\<Sum>m\<leftarrow>sent @ iq_queue s. hscroll_amount m) = (\<Sum>m\<leftarrow>arrived evs. hscroll_amount m)"
  using rx.run_view [of lim evs] ry.run_view [of lim evs] sv.run_view [of lim evs]
    sh.run_view [of lim evs]
  by (simp add: split_beta)

text \<open>C6: Batching never drops, merges or reorders a discrete event (button, key, text, arrival,
  battery), and each controller's sequence of distinct button states reaches the host as it
  arrived: no press or release of a gamepad button is batched away.\<close>

theorem input_keeps_events:
  "case input_run lim evs of (sent, s) \<Rightarrow>
    filter discrete (sent @ iq_queue s) = filter discrete (arrived evs) \<and>
    pad_history c (sent @ iq_queue s) = pad_history c (arrived evs)"
  using dv.run_view [of lim evs] pv.run_view [of c lim evs] by (simp add: split_beta)

text \<open>C7: The drain is single-flight: at every moment at most one drain is scheduled or running,
  exactly when \<open>input_drain_pending\<close> is set, and it is set whenever a message is queued, so no
  message is left behind without a drain to come.\<close>

theorem input_drain_single_flight:
  "case snd (input_run lim evs) of s \<Rightarrow>
    iq_drains s + (if iq_turns s = None then 0 else 1) = (if iq_drain_pending s then 1 else 0) \<and>
    (iq_queue s = [] \<or> iq_drain_pending s)"
  using input_run_inv [of lim evs] by (simp add: drain_inv_def)

end
