(* ===== verification/InputDevices.thy ===== *)
theory InputDevices
  imports InputBatch TaskPool EventQueue
begin

text \<open>
  The input devices of a session, from \<^verbatim>\<open>src/input.cpp\<close>: mouse buttons, keyboard, scrolling, and
  gamepads with the emulation of the HOME button. One record holds the global state of the file
  and the \<open>input_t\<close> of one session, the task pool the delayed actions live in, and the list of
  calls made to the platform layer so far, which is what the host sees. What a handler takes from
  outside (the clock, the address of a new task, the return code of the platform's
  \<open>alloc_gamepad\<close>) is its argument \<open>env\<close>. Pointer, touch and pen coordinates (floating point) are
  not modelled.
\<close>

definition MAX_GAMEPADS :: nat where "MAX_GAMEPADS = 16"
definition BACK :: u32 where "BACK = 0x20"
definition HOME :: u32 where "HOME = 0x400"
definition WHEEL_DELTA :: int where "WHEEL_DELTA = 120"
definition DISABLE_LEFT_BUTTON_DELAY :: task_id where "DISABLE_LEFT_BUTTON_DELAY = 1"
definition ENABLE_LEFT_BUTTON_DELAY :: task_id where "ENABLE_LEFT_BUTTON_DELAY = 0"

definition VKEY_SHIFT :: u16 where "VKEY_SHIFT = 0x10"
definition VKEY_LSHIFT :: u16 where "VKEY_LSHIFT = 0xA0"
definition VKEY_RSHIFT :: u16 where "VKEY_RSHIFT = 0xA1"
definition VKEY_CONTROL :: u16 where "VKEY_CONTROL = 0x11"
definition VKEY_LCONTROL :: u16 where "VKEY_LCONTROL = 0xA2"
definition VKEY_RCONTROL :: u16 where "VKEY_RCONTROL = 0xA3"
definition VKEY_MENU :: u16 where "VKEY_MENU = 0x12"
definition VKEY_LMENU :: u16 where "VKEY_LMENU = 0xA4"
definition VKEY_RMENU :: u16 where "VKEY_RMENU = 0xA5"

definition CTRL :: u32 where "CTRL = 1"
definition ALT :: u32 where "ALT = 2"
definition SHIFT :: u32 where "SHIFT = 4"
definition SHORTCUT :: u32 where "SHORTCUT = CTRL OR ALT OR SHIFT"

datatype button_state_e = NONE | DOWN | UP

record gamepad_state_t =
  gs_buttonFlags :: u32
  gs_lt :: u8
  gs_rt :: u8
  gs_lsX :: u16
  gs_lsY :: u16
  gs_rsX :: u16
  gs_rsY :: u16

record gamepad_arrival_t =
  ga_type :: u8
  ga_capabilities :: u16
  ga_supportedButtons :: u32

record gamepad_t =
  gp_state :: gamepad_state_t
  gp_back_timeout_id :: task_id
  gp_home_generation :: u64
  gp_home_pressed :: bool
  gp_id :: int
  gp_back_button_state :: button_state_e

text \<open>The calls to the platform layer, and the delayed actions.\<close>

datatype platf_call =
    MoveMouse int int
  | ButtonMouse int bool
  | KeyboardUpdate u16 bool u8
  | ScrollCall int
  | HScrollCall int
  | AllocGamepad int u16 gamepad_arrival_t
  | FreeGamepad int
  | GamepadUpdate int gamepad_state_t
  | GamepadMotion int u8 u8 u32 u32 u32
  | GamepadBattery int u8 u8 u8

datatype input_task =
    LeftRelease
  | RepeatKey u16 u8 u8
  | HomePress nat u64
  | HomeRelease nat u64
  | ReleaseAll
  | FreeGamepadTask int
  | WakeMouse

record input_config =
  cfg_mouse :: bool
  cfg_keyboard :: bool
  cfg_controller :: bool
  cfg_key_repeat_delay :: int
  cfg_key_repeat_period :: int
  cfg_keybindings :: "(int \<times> int) list"
  cfg_key_rightalt_to_key_win :: bool
  cfg_high_resolution_scrolling :: bool
  cfg_back_button_timeout :: int

record input_env =
  en_now :: time_point
  en_fresh :: task_id
  en_alloc_rc :: int

record input_state =
  is_key_press_repeat_id :: task_id
  is_key_press :: "(u32 \<times> bool) list"
  is_mouse_press :: "bool list"
  is_gamepadMask :: "bool list"
  is_display_cursor :: bool
  is_switch_display :: "int event_t"
  in_shortcutFlags :: u32
  in_left_alt_pressed :: bool
  in_right_alt_pressed :: bool
  in_gamepads :: "gamepad_t list"
  in_mouse_left_button_timeout :: task_id
  in_accumulated_vscroll_delta :: int
  in_accumulated_hscroll_delta :: int
  is_pool :: "input_task task_pool"
  is_host :: "platf_call list"

definition gamepad_state_new :: gamepad_state_t where
  "gamepad_state_new = \<lparr>gs_buttonFlags = 0, gs_lt = 0, gs_rt = 0, gs_lsX = 0, gs_lsY = 0,
     gs_rsX = 0, gs_rsY = 0\<rparr>"

definition gamepad_new :: gamepad_t where
  "gamepad_new = \<lparr>gp_state = gamepad_state_new, gp_back_timeout_id = 0, gp_home_generation = 0,
     gp_home_pressed = False, gp_id = - 1, gp_back_button_state = NONE\<rparr>"

definition input_new :: input_state where
  "input_new = \<lparr>is_key_press_repeat_id = 0, is_key_press = [], is_mouse_press = replicate 5 False,
     is_gamepadMask = replicate MAX_GAMEPADS False, is_display_cursor = True,
     is_switch_display = event_new, in_shortcutFlags = 0, in_left_alt_pressed = False,
     in_right_alt_pressed = False, in_gamepads = replicate MAX_GAMEPADS gamepad_new,
     in_mouse_left_button_timeout = 0, in_accumulated_vscroll_delta = 0,
     in_accumulated_hscroll_delta = 0, is_pool = pool_new, is_host = []\<rparr>"

definition send :: "platf_call \<Rightarrow> input_state \<Rightarrow> input_state" where
  "send c s = s\<lparr>is_host := is_host s @ [c]\<rparr>"

text \<open>\<open>task_pool.pushDelayed\<close>, with its task id, and \<open>task_pool.cancel\<close>.\<close>

definition push_delayed :: "input_env \<Rightarrow> input_task \<Rightarrow> int \<Rightarrow> input_state \<Rightarrow> task_id \<times> input_state" where
  "push_delayed env t duration s =
    (let (i, pool) = pool_push_delayed (en_now env) (en_fresh env) t duration (is_pool s) in
     (i, s\<lparr>is_pool := pool\<rparr>))"

definition cancel_task :: "task_id \<Rightarrow> input_state \<Rightarrow> input_state" where
  "cancel_task i s = s\<lparr>is_pool := snd (pool_cancel i (is_pool s))\<rparr>"

definition push_task :: "input_env \<Rightarrow> input_task \<Rightarrow> input_state \<Rightarrow> input_state" where
  "push_task env t s = s\<lparr>is_pool := pool_push (en_fresh env) t (is_pool s)\<rparr>"

definition ms :: "int \<Rightarrow> int" where
  "ms n = n * 1000000"

section \<open>Mouse\<close>

definition pass_rel_mouse :: "input_config \<Rightarrow> u16 \<times> u16 \<Rightarrow> input_state \<Rightarrow> input_state" where
  "pass_rel_mouse cfg d s =
    (if \<not> cfg_mouse cfg then s
     else send (MoveMouse (sint (fst d)) (sint (snd d)))
            (s\<lparr>in_mouse_left_button_timeout := DISABLE_LEFT_BUTTON_DELAY\<rparr>))"

text \<open>The first statement of the absolute mouse handler; the coordinates it then computes are not
  modelled.\<close>

definition abs_mouse_delay :: "input_config \<Rightarrow> input_state \<Rightarrow> input_state" where
  "abs_mouse_delay cfg s =
    (if \<not> cfg_mouse cfg then s
     else if in_mouse_left_button_timeout s = DISABLE_LEFT_BUTTON_DELAY
     then s\<lparr>in_mouse_left_button_timeout := ENABLE_LEFT_BUTTON_DELAY\<rparr> else s)"

definition pass_mouse_button ::
    "limelight \<Rightarrow> input_config \<Rightarrow> input_env \<Rightarrow> bool \<Rightarrow> u8 \<Rightarrow> input_state \<Rightarrow> input_state" where
  "pass_mouse_button lim cfg env release button s =
    (if \<not> cfg_mouse cfg then s
     else
       let b = unat button; tracked = (0 < b \<and> b < length (is_mouse_press s)) in
       if tracked \<and> is_mouse_press s ! b \<noteq> release then s
       else
         let s = (if tracked then s\<lparr>is_mouse_press := (is_mouse_press s)[b := \<not> release]\<rparr> else s) in
         if int b = lim_button_left lim \<and> release \<and> in_mouse_left_button_timeout s = 0 then
           (let (i, s) = push_delayed env LeftRelease (ms 10) s in
            s\<lparr>in_mouse_left_button_timeout := i\<rparr>)
         else if int b = lim_button_right lim \<and> \<not> release \<and>
                 DISABLE_LEFT_BUTTON_DELAY < in_mouse_left_button_timeout s then
           (let s = send (ButtonMouse (lim_button_right lim) False) s;
                s = send (ButtonMouse (lim_button_right lim) True) s in
            s\<lparr>is_mouse_press := (is_mouse_press s)[nat (lim_button_right lim) := False]\<rparr>)
         else send (ButtonMouse (int b) release) s)"

text \<open>The delayed release of the left button.\<close>

definition left_release :: "limelight \<Rightarrow> input_state \<Rightarrow> input_state" where
  "left_release lim s =
    (let left_released = is_mouse_press s ! nat (lim_button_left lim) in
     if left_released then s
     else (send (ButtonMouse (lim_button_left lim) True) s)
            \<lparr>is_mouse_press := (is_mouse_press s)[nat (lim_button_left lim) := False],
             in_mouse_left_button_timeout := 0\<rparr>)"

text \<open>C++ integer division truncates toward zero.\<close>

definition tdiv :: "int \<Rightarrow> int \<Rightarrow> int" where
  "tdiv a b = sgn a * (\<bar>a\<bar> div b)"

definition pass_scroll :: "input_config \<Rightarrow> u16 \<Rightarrow> input_state \<Rightarrow> input_state" where
  "pass_scroll cfg amount s =
    (if \<not> cfg_mouse cfg then s
     else if cfg_high_resolution_scrolling cfg then send (ScrollCall (sint amount)) s
     else
       let delta = in_accumulated_vscroll_delta s + sint amount;
           full_ticks = tdiv delta WHEEL_DELTA;
           s = s\<lparr>in_accumulated_vscroll_delta := delta\<rparr> in
       if full_ticks \<noteq> 0
       then (send (ScrollCall (full_ticks * WHEEL_DELTA)) s)
              \<lparr>in_accumulated_vscroll_delta := delta - full_ticks * WHEEL_DELTA\<rparr>
       else s)"

definition pass_hscroll :: "input_config \<Rightarrow> u16 \<Rightarrow> input_state \<Rightarrow> input_state" where
  "pass_hscroll cfg amount s =
    (if \<not> cfg_mouse cfg then s
     else if cfg_high_resolution_scrolling cfg then send (HScrollCall (sint amount)) s
     else
       let delta = in_accumulated_hscroll_delta s + sint amount;
           full_ticks = tdiv delta WHEEL_DELTA;
           s = s\<lparr>in_accumulated_hscroll_delta := delta\<rparr> in
       if full_ticks \<noteq> 0
       then (send (HScrollCall (full_ticks * WHEEL_DELTA)) s)
              \<lparr>in_accumulated_hscroll_delta := delta - full_ticks * WHEEL_DELTA\<rparr>
       else s)"

section \<open>Keyboard\<close>

definition make_kpid :: "u16 \<Rightarrow> u8 \<Rightarrow> u32" where
  "make_kpid vk flags = push_bit 8 (ucast vk) OR ucast flags"

definition vk_from_kpid :: "u32 \<Rightarrow> u16" where
  "vk_from_kpid kpid = ucast (drop_bit 8 kpid)"

definition flags_from_kpid :: "u32 \<Rightarrow> u8" where
  "flags_from_kpid kpid = ucast (kpid AND 0xFF)"

text \<open>\<open>key_press\<close>: reading an absent key enters it as released.\<close>

definition key_pressed :: "u32 \<Rightarrow> input_state \<Rightarrow> bool" where
  "key_pressed k s = (map_of (is_key_press s) k = Some True)"

fun kp_set :: "u32 \<Rightarrow> bool \<Rightarrow> (u32 \<times> bool) list \<Rightarrow> (u32 \<times> bool) list" where
  "kp_set k b [] = [(k, b)]"
| "kp_set k b ((k', b') # kps) = (if k' = k then (k, b) # kps else (k', b') # kp_set k b kps)"

definition set_key_press :: "u32 \<Rightarrow> bool \<Rightarrow> input_state \<Rightarrow> input_state" where
  "set_key_press k b s = s\<lparr>is_key_press := kp_set k b (is_key_press s)\<rparr>"

definition apply_shortcut :: "u16 \<Rightarrow> input_state \<Rightarrow> int \<times> input_state" where
  "apply_shortcut keyCode s =
    (let k = sint keyCode in
     if 0x70 \<le> k \<and> k \<le> 0x7C
     then (1, s\<lparr>is_switch_display := event_raise (k - 0x70) (is_switch_display s)\<rparr>)
     else if k = 0x4E then (1, s\<lparr>is_display_cursor := \<not> is_display_cursor s\<rparr>)
     else (0, s))"

definition map_keycode :: "input_config \<Rightarrow> u16 \<Rightarrow> u16" where
  "map_keycode cfg keycode =
    (case map_of (cfg_keybindings cfg) (sint keycode) of None \<Rightarrow> keycode | Some k \<Rightarrow> of_int k)"

definition update_shortcutFlags :: "u32 \<Rightarrow> u16 \<Rightarrow> bool \<Rightarrow> u32" where
  "update_shortcutFlags flags keyCode release =
    (if keyCode = VKEY_SHIFT \<or> keyCode = VKEY_LSHIFT \<or> keyCode = VKEY_RSHIFT
     then (if release then flags AND NOT SHIFT else flags OR SHIFT)
     else if keyCode = VKEY_CONTROL \<or> keyCode = VKEY_LCONTROL \<or> keyCode = VKEY_RCONTROL
     then (if release then flags AND NOT CTRL else flags OR CTRL)
     else if keyCode = VKEY_MENU \<or> keyCode = VKEY_LMENU \<or> keyCode = VKEY_RMENU
     then (if release then flags AND NOT ALT else flags OR ALT)
     else flags)"

definition is_modifier :: "u16 \<Rightarrow> bool" where
  "is_modifier keyCode \<longleftrightarrow> keyCode \<in> set [VKEY_SHIFT, VKEY_LSHIFT, VKEY_RSHIFT, VKEY_CONTROL,
     VKEY_LCONTROL, VKEY_RCONTROL, VKEY_MENU, VKEY_LMENU, VKEY_RMENU]"

text \<open>The modifier keys pressed around a key, in their order.\<close>

definition synthetic_keys :: "limelight \<Rightarrow> u8 \<Rightarrow> u16 list" where
  "synthetic_keys lim m =
    (if m AND lim_modifier_shift lim \<noteq> 0 then [VKEY_SHIFT] else []) @
    (if m AND lim_modifier_ctrl lim \<noteq> 0 then [VKEY_CONTROL] else []) @
    (if m AND lim_modifier_alt lim \<noteq> 0 then [VKEY_MENU] else [])"

definition send_key_and_modifiers ::
    "limelight \<Rightarrow> input_config \<Rightarrow> u16 \<Rightarrow> bool \<Rightarrow> u8 \<Rightarrow> u8 \<Rightarrow> input_state \<Rightarrow> input_state" where
  "send_key_and_modifiers lim cfg key_code release flags synthetic_modifiers s =
    (let synth = (if release then [] else synthetic_keys lim synthetic_modifiers);
         s = fold (\<lambda>k. send (KeyboardUpdate k False flags)) synth s;
         s = send (KeyboardUpdate (map_keycode cfg key_code) release flags) s in
     fold (\<lambda>k. send (KeyboardUpdate k True flags)) synth s)"

definition repeat_key ::
    "limelight \<Rightarrow> input_config \<Rightarrow> input_env \<Rightarrow> u16 \<Rightarrow> u8 \<Rightarrow> u8 \<Rightarrow> input_state \<Rightarrow> input_state" where
  "repeat_key lim cfg env key_code flags synthetic_modifiers s =
    (let k = make_kpid key_code flags; pressed = key_pressed k s; s = set_key_press k pressed s in
     if \<not> pressed then s\<lparr>is_key_press_repeat_id := 0\<rparr>
     else
       let s = send_key_and_modifiers lim cfg key_code False flags synthetic_modifiers s;
           (i, s) = push_delayed env (RepeatKey key_code flags synthetic_modifiers)
                      (cfg_key_repeat_period cfg) s in
       s\<lparr>is_key_press_repeat_id := i\<rparr>)"

definition synthetic_modifiers :: "limelight \<Rightarrow> u32 \<Rightarrow> u8 \<Rightarrow> u8" where
  "synthetic_modifiers lim shortcutFlags modifiers =
    (if shortcutFlags AND SHIFT = 0 \<and> modifiers AND lim_modifier_shift lim \<noteq> 0
     then lim_modifier_shift lim else 0) OR
    (if shortcutFlags AND CTRL = 0 \<and> modifiers AND lim_modifier_ctrl lim \<noteq> 0
     then lim_modifier_ctrl lim else 0) OR
    (if shortcutFlags AND ALT = 0 \<and> modifiers AND lim_modifier_alt lim \<noteq> 0
     then lim_modifier_alt lim else 0)"

definition pass_keyboard ::
    "limelight \<Rightarrow> input_config \<Rightarrow> input_env \<Rightarrow> bool \<Rightarrow> keyboard_packet \<Rightarrow> input_state \<Rightarrow> input_state" where
  "pass_keyboard lim cfg env release p s =
    (if \<not> cfg_keyboard cfg then s
     else
       let keyCode = kb_keyCode p AND 0xFF;
           s = (if keyCode = VKEY_LMENU then s\<lparr>in_left_alt_pressed := \<not> release\<rparr>
                else if keyCode = VKEY_RMENU then s\<lparr>in_right_alt_pressed := \<not> release\<rparr> else s);
           modifiers = (if cfg_key_rightalt_to_key_win cfg \<and> in_right_alt_pressed s \<and>
                           \<not> in_left_alt_pressed s
                        then kb_modifiers p AND NOT (lim_modifier_alt lim) else kb_modifiers p);
           synth = (if \<not> release \<and> \<not> is_modifier keyCode
                    then synthetic_modifiers lim (in_shortcutFlags s) modifiers else 0);
           k = make_kpid keyCode (kb_flags p);
           pressed = key_pressed k s;
           s = set_key_press k pressed s;
           finish = (\<lambda>s. let s = set_key_press k (\<not> release) s;
                            s = send_key_and_modifiers lim cfg keyCode release (kb_flags p) synth s in
                        s\<lparr>in_shortcutFlags :=
                            update_shortcutFlags (in_shortcutFlags s) (map_keycode cfg keyCode) release\<rparr>) in
       if \<not> pressed then
         (if release then s
          else
            let (applied, s') = (if in_shortcutFlags s = SHORTCUT then apply_shortcut keyCode s else (0, s)) in
            if 0 < applied then s'
            else
              let s = (if is_key_press_repeat_id s \<noteq> 0
                       then cancel_task (is_key_press_repeat_id s) s else s);
                  s = (if 0 < cfg_key_repeat_delay cfg
                       then (let (i, s) = push_delayed env (RepeatKey keyCode (kb_flags p) synth)
                                            (cfg_key_repeat_delay cfg) s in
                             s\<lparr>is_key_press_repeat_id := i\<rparr>) else s) in
              finish s)
       else if \<not> release then s
       else finish s)"

section \<open>Reset\<close>

definition input_reset :: "input_env \<Rightarrow> input_state \<Rightarrow> input_state" where
  "input_reset env s =
    (let s = cancel_task (is_key_press_repeat_id s) s;
         s = cancel_task (in_mouse_left_button_timeout s) s in
     push_task env ReleaseAll s)"

text \<open>The task \<open>reset\<close> pushes: release every button and every key that is down.\<close>

definition release_button :: "nat \<Rightarrow> input_state \<Rightarrow> input_state" where
  "release_button x s =
    (if is_mouse_press s ! x
     then (send (ButtonMouse (int x) True) s)\<lparr>is_mouse_press := (is_mouse_press s)[x := False]\<rparr>
     else s)"

definition release_key :: "u32 \<times> bool \<Rightarrow> input_state \<Rightarrow> input_state" where
  "release_key kp s =
    (if \<not> snd kp then s
     else set_key_press (fst kp) False
            (send (KeyboardUpdate (vk_from_kpid (fst kp) AND 0xFF) True (flags_from_kpid (fst kp))) s))"

definition release_all :: "input_state \<Rightarrow> input_state" where
  "release_all s =
    (let s = fold release_button [0..<length (is_mouse_press s)] s in
     fold release_key (is_key_press s) s)"

section \<open>Gamepads\<close>

definition alloc_id :: "bool list \<Rightarrow> int \<times> bool list" where
  "alloc_id taken =
    (case find_index Not taken of
       Some x \<Rightarrow> (int x, taken[x := True])
     | None \<Rightarrow> (- 1, taken))"

definition free_id :: "bool list \<Rightarrow> int \<Rightarrow> bool list" where
  "free_id taken i = taken[nat i := False]"

definition free_gamepad :: "int \<Rightarrow> input_state \<Rightarrow> input_state" where
  "free_gamepad i s =
    (let s = send (GamepadUpdate i gamepad_state_new) s;
         s = send (FreeGamepad i) s in
     s\<lparr>is_gamepadMask := free_id (is_gamepadMask s) i\<rparr>)"

text \<open>The destructor of \<open>gamepad_t\<close>.\<close>

definition gamepad_destroy :: "input_env \<Rightarrow> gamepad_t \<Rightarrow> input_state \<Rightarrow> input_state" where
  "gamepad_destroy env g s = (if 0 \<le> gp_id g then push_task env (FreeGamepadTask (gp_id g)) s else s)"

definition set_gamepad :: "nat \<Rightarrow> gamepad_t \<Rightarrow> input_state \<Rightarrow> input_state" where
  "set_gamepad c g s = s\<lparr>in_gamepads := (in_gamepads s)[c := g]\<rparr>"

text \<open>Allocate an id and the platform's device for controller \<open>c\<close>; \<open>Inr\<close> the id.\<close>

definition open_gamepad ::
    "input_env \<Rightarrow> u16 \<Rightarrow> gamepad_arrival_t \<Rightarrow> input_state \<Rightarrow> int option \<times> input_state" where
  "open_gamepad env c arrival s =
    (let (i, taken) = alloc_id (is_gamepadMask s) in
     if i < 0 then (None, s\<lparr>is_gamepadMask := taken\<rparr>)
     else
       let s = send (AllocGamepad i c arrival) (s\<lparr>is_gamepadMask := taken\<rparr>) in
       if en_alloc_rc env \<noteq> 0 then (None, s\<lparr>is_gamepadMask := free_id taken i\<rparr>)
       else (Some i, s))"

definition pass_controller_arrival ::
    "input_config \<Rightarrow> input_env \<Rightarrow> controller_arrival_packet \<Rightarrow> input_state \<Rightarrow> input_state" where
  "pass_controller_arrival cfg env p s =
    (let c = unat (ca_controllerNumber p) in
     if \<not> cfg_controller cfg then s
     else if length (in_gamepads s) \<le> c then s
     else if 0 \<le> gp_id (in_gamepads s ! c) then s
     else
       (case open_gamepad env (ucast (ca_controllerNumber p))
               \<lparr>ga_type = ca_type p, ga_capabilities = ca_capabilities p,
                ga_supportedButtons = ca_supportedButtonFlags p\<rparr> s of
          (None, s) \<Rightarrow> s
        | (Some i, s) \<Rightarrow> set_gamepad c ((in_gamepads s ! c)\<lparr>gp_id := i\<rparr>) s))"

definition pass_controller_motion ::
    "input_config \<Rightarrow> controller_motion_packet \<Rightarrow> input_state \<Rightarrow> input_state" where
  "pass_controller_motion cfg p s =
    (let c = unat (cm_controllerNumber p) in
     if \<not> cfg_controller cfg then s
     else if length (in_gamepads s) \<le> c then s
     else if gp_id (in_gamepads s ! c) < 0 then s
     else send (GamepadMotion (gp_id (in_gamepads s ! c)) (cm_controllerNumber p) (cm_motionType p)
                  (cm_x p) (cm_y p) (cm_z p)) s)"

definition pass_controller_battery ::
    "input_config \<Rightarrow> controller_battery_packet \<Rightarrow> input_state \<Rightarrow> input_state" where
  "pass_controller_battery cfg p s =
    (let c = unat (cb_controllerNumber p) in
     if \<not> cfg_controller cfg then s
     else if length (in_gamepads s) \<le> c then s
     else if gp_id (in_gamepads s ! c) < 0 then s
     else send (GamepadBattery (gp_id (in_gamepads s ! c)) (cb_controllerNumber p)
                  (cb_batteryState p) (cb_batteryPercentage p)) s)"

text \<open>The final event of a gamepad that is removed.\<close>

definition remove_gamepad :: "nat \<Rightarrow> input_state \<Rightarrow> input_state" where
  "remove_gamepad c s =
    (let g = in_gamepads s ! c;
         s = cancel_task (gp_back_timeout_id g) s;
         s = free_gamepad (gp_id g) s in
     set_gamepad c
       (g\<lparr>gp_home_generation := gp_home_generation g + 1, gp_back_timeout_id := 0,
          gp_home_pressed := False,
          gp_state := (gp_state g)\<lparr>gs_buttonFlags := gs_buttonFlags (gp_state g) AND NOT HOME\<rparr>,
          gp_back_button_state := NONE, gp_id := - 1\<rparr>) s)"

text \<open>The state a packet reports, and the BACK button forced up or down until the client agrees.\<close>

definition packet_state :: "multi_controller_packet \<Rightarrow> gamepad_state_t" where
  "packet_state p =
    \<lparr>gs_buttonFlags = ucast (mc_buttonFlags p) OR push_bit 16 (ucast (mc_buttonFlags2 p)),
     gs_lt = mc_leftTrigger p, gs_rt = mc_rightTrigger p,
     gs_lsX = mc_leftStickX p, gs_lsY = mc_leftStickY p,
     gs_rsX = mc_rightStickX p, gs_rsY = mc_rightStickY p\<rparr>"

definition force_back :: "button_state_e \<Rightarrow> u32 \<Rightarrow> button_state_e \<times> u32" where
  "force_back b flags =
    (case b of
       UP \<Rightarrow> (if BACK AND flags = 0 then NONE else UP, flags AND NOT BACK)
     | DOWN \<Rightarrow> (if BACK AND flags \<noteq> 0 then NONE else DOWN, flags OR BACK)
     | NONE \<Rightarrow> (NONE, flags))"

text \<open>The timers of the HOME emulation, on an edge of the BACK button of controller \<open>c\<close>.\<close>

definition back_edge ::
    "input_config \<Rightarrow> input_env \<Rightarrow> nat \<Rightarrow> u32 \<Rightarrow> u32 \<Rightarrow> gamepad_t \<Rightarrow> input_state \<Rightarrow> gamepad_t \<times> input_state"
where
  "back_edge cfg env c bf bf_new g s =
    (if BACK AND bf = 0 then (g, s)
     else if BACK AND bf_new \<noteq> 0 then
       (if 0 \<le> cfg_back_button_timeout cfg then
          (let generation = gp_home_generation g + 1;
               (i, s) = push_delayed env (HomePress c generation) (cfg_back_button_timeout cfg) s in
           (g\<lparr>gp_home_generation := generation, gp_back_timeout_id := i\<rparr>, s))
        else (g, s))
     else if gp_back_timeout_id g \<noteq> 0 \<and> \<not> gp_home_pressed g then
       (g\<lparr>gp_home_generation := gp_home_generation g + 1, gp_back_timeout_id := 0\<rparr>,
        cancel_task (gp_back_timeout_id g) s)
     else (g, s))"

definition update_gamepad ::
    "input_config \<Rightarrow> input_env \<Rightarrow> nat \<Rightarrow> multi_controller_packet \<Rightarrow> input_state \<Rightarrow> input_state" where
  "update_gamepad cfg env c p s =
    (let g = in_gamepads s ! c;
         st = packet_state p;
         (back, flags) = force_back (gp_back_button_state g) (gs_buttonFlags st);
         g = g\<lparr>gp_back_button_state := back\<rparr>;
         bf = ucast (ucast (flags XOR gs_buttonFlags (gp_state g)) :: u16) :: u32;
         (g, s) = back_edge cfg env c bf flags g s;
         flags = (if gp_home_pressed g then flags OR HOME else flags);
         st = st\<lparr>gs_buttonFlags := flags\<rparr>;
         s = send (GamepadUpdate (gp_id g) st) s in
     set_gamepad c (g\<lparr>gp_state := st\<rparr>) s)"

definition no_arrival :: gamepad_arrival_t where
  "no_arrival = \<lparr>ga_type = 0, ga_capabilities = 0, ga_supportedButtons = 0\<rparr>"

definition pass_multi_controller ::
    "input_config \<Rightarrow> input_env \<Rightarrow> multi_controller_packet \<Rightarrow> input_state \<Rightarrow> input_state" where
  "pass_multi_controller cfg env p s =
    (let n = sint (mc_controllerNumber p); c = nat n in
     if \<not> cfg_controller cfg then s
     else if n < 0 \<or> int (length (in_gamepads s)) \<le> n then s
     else if bit (mc_activeGamepadMask p) c \<and> gp_id (in_gamepads s ! c) < 0 then
       (case open_gamepad env (mc_controllerNumber p) no_arrival s of
          (None, s) \<Rightarrow> s
        | (Some i, s) \<Rightarrow>
            update_gamepad cfg env c p (set_gamepad c ((in_gamepads s ! c)\<lparr>gp_id := i\<rparr>) s))
     else if \<not> bit (mc_activeGamepadMask p) c \<and> 0 \<le> gp_id (in_gamepads s ! c) then
       remove_gamepad c s
     else if gp_id (in_gamepads s ! c) < 0 then s
     else update_gamepad cfg env c p s)"

text \<open>The delayed actions of the HOME emulation: press HOME, and release it 100 ms later.\<close>

definition home_press :: "input_env \<Rightarrow> nat \<Rightarrow> u64 \<Rightarrow> input_state \<Rightarrow> input_state" where
  "home_press env c generation s =
    (let g = in_gamepads s ! c in
     if gp_home_generation g \<noteq> generation \<or> gp_id g < 0 then s
     else
       let up = (gp_state g)\<lparr>gs_buttonFlags := gs_buttonFlags (gp_state g) AND NOT BACK\<rparr>;
           s = send (GamepadUpdate (gp_id g) up) s;
           home = up\<lparr>gs_buttonFlags := gs_buttonFlags up OR HOME\<rparr>;
           s = send (GamepadUpdate (gp_id g) home) s;
           (i, s) = push_delayed env (HomeRelease c generation) (ms 100) s in
       set_gamepad c (g\<lparr>gp_back_button_state := UP, gp_state := home, gp_home_pressed := True,
                        gp_back_timeout_id := i\<rparr>) s)"

definition home_release :: "nat \<Rightarrow> u64 \<Rightarrow> input_state \<Rightarrow> input_state" where
  "home_release c generation s =
    (let g = in_gamepads s ! c in
     if gp_home_generation g \<noteq> generation \<or> gp_id g < 0 then s
     else
       let st = (gp_state g)\<lparr>gs_buttonFlags := gs_buttonFlags (gp_state g) AND NOT HOME\<rparr>;
           s = send (GamepadUpdate (gp_id g) st) s in
       set_gamepad c (g\<lparr>gp_state := st, gp_home_pressed := False, gp_back_timeout_id := 0\<rparr>) s)"

text \<open>What the worker runs. The task \<open>alloc\<close> pushes nudges the mouse when a client connects.\<close>

fun run_input_task ::
    "limelight \<Rightarrow> input_config \<Rightarrow> input_env \<Rightarrow> input_task \<Rightarrow> input_state \<Rightarrow> input_state" where
  "run_input_task lim cfg env LeftRelease s = left_release lim s"
| "run_input_task lim cfg env (RepeatKey k f m) s = repeat_key lim cfg env k f m s"
| "run_input_task lim cfg env (HomePress c generation) s = home_press env c generation s"
| "run_input_task lim cfg env (HomeRelease c generation) s = home_release c generation s"
| "run_input_task lim cfg env ReleaseAll s = release_all s"
| "run_input_task lim cfg env (FreeGamepadTask i) s = free_gamepad i s"
| "run_input_task lim cfg env WakeMouse s = send (MoveMouse (- 1) (- 1)) (send (MoveMouse 1 1) s)"

definition input_alloc :: "input_env \<Rightarrow> input_state \<Rightarrow> input_state" where
  "input_alloc env s = snd (push_delayed env WakeMouse (ms 100) s)"

section \<open>The gamepads of a session as a state machine\<close>

text \<open>
  The client's gamepad packets and the firing of the earliest due timer. An event whose new task
  would get the address of a task still in the pool, or an address the code uses as a mark, cannot
  happen: the allocator does not hand out memory in use.
\<close>

datatype pad_event =
    PadArrival input_env controller_arrival_packet
  | PadMulti input_env multi_controller_packet
  | PadFire input_env

definition env_ok :: "input_env \<Rightarrow> input_state \<Rightarrow> bool" where
  "env_ok env s \<longleftrightarrow> 1 < en_fresh env \<and> en_fresh env \<notin># pool_pending (is_pool s)"

definition fire :: "limelight \<Rightarrow> input_config \<Rightarrow> input_env \<Rightarrow> input_state \<Rightarrow> input_state" where
  "fire lim cfg env s =
    (case pool_pop (en_now env) (is_pool s) of
       (Some (Some (i, t)), pool) \<Rightarrow> run_input_task lim cfg env t (s\<lparr>is_pool := pool\<rparr>)
     | _ \<Rightarrow> s)"

fun pad_step :: "limelight \<Rightarrow> input_config \<Rightarrow> pad_event \<Rightarrow> input_state \<Rightarrow> input_state" where
  "pad_step lim cfg (PadArrival env p) s = pass_controller_arrival cfg env p s"
| "pad_step lim cfg (PadMulti env p) s =
    (if env_ok env s then pass_multi_controller cfg env p s else s)"
| "pad_step lim cfg (PadFire env) s = (if env_ok env s then fire lim cfg env s else s)"

section \<open>Gamepad ids\<close>

definition allocated :: "input_state \<Rightarrow> int list" where
  "allocated s = filter (\<lambda>i. 0 \<le> i) (map gp_id (in_gamepads s))"

definition taken_ids :: "input_state \<Rightarrow> int set" where
  "taken_ids s = int ` {i. i < length (is_gamepadMask s) \<and> is_gamepadMask s ! i}"

definition slots_inv :: "input_state \<Rightarrow> bool" where
  "slots_inv s \<longleftrightarrow> length (in_gamepads s) = MAX_GAMEPADS \<and>
     distinct (allocated s) \<and> set (allocated s) = taken_ids s"

text \<open>The parts of the state the ids depend on.\<close>

lemma slots_inv_cong:
  assumes "map gp_id (in_gamepads s) = map gp_id (in_gamepads t)"
    and "is_gamepadMask s = is_gamepadMask t"
  shows "slots_inv s \<longleftrightarrow> slots_inv t"
proof -
  have "length (in_gamepads s) = length (in_gamepads t)" using map_eq_imp_length_eq [OF assms(1)] .
  then show ?thesis using assms by (simp add: slots_inv_def allocated_def taken_ids_def)
qed

lemma send_simps [simp]:
  "in_gamepads (send c s) = in_gamepads s" "is_gamepadMask (send c s) = is_gamepadMask s"
  "is_pool (send c s) = is_pool s" "is_host (send c s) = is_host s @ [c]"
  "is_key_press (send c s) = is_key_press s" "is_mouse_press (send c s) = is_mouse_press s"
  by (simp_all add: send_def)

lemma push_delayed_simps [simp]:
  "in_gamepads (snd (push_delayed env t d s)) = in_gamepads s"
  "is_gamepadMask (snd (push_delayed env t d s)) = is_gamepadMask s"
  "is_pool (snd (push_delayed env t d s)) =
    snd (pool_push_delayed (en_now env) (en_fresh env) t d (is_pool s))"
  "fst (push_delayed env t d s) = en_fresh env"
  by (simp_all add: push_delayed_def split_beta) (simp add: pool_push_delayed_def)

lemma cancel_task_simps [simp]:
  "in_gamepads (cancel_task i s) = in_gamepads s"
  "is_gamepadMask (cancel_task i s) = is_gamepadMask s"
  "is_pool (cancel_task i s) = snd (pool_cancel i (is_pool s))"
  by (simp_all add: cancel_task_def)

lemma set_gamepad_simps [simp]:
  "in_gamepads (set_gamepad c g s) = (in_gamepads s)[c := g]"
  "is_gamepadMask (set_gamepad c g s) = is_gamepadMask s"
  "is_pool (set_gamepad c g s) = is_pool s"
  by (simp_all add: set_gamepad_def)

lemma set_gamepad_slots:
  assumes "slots_inv s" and "gp_id g = gp_id (in_gamepads s ! c)"
    and "in_gamepads t = in_gamepads s" and "is_gamepadMask t = is_gamepadMask s"
  shows "slots_inv (set_gamepad c g t)"
proof -
  have "map gp_id ((in_gamepads s)[c := g]) = map gp_id (in_gamepads s)"
    using assms(2)
    by (cases "c < length (in_gamepads s)") (simp_all add: map_update list_update_same_conv list_update_beyond)
  then show ?thesis using slots_inv_cong [of "set_gamepad c g t" s] assms by simp
qed

text \<open>Changing one entry of a list of ids.\<close>

lemma ids_gain:
  assumes "c < length ids" and "ids ! c < (0::int)" and "0 \<le> i" and "i \<notin> set ids"
    and "distinct (filter (\<lambda>i. 0 \<le> i) ids)"
  shows "distinct (filter (\<lambda>i. 0 \<le> i) (ids[c := i])) \<and>
    set (filter (\<lambda>i. 0 \<le> i) (ids[c := i])) = insert i (set (filter (\<lambda>i. 0 \<le> i) ids))"
  using assms
proof (induction ids arbitrary: c)
  case (Cons x ids)
  then show ?case
  proof (cases c)
    case (Suc k)
    then show ?thesis using Cons.IH [of k] Cons.prems by auto
  qed auto
qed simp

lemma ids_lose:
  assumes "c < length ids" and "0 \<le> (ids ! c :: int)"
    and "distinct (filter (\<lambda>i. 0 \<le> i) ids)"
  shows "distinct (filter (\<lambda>i. 0 \<le> i) (ids[c := - 1])) \<and>
    set (filter (\<lambda>i. 0 \<le> i) (ids[c := - 1])) = set (filter (\<lambda>i. 0 \<le> i) ids) - {ids ! c}"
  using assms
proof (induction ids arbitrary: c)
  case (Cons x ids)
  then show ?case
  proof (cases c)
    case (Suc k)
    then show ?thesis using Cons.IH [of k] Cons.prems by auto
  qed auto
qed simp

lemma alloc_id_free:
  assumes "alloc_id taken = (i, taken')" and "0 \<le> i"
  shows "nat i < length taken \<and> \<not> taken ! nat i \<and> taken' = taken[nat i := True]"
  using assms by (auto simp: alloc_id_def find_index_Some split: option.splits)

lemma mem_taken_ids:
  "i \<in> taken_ids s \<longleftrightarrow> 0 \<le> i \<and> nat i < length (is_gamepadMask s) \<and> is_gamepadMask s ! nat i"
  by (auto simp: taken_ids_def intro!: image_eqI [of _ int "nat i"])

lemma taken_ids_gain:
  assumes "0 \<le> i" and "nat i < length (is_gamepadMask s)"
    and "is_gamepadMask t = (is_gamepadMask s)[nat i := True]"
  shows "taken_ids t = insert i (taken_ids s)"
  using assms by (auto simp: mem_taken_ids nth_list_update split: if_splits)

lemma nth_list_update':
  "xs[i := x] ! j = (if i = j \<and> j < length xs then x else xs ! j)"
  by (cases "i < length xs") (auto simp: nth_list_update list_update_beyond)

lemma taken_ids_lose:
  assumes "0 \<le> i" and "is_gamepadMask t = (is_gamepadMask s)[nat i := False]"
  shows "taken_ids t = taken_ids s - {i}"
proof (rule set_eqI)
  fix x
  have "x = i \<longleftrightarrow> nat i = nat x" if "0 \<le> x" using assms(1) that by auto
  then show "x \<in> taken_ids t \<longleftrightarrow> x \<in> taken_ids s - {i}"
    unfolding Diff_iff singleton_iff mem_taken_ids assms(2) nth_list_update' length_list_update
    by (cases "0 \<le> x") auto
qed

lemma open_gamepad_none:
  assumes "open_gamepad env c a s = (None, t)" and "slots_inv s"
  shows "slots_inv t"
proof -
  obtain i taken where al: "alloc_id (is_gamepadMask s) = (i, taken)" by fastforce
  have "is_gamepadMask t = is_gamepadMask s \<and> in_gamepads t = in_gamepads s"
  proof (cases "i < 0")
    case True
    then show ?thesis
      using assms(1) al by (auto simp: open_gamepad_def alloc_id_def split: option.splits)
  next
    case False
    then show ?thesis
      using assms(1) al alloc_id_free [OF al]
      by (auto simp: open_gamepad_def free_id_def Let_def nth_list_update' list_update_same_conv
          split: if_splits)
  qed
  then show ?thesis using slots_inv_cong [of t s] assms(2) by simp
qed

lemma open_gamepad_some:
  assumes "open_gamepad env c a s = (Some i, t)" and "slots_inv s"
    and "k < length (in_gamepads s)" and "gp_id (in_gamepads s ! k) < 0"
  shows "in_gamepads t = in_gamepads s \<and> is_pool t = is_pool s \<and> 0 \<le> i \<and>
    slots_inv (set_gamepad k ((in_gamepads t ! k)\<lparr>gp_id := i\<rparr>) t)"
proof -
  obtain j taken where al: "alloc_id (is_gamepadMask s) = (j, taken)" by fastforce
  have o: "0 \<le> i" "j = i" "in_gamepads t = in_gamepads s" "is_gamepadMask t = taken"
      "is_pool t = is_pool s"
    using assms(1) al by (auto simp: open_gamepad_def Let_def split: if_splits)
  then have f: "nat i < length (is_gamepadMask s)" "\<not> is_gamepadMask s ! nat i"
      "is_gamepadMask t = (is_gamepadMask s)[nat i := True]"
    using alloc_id_free [OF al] by auto
  let ?ids = "map gp_id (in_gamepads s)"
  have "i \<notin> taken_ids s" using f(2) by (simp add: mem_taken_ids)
  then have "i \<notin> set ?ids"
    using assms(2) o(1) by (auto simp: slots_inv_def allocated_def)
  then have g: "distinct (filter (\<lambda>i. 0 \<le> i) (?ids[k := i]))"
      "set (filter (\<lambda>i. 0 \<le> i) (?ids[k := i])) = insert i (set (filter (\<lambda>i. 0 \<le> i) ?ids))"
    using ids_gain [of k ?ids i] assms(2-4) o(1) by (simp_all add: slots_inv_def allocated_def)
  have "taken_ids t = insert i (taken_ids s)" by (rule taken_ids_gain [OF o(1) f(1) f(3)])
  then show ?thesis
    using g assms(2) o
    by (simp add: slots_inv_def allocated_def map_update taken_ids_def)
qed

lemmas open_gamepad_slots = open_gamepad_some [THEN conjunct2, THEN conjunct2, THEN conjunct2]

lemma remove_gamepad_slots:
  assumes "slots_inv s" and "c < length (in_gamepads s)" and "0 \<le> gp_id (in_gamepads s ! c)"
  shows "slots_inv (remove_gamepad c s)"
proof -
  let ?ids = "map gp_id (in_gamepads s)" and ?t = "remove_gamepad c s"
  have t: "map gp_id (in_gamepads ?t) = ?ids[c := - 1]"
      "is_gamepadMask ?t = (is_gamepadMask s)[nat (?ids ! c) := False]"
    using assms(2)
    by (simp_all add: remove_gamepad_def free_gamepad_def Let_def map_update free_id_def)
  have "taken_ids ?t = taken_ids s - {?ids ! c}"
    using taken_ids_lose [OF _ t(2)] assms(2,3) by simp
  moreover have "length (in_gamepads ?t) = length (in_gamepads s)"
    using map_eq_imp_length_eq [of gp_id "in_gamepads ?t" id] t(1) by (metis length_list_update length_map)
  ultimately show ?thesis
    using ids_lose [of c ?ids] assms t(1) by (simp add: slots_inv_def allocated_def)
qed

lemma back_edge_simps:
  assumes "back_edge cfg env c bf bf_new g s = (g', s')"
  shows "gp_id g' = gp_id g \<and> in_gamepads s' = in_gamepads s \<and> is_gamepadMask s' = is_gamepadMask s"
  using assms by (auto simp: back_edge_def Let_def split_beta split: if_splits)

lemma update_gamepad_slots:
  assumes "slots_inv s"
  shows "slots_inv (update_gamepad cfg env c p s)"
  unfolding update_gamepad_def Let_def
  by (auto split: prod.splits dest!: back_edge_simps intro!: set_gamepad_slots [OF assms])

lemma pass_multi_controller_slots [inv_intros]:
  assumes "slots_inv s"
  shows "slots_inv (pass_multi_controller cfg env p s)"
  unfolding pass_multi_controller_def Let_def
  using assms
  by (auto split: prod.splits option.splits dest: open_gamepad_none
      intro!: update_gamepad_slots remove_gamepad_slots intro: open_gamepad_slots)

lemma pass_controller_arrival_slots [inv_intros]:
  assumes "slots_inv s"
  shows "slots_inv (pass_controller_arrival cfg env p s)"
  unfolding pass_controller_arrival_def Let_def
  using assms
  by (auto split: prod.splits option.splits dest: open_gamepad_none intro: open_gamepad_slots)

lemma home_press_slots [inv_intros]: "slots_inv s \<Longrightarrow> slots_inv (home_press env c generation s)"
  unfolding home_press_def Let_def split_beta by (auto intro!: set_gamepad_slots)

lemma home_release_slots [inv_intros]: "slots_inv s \<Longrightarrow> slots_inv (home_release c generation s)"
  unfolding home_release_def Let_def by (auto intro!: set_gamepad_slots)

section \<open>The timers of the HOME emulation\<close>

text \<open>
  The invariant: a gamepad that remembers a timer is open and that timer is in the pool with the
  gamepad's current token; and while HOME is held by the emulation there is such a timer, so HOME
  is always released by a timer to come. \<open>home_task c t\<close>: the task belongs to controller c.
\<close>

definition home_task :: "nat \<Rightarrow> input_task \<Rightarrow> bool" where
  "home_task c t = (case t of HomePress k _ \<Rightarrow> k = c | HomeRelease k _ \<Rightarrow> k = c | _ \<Rightarrow> False)"

definition pad_ok :: "input_task task_pool \<Rightarrow> nat \<Rightarrow> gamepad_t \<Rightarrow> bool" where
  "pad_ok p c g \<longleftrightarrow>
     (gp_home_pressed g \<longrightarrow> gp_back_timeout_id g \<noteq> 0) \<and>
     (gp_back_timeout_id g \<noteq> 0 \<longrightarrow> 0 \<le> gp_id g \<and>
        (timer_at p (gp_back_timeout_id g) (HomePress c (gp_home_generation g)) \<or>
         timer_at p (gp_back_timeout_id g) (HomeRelease c (gp_home_generation g))))"

definition timers_inv :: "input_state \<Rightarrow> bool" where
  "timers_inv s \<longleftrightarrow> pool_wf (is_pool s) \<and>
     (\<forall>i t. timer_at (is_pool s) i t \<longrightarrow> (\<exists>c < length (in_gamepads s). home_task c t)) \<and>
     (\<forall>c < length (in_gamepads s). pad_ok (is_pool s) c (in_gamepads s ! c))"

text \<open>A pool that kept the timers of every controller but \<open>c\<close>.\<close>

definition keeps_others :: "nat \<Rightarrow> input_task task_pool \<Rightarrow> input_task task_pool \<Rightarrow> bool" where
  "keeps_others c p p' \<longleftrightarrow> pool_wf p' \<and>
     (\<forall>i t. timer_at p' i t \<longrightarrow> timer_at p i t \<or> home_task c t) \<and>
     (\<forall>i t k. home_task k t \<and> k \<noteq> c \<and> timer_at p i t \<longrightarrow> timer_at p' i t)"

lemma keeps_refl: "pool_wf p \<Longrightarrow> keeps_others c p p"
  by (simp add: keeps_others_def)

lemma keeps_trans: "keeps_others c p q \<Longrightarrow> keeps_others c q r \<Longrightarrow> keeps_others c p r"
  unfolding keeps_others_def by blast

lemma keeps_push:
  "pool_wf p \<Longrightarrow> 1 < i \<Longrightarrow> i \<notin># pool_pending p \<Longrightarrow> home_task c t \<Longrightarrow>
   keeps_others c p (snd (pool_push_delayed now i t d p))"
  by (auto simp: keeps_others_def timer_at_push pool_wf_push)

lemma home_task_unique: "home_task c t \<Longrightarrow> home_task k t \<Longrightarrow> k = c"
  by (auto simp: home_task_def split: input_task.splits)

lemma keeps_cancel:
  assumes "pool_wf p" and "i = 0 \<or> (timer_at p i t \<and> home_task c t)"
  shows "keeps_others c p (snd (pool_cancel i p))"
proof -
  have "j \<noteq> i" if "timer_at p j u" "home_task k u" "k \<noteq> c" for j u k
    using assms that timer_at_id [OF assms(1) that(1)] timer_at_unique [OF assms(1), of i t u]
      home_task_unique [of c t k] by auto
  then show ?thesis
    by (auto simp: keeps_others_def pool_wf_cancel [OF assms(1)] timer_at_cancel [OF assms(1)])
qed

lemma keeps_pop:
  assumes "pool_wf p" and "pool_pop now p = (Some (Some (i, t)), p')" and "home_task c t"
  shows "keeps_others c p p'"
proof -
  have at: "timer_at p i t" "pool_wf p'" "\<And>j v. timer_at p' j v \<longleftrightarrow> timer_at p j v \<and> j \<noteq> i"
    using pool_pop_wf [OF assms(1,2)] by auto
  have "j \<noteq> i" if "timer_at p j u" "home_task k u" "k \<noteq> c" for j u k
    using that at(1) timer_at_unique [OF assms(1), of i t u] home_task_unique [OF assms(3), of k]
    by auto
  then show ?thesis using at by (auto simp: keeps_others_def)
qed

lemma pad_ok_keeps:
  "keeps_others c p p' \<Longrightarrow> k \<noteq> c \<Longrightarrow> pad_ok p k g \<Longrightarrow> pad_ok p' k g"
  by (auto simp: pad_ok_def keeps_others_def home_task_def)

lemma timers_inv_update:
  assumes "timers_inv s" and "keeps_others c (is_pool s) (is_pool t)"
    and "in_gamepads t = (in_gamepads s)[c := g]" and "pad_ok (is_pool t) c g"
    and "c < length (in_gamepads s)"
  shows "timers_inv t"
proof -
  have "pad_ok (is_pool t) k (in_gamepads t ! k)" if "k < length (in_gamepads t)" for k
    using that assms pad_ok_keeps [OF assms(2)]
    by (cases "k = c") (simp_all add: timers_inv_def nth_list_update')
  moreover have "\<exists>k < length (in_gamepads s). home_task k u" if "timer_at (is_pool t) i u" for i u
    using that assms(1,2,5) unfolding timers_inv_def keeps_others_def by blast
  ultimately show ?thesis using assms(2,3) by (simp add: timers_inv_def keeps_others_def)
qed

lemma pad_ok_back_id:
  "pad_ok p c g \<Longrightarrow> gp_back_timeout_id g = 0 \<or>
   (\<exists>t. timer_at p (gp_back_timeout_id g) t \<and> home_task c t)"
  by (auto simp: pad_ok_def home_task_def)

lemma back_edge_keeps:
  assumes "pool_wf (is_pool s)" and "env_ok env s" and "pad_ok (is_pool s) c g" and "0 \<le> gp_id g"
    and "back_edge cfg env c bf bf_new g s = (g', s')"
  shows "keeps_others c (is_pool s) (is_pool s') \<and> pad_ok (is_pool s') c g'"
proof -
  have push: "keeps_others c (is_pool s) (snd (pool_push_delayed now (en_fresh env) t d (is_pool s)))"
    if "home_task c t" for now t d
    using keeps_push [OF assms(1) _ _ that] assms(2) by (simp add: env_ok_def)
  have fresh: "0 < en_fresh env" using assms(2) by (simp add: env_ok_def)
  have cancel: "keeps_others c (is_pool s) (snd (pool_cancel (gp_back_timeout_id g) (is_pool s)))"
    using keeps_cancel [OF assms(1)] pad_ok_back_id [OF assms(3)] by blast
  show ?thesis
    using assms push cancel fresh keeps_refl [OF assms(1), of c]
    by (auto simp: back_edge_def Let_def split_beta pad_ok_def timer_at_push home_task_def
        split: if_splits)
qed

lemma update_gamepad_timers:
  assumes "timers_inv s" and "env_ok env s" and "c < length (in_gamepads s)"
    and "0 \<le> gp_id (in_gamepads s ! c)"
  shows "timers_inv (update_gamepad cfg env c p s)"
proof -
  define g where "g = in_gamepads s ! c"
  obtain bk flags where fb: "force_back (gp_back_button_state g) (gs_buttonFlags (packet_state p)) =
    (bk, flags)" by fastforce
  define g1 where "g1 = g\<lparr>gp_back_button_state := bk\<rparr>"
  define bf where "bf = (ucast (ucast (flags XOR gs_buttonFlags (gp_state g1)) :: u16) :: u32)"
  obtain g' s' where be: "back_edge cfg env c bf flags g1 s = (g', s')" by fastforce
  have "pad_ok (is_pool s) c g" using assms(1,3) by (simp add: timers_inv_def g_def)
  then have g1: "pad_ok (is_pool s) c g1" by (simp add: pad_ok_def g1_def)
  have k: "keeps_others c (is_pool s) (is_pool s')" "pad_ok (is_pool s') c g'"
    using back_edge_keeps [OF _ assms(2) g1 _ be] assms(1,4) by (simp_all add: timers_inv_def g1_def g_def)
  have "in_gamepads s' = in_gamepads s" using back_edge_simps [OF be] by simp
  then have upd: "\<exists>st. in_gamepads (update_gamepad cfg env c p s) =
      (in_gamepads s)[c := g'\<lparr>gp_state := st\<rparr>] \<and> is_pool (update_gamepad cfg env c p s) = is_pool s'"
    using fb be unfolding update_gamepad_def Let_def g1_def bf_def g_def by auto
  then obtain st where st: "in_gamepads (update_gamepad cfg env c p s) =
      (in_gamepads s)[c := g'\<lparr>gp_state := st\<rparr>]" "is_pool (update_gamepad cfg env c p s) = is_pool s'"
    by blast
  show ?thesis
    using timers_inv_update [OF assms(1) _ st(1) _ assms(3)] k by (simp add: st(2) pad_ok_def)
qed

lemma remove_gamepad_timers:
  assumes "timers_inv s" and "c < length (in_gamepads s)"
  shows "timers_inv (remove_gamepad c s)"
proof -
  let ?g = "in_gamepads s ! c"
  have ok: "pool_wf (is_pool s)" "pad_ok (is_pool s) c ?g" using assms by (auto simp: timers_inv_def)
  have "keeps_others c (is_pool s) (snd (pool_cancel (gp_back_timeout_id ?g) (is_pool s)))"
    using keeps_cancel [OF ok(1)] pad_ok_back_id [OF ok(2)] by blast
  then show ?thesis
    by (intro timers_inv_update [OF assms(1), of c])
      (use assms(2) in \<open>auto simp: remove_gamepad_def free_gamepad_def Let_def pad_ok_def\<close>)
qed

definition pad_inv :: "input_state \<Rightarrow> bool" where
  "pad_inv s \<longleftrightarrow> slots_inv s \<and> timers_inv s"

lemma timers_inv_same:
  assumes "timers_inv s" and "in_gamepads t = in_gamepads s" and "is_pool t = is_pool s"
  shows "timers_inv t"
  using assms by (simp add: timers_inv_def)

lemma open_gamepad_pool:
  "in_gamepads (snd (open_gamepad env c a s)) = in_gamepads s \<and>
   is_pool (snd (open_gamepad env c a s)) = is_pool s"
  by (simp add: open_gamepad_def Let_def split_beta)

lemma pad_ok_open: "pad_ok p c g \<Longrightarrow> gp_id g < 0 \<Longrightarrow> pad_ok p c (g\<lparr>gp_id := i\<rparr>)"
  by (auto simp: pad_ok_def)

lemma open_gamepad_timers:
  assumes "timers_inv s" and "open_gamepad env n a s = (r, t)"
  shows "timers_inv t \<and> in_gamepads t = in_gamepads s \<and> is_pool t = is_pool s"
  using open_gamepad_pool [of env n a s] assms timers_inv_same by simp

lemma set_id_timers:
  assumes "timers_inv t" and "k < length (in_gamepads t)" and "gp_id (in_gamepads t ! k) < 0"
  shows "timers_inv (set_gamepad k ((in_gamepads t ! k)\<lparr>gp_id := i\<rparr>) t)"
proof (rule timers_inv_update [OF assms(1), of k])
  show "pad_ok (is_pool (set_gamepad k ((in_gamepads t ! k)\<lparr>gp_id := i\<rparr>) t)) k
      ((in_gamepads t ! k)\<lparr>gp_id := i\<rparr>)"
    using assms pad_ok_open by (simp add: timers_inv_def)
qed (use assms in \<open>simp_all add: keeps_refl timers_inv_def\<close>)

lemma pass_multi_controller_timers:
  assumes "timers_inv s" and "env_ok env s"
  shows "timers_inv (pass_multi_controller cfg env p s)"
proof -
  define c where "c = nat (sint (mc_controllerNumber p))"
  have opened: "timers_inv (update_gamepad cfg env c p (set_gamepad c ((in_gamepads t ! c)\<lparr>gp_id := i\<rparr>) t))"
    if "open_gamepad env (mc_controllerNumber p) no_arrival s = (Some i, t)"
      "c < length (in_gamepads s)" "gp_id (in_gamepads s ! c) < 0" for i t
  proof -
    have t: "timers_inv t" "in_gamepads t = in_gamepads s" "is_pool t = is_pool s"
      using open_gamepad_timers [OF assms(1) that(1)] by auto
    have "0 \<le> i"
      using that(1) by (auto simp: open_gamepad_def Let_def split_beta split: if_splits)
    have "timers_inv (set_gamepad c ((in_gamepads t ! c)\<lparr>gp_id := i\<rparr>) t)"
      using t that(2,3) by (intro set_id_timers) auto
    then show ?thesis
      using t that(2) assms(2) \<open>0 \<le> i\<close> by (intro update_gamepad_timers) (auto simp: env_ok_def)
  qed
  show ?thesis
  proof (cases "cfg_controller cfg \<and> 0 \<le> sint (mc_controllerNumber p) \<and> c < length (in_gamepads s)")
    case True
    then have go: "pass_multi_controller cfg env p s =
      (if bit (mc_activeGamepadMask p) c \<and> gp_id (in_gamepads s ! c) < 0 then
         (case open_gamepad env (mc_controllerNumber p) no_arrival s of
            (None, s) \<Rightarrow> s
          | (Some i, s) \<Rightarrow>
              update_gamepad cfg env c p (set_gamepad c ((in_gamepads s ! c)\<lparr>gp_id := i\<rparr>) s))
       else if \<not> bit (mc_activeGamepadMask p) c \<and> 0 \<le> gp_id (in_gamepads s ! c) then
         remove_gamepad c s
       else if gp_id (in_gamepads s ! c) < 0 then s
       else update_gamepad cfg env c p s)"
      unfolding pass_multi_controller_def Let_def c_def by auto
    show ?thesis
    proof (cases "gp_id (in_gamepads s ! c) < 0")
      case neg: True
      then show ?thesis
        unfolding go
        using assms True opened
        by (auto split: prod.split option.split dest: open_gamepad_timers)
    next
      case False
      then show ?thesis
        unfolding go
        using assms True remove_gamepad_timers update_gamepad_timers [OF assms] by auto
    qed
  next
    case False
    then have "pass_multi_controller cfg env p s = s"
      unfolding pass_multi_controller_def Let_def c_def by auto
    then show ?thesis using assms(1) by simp
  qed
qed

lemma pass_controller_arrival_timers:
  assumes "timers_inv s"
  shows "timers_inv (pass_controller_arrival cfg env p s)"
proof -
  have "timers_inv (set_gamepad c ((in_gamepads t ! c)\<lparr>gp_id := i\<rparr>) t)"
    if "open_gamepad env n a s = (Some i, t)" "c < length (in_gamepads s)"
      "gp_id (in_gamepads s ! c) < 0" for n a c i t
    using open_gamepad_timers [OF assms that(1)] set_id_timers [of t c i] that(2,3) by simp
  then show ?thesis
    unfolding pass_controller_arrival_def Let_def
    using assms by (auto split: prod.splits option.splits dest: open_gamepad_timers)
qed

lemma home_press_timers:
  assumes "timers_inv s" and "keeps_others c (is_pool s) (is_pool t)"
    and "in_gamepads t = in_gamepads s" and "env_ok env t" and "c < length (in_gamepads s)"
    and "gp_home_generation (in_gamepads s ! c) = generation" and "0 \<le> gp_id (in_gamepads s ! c)"
  shows "timers_inv (home_press env c generation t)"
proof -
  have k: "keeps_others c (is_pool t)
      (snd (pool_push_delayed (en_now env) (en_fresh env) (HomeRelease c generation) (ms 100) (is_pool t)))"
    using keeps_push [of "is_pool t" "en_fresh env" c "HomeRelease c generation"] assms(2,4)
    by (simp add: env_ok_def keeps_others_def home_task_def)
  have fresh: "0 < en_fresh env" using assms(4) by (simp add: env_ok_def)
  show ?thesis
    by (rule timers_inv_update [OF assms(1), of c])
      (use assms(3,5,6,7) fresh keeps_trans [OF assms(2) k]
        in \<open>auto simp: home_press_def Let_def split_beta pad_ok_def timer_at_push\<close>)
qed

lemma home_release_timers:
  assumes "timers_inv s" and "keeps_others c (is_pool s) (is_pool t)"
    and "in_gamepads t = in_gamepads s" and "c < length (in_gamepads s)"
    and "gp_home_generation (in_gamepads s ! c) = generation" and "0 \<le> gp_id (in_gamepads s ! c)"
  shows "timers_inv (home_release c generation t)"
  by (rule timers_inv_update [OF assms(1), of c])
    (use assms in \<open>auto simp: home_release_def Let_def pad_ok_def\<close>)

lemma pending_timer_at: "pool_wf p \<Longrightarrow> i \<in># pool_pending p \<longleftrightarrow> (\<exists>t. timer_at p i t)"
  by (force simp: pool_wf_def pool_pending_def timer_at_def task_addr_def)

lemma fire_inv:
  assumes "pad_inv s" and "env_ok env s"
  shows "pad_inv (fire lim cfg env s)"
proof (cases "\<exists>i t p'. pool_pop (en_now env) (is_pool s) = (Some (Some (i, t)), p')")
  case True
  then obtain i t p' where pop: "pool_pop (en_now env) (is_pool s) = (Some (Some (i, t)), p')"
    by blast
  let ?t = "s\<lparr>is_pool := p'\<rparr>"
  have tim: "timers_inv s" and slots: "slots_inv s" using assms(1) by (auto simp: pad_inv_def)
  then have wf: "pool_wf (is_pool s)" by (simp add: timers_inv_def)
  have at: "timer_at (is_pool s) i t" "pool_wf p'"
      "\<And>j v. timer_at p' j v \<longleftrightarrow> timer_at (is_pool s) j v \<and> j \<noteq> i"
    using pool_pop_wf [OF wf pop] by auto
  obtain c where c: "home_task c t" and cl: "c < length (in_gamepads s)"
    using tim at(1) unfolding timers_inv_def by blast
  have keep: "keeps_others c (is_pool s) p'" by (rule keeps_pop [OF wf pop c])
  have env: "env_ok env ?t"
    using assms(2) at pending_timer_at [OF wf] pending_timer_at [OF at(2)] by (auto simp: env_ok_def)
  have slots': "slots_inv ?t" using slots slots_inv_cong [of ?t s] by simp
  let ?g = "in_gamepads s ! c"
  have stale: "timers_inv ?t"
    if st: "\<not> (c < length (in_gamepads s) \<and> 0 \<le> gp_id ?g \<and>
            (t = HomePress c (gp_home_generation ?g) \<or> t = HomeRelease c (gp_home_generation ?g)))"
  proof -
    have "pad_ok p' k (in_gamepads s ! k)" if k: "k < length (in_gamepads s)" for k
    proof (cases "k = c")
      case False
      then show ?thesis using k tim pad_ok_keeps [OF keep False] by (simp add: timers_inv_def)
    next
      case True
      have "pad_ok (is_pool s) c ?g" using k True tim by (simp add: timers_inv_def)
      moreover from this have "i \<noteq> gp_back_timeout_id ?g \<or> gp_back_timeout_id ?g = 0"
        using st cl timer_at_unique [OF wf at(1)] by (force simp: pad_ok_def)
      ultimately show ?thesis using True at(3) by (auto simp: pad_ok_def)
    qed
    then show ?thesis using tim at by (auto simp: timers_inv_def)
  qed
  have len: "length (in_gamepads s) = MAX_GAMEPADS" using slots by (simp add: slots_inv_def)
  show ?thesis
  proof (cases "c < length (in_gamepads s) \<and> 0 \<le> gp_id ?g \<and>
            (t = HomePress c (gp_home_generation ?g) \<or> t = HomeRelease c (gp_home_generation ?g))")
    case True
    then show ?thesis
      using pop home_press_timers [OF tim _ _ env, of c "gp_home_generation ?g"]
        home_release_timers [OF tim, of c ?t "gp_home_generation ?g"] keep
        home_press_slots [OF slots', of env c] home_release_slots [OF slots', of c]
      by (auto simp: fire_def pad_inv_def)
  next
    case False
    then have "timers_inv (run_input_task lim cfg env t ?t) \<and> slots_inv (run_input_task lim cfg env t ?t)"
      using stale slots' c cl home_press_slots [OF slots', of env] home_release_slots [OF slots']
      by (auto simp: home_task_def home_press_def home_release_def Let_def split: input_task.splits)
    then show ?thesis using pop by (simp add: fire_def pad_inv_def)
  qed
next
  case False
  then have "fire lim cfg env s = s"
    by (auto simp: fire_def split: prod.split option.split)
  then show ?thesis using assms(1) by simp
qed

lemma pad_step_inv:
  assumes "pad_inv s"
  shows "pad_inv (pad_step lim cfg ev s)"
proof (cases ev)
  case (PadArrival env p)
  then show ?thesis
    using assms pass_controller_arrival_slots pass_controller_arrival_timers
    by (simp add: pad_inv_def)
next
  case (PadMulti env p)
  then show ?thesis
    using assms pass_multi_controller_slots pass_multi_controller_timers
    by (simp add: pad_inv_def)
next
  case (PadFire env)
  then show ?thesis using assms fire_inv by simp
qed

lemma pad_steps_inv: "pad_inv s \<Longrightarrow> pad_inv (fold (pad_step lim cfg) evs s)"
proof (induction evs arbitrary: s)
  case (Cons ev evs)
  then show ?case using pad_step_inv by simp
qed simp

lemma input_new_inv: "pad_inv input_new"
proof -
  have "allocated input_new = []" by (simp add: allocated_def input_new_def gamepad_new_def)
  moreover have "taken_ids input_new = {}" by (auto simp: taken_ids_def input_new_def)
  ultimately have "slots_inv input_new" by (simp add: slots_inv_def input_new_def)
  moreover have "timers_inv input_new"
    by (simp add: timers_inv_def input_new_def pool_wf_def pool_new_def timer_at_def pad_ok_def
        gamepad_new_def)
  ultimately show ?thesis by (simp add: pad_inv_def)
qed

definition home_release_pending :: "input_state \<Rightarrow> nat \<Rightarrow> bool" where
  "home_release_pending s c =
    (let g = in_gamepads s ! c in
     list_ex (\<lambda>e. snd e = Some (gp_back_timeout_id g, HomePress c (gp_home_generation g)) \<or>
                  snd e = Some (gp_back_timeout_id g, HomeRelease c (gp_home_generation g)))
       (tp_timers (is_pool s)))"

definition home_held :: "input_state \<Rightarrow> nat list" where
  "home_held s = filter (\<lambda>c. gp_home_pressed (in_gamepads s ! c)) [0..<length (in_gamepads s)]"

lemma home_held_pending:
  assumes "pad_inv s"
  shows "list_all (home_release_pending s) (home_held s)"
proof -
  have "home_release_pending s c" if "c < length (in_gamepads s)" "gp_home_pressed (in_gamepads s ! c)" for c
  proof -
    have "pad_ok (is_pool s) c (in_gamepads s ! c)" using assms that(1) by (simp add: pad_inv_def timers_inv_def)
    then show ?thesis
      using that(2) by (force simp: pad_ok_def home_release_pending_def timer_at_def list_ex_iff Let_def)
  qed
  then show ?thesis by (auto simp: list_all_iff home_held_def)
qed

section \<open>Scrolling and reset\<close>

definition scrolled :: "platf_call list \<Rightarrow> int" where
  "scrolled h = (\<Sum>c\<leftarrow>h. case c of ScrollCall n \<Rightarrow> n | _ \<Rightarrow> 0)"

lemma scrolled_snoc [simp]:
  "scrolled (h @ [c]) = scrolled h + (case c of ScrollCall n \<Rightarrow> n | _ \<Rightarrow> 0)"
  by (simp add: scrolled_def)

lemma tdiv_rest: "0 < b \<Longrightarrow> \<bar>a - tdiv a b * b\<bar> < b"
proof -
  assume b: "0 < b"
  have "\<bar>a\<bar> = \<bar>a\<bar> div b * b + \<bar>a\<bar> mod b" "0 \<le> \<bar>a\<bar> mod b" "\<bar>a\<bar> mod b < b"
    using b by simp_all
  moreover have "a = sgn a * \<bar>a\<bar>" by (simp add: sgn_mult_abs)
  ultimately have "a - tdiv a b * b = sgn a * (\<bar>a\<bar> mod b)"
    by (metis (no_types, lifting) add_diff_cancel_left' distrib_left mult.assoc tdiv_def)
  then show ?thesis using b by (cases "a = 0") (auto simp: abs_mult)
qed

lemma pass_scroll_step:
  "scrolled (is_host (pass_scroll cfg x s)) + in_accumulated_vscroll_delta (pass_scroll cfg x s) =
     scrolled (is_host s) + in_accumulated_vscroll_delta s + (if cfg_mouse cfg then sint x else 0)"
  by (simp add: pass_scroll_def send_def Let_def)

lemma pass_scroll_bound:
  "\<bar>in_accumulated_vscroll_delta s\<bar> < WHEEL_DELTA \<Longrightarrow>
   \<bar>in_accumulated_vscroll_delta (pass_scroll cfg x s)\<bar> < WHEEL_DELTA"
  using tdiv_rest [of WHEEL_DELTA "in_accumulated_vscroll_delta s + sint x"]
  by (auto simp: pass_scroll_def send_def Let_def WHEEL_DELTA_def)

lemma scroll_run:
  assumes "\<bar>in_accumulated_vscroll_delta s\<bar> < WHEEL_DELTA"
  shows "\<bar>in_accumulated_vscroll_delta (fold (pass_scroll cfg) xs s)\<bar> < WHEEL_DELTA \<and>
    scrolled (is_host (fold (pass_scroll cfg) xs s)) +
      in_accumulated_vscroll_delta (fold (pass_scroll cfg) xs s) =
    scrolled (is_host s) + in_accumulated_vscroll_delta s +
      (if cfg_mouse cfg then (\<Sum>x\<leftarrow>xs. sint x) else 0)"
  using assms
proof (induction xs arbitrary: s)
  case (Cons x xs)
  then show ?case
    using Cons.IH [OF pass_scroll_bound [OF Cons.prems, of cfg x]] pass_scroll_step [of cfg x s]
    by (simp split: if_splits)
qed simp

lemma kpid_roundtrip:
  "vk_from_kpid (make_kpid vk flags) = vk" "flags_from_kpid (make_kpid vk flags) = flags"
proof -
  show "vk_from_kpid (make_kpid vk flags) = vk"
    unfolding vk_from_kpid_def make_kpid_def
    by (rule bit_word_eqI) (auto simp: bit_simps dest: bit_imp_le_length)
  have m: "(0xFF :: 32 word) = Bit_Operations.mask 8" by (simp add: mask_eq_exp_minus_1)
  show "flags_from_kpid (make_kpid vk flags) = flags"
    unfolding flags_from_kpid_def make_kpid_def m
    by (rule bit_word_eqI) (auto simp: bit_simps dest: bit_imp_le_length)
qed

lemma kp_set_map_of: "map_of (kp_set k b kps) = (map_of kps)(k \<mapsto> b)"
  by (induction kps) (auto simp: fun_eq_iff)

lemma key_pressed_set [simp]: "key_pressed k (set_key_press k' b s) = (if k = k' then b else key_pressed k s)"
  by (simp add: key_pressed_def set_key_press_def kp_set_map_of)

lemma set_key_press_simps [simp]:
  "is_mouse_press (set_key_press k b s) = is_mouse_press s"
  "is_host (set_key_press k b s) = is_host s"
  by (simp_all add: set_key_press_def)

lemma send_key_pressed [simp]: "key_pressed k (send c s) = key_pressed k s"
  by (simp add: key_pressed_def)

lemma release_button_simps:
  "is_key_press (release_button x s) = is_key_press s"
  "is_mouse_press (release_button x s) = (is_mouse_press s)[x := False]"
  "is_host (release_button x s) =
    is_host s @ (if is_mouse_press s ! x then [ButtonMouse (int x) True] else [])"
  by (auto simp: release_button_def list_update_same_conv intro: nth_equalityI)
    (metis (full_types) list_update_id)

lemma release_buttons:
  "is_key_press (fold release_button xs s) = is_key_press s \<and>
   is_mouse_press (fold release_button xs s) = fold (\<lambda>x ps. ps[x := False]) xs (is_mouse_press s) \<and>
   (distinct xs \<longrightarrow> is_host (fold release_button xs s) =
     is_host s @ map (\<lambda>x. ButtonMouse (int x) True) (filter (\<lambda>x. is_mouse_press s ! x) xs))"
proof (induction xs arbitrary: s)
  case (Cons x xs)
  have "filter (\<lambda>y. (is_mouse_press s)[x := False] ! y) xs = filter (\<lambda>y. is_mouse_press s ! y) xs"
    if "x \<notin> set xs"
    using that by (intro filter_cong) (auto simp: nth_list_update')
  then show ?case using Cons [of "release_button x s"] by (simp add: release_button_simps)
qed simp

lemma fold_clear: "xs = [0..<n] \<Longrightarrow> n \<le> length ps \<Longrightarrow>
  fold (\<lambda>x ps. ps[x := False]) xs ps = replicate n False @ drop n ps"
proof (induction n arbitrary: xs)
  case (Suc n)
  then show ?case
    by (simp add: list_update_append Cons_nth_drop_Suc [symmetric] replicate_append_same)
qed simp

definition key_release :: "u32 \<times> bool \<Rightarrow> platf_call" where
  "key_release kp = KeyboardUpdate (vk_from_kpid (fst kp) AND 0xFF) True (flags_from_kpid (fst kp))"

lemma release_keys:
  "is_mouse_press (fold release_key kps s) = is_mouse_press s \<and>
   is_host (fold release_key kps s) = is_host s @ map key_release (filter snd kps) \<and>
   (key_pressed k (fold release_key kps s) \<longleftrightarrow> key_pressed k s \<and> (k, True) \<notin> set kps)"
proof (induction kps arbitrary: s)
  case (Cons kp kps)
  have "is_mouse_press (release_key kp s) = is_mouse_press s"
    "is_host (release_key kp s) = is_host s @ (if snd kp then [key_release kp] else [])"
    "key_pressed k (release_key kp s) \<longleftrightarrow> key_pressed k s \<and> kp \<noteq> (k, True)"
    by (cases kp; auto simp: release_key_def key_release_def)+
  then show ?case using Cons [of "release_key kp s"] by auto
qed simp

section \<open>Scripts of events\<close>

definition env_at :: "time_point \<Rightarrow> task_id \<Rightarrow> input_env" where
  "env_at t i = \<lparr>en_now = t, en_fresh = i, en_alloc_rc = 0\<rparr>"

definition demo_cfg :: input_config where
  "demo_cfg = \<lparr>cfg_mouse = True, cfg_keyboard = True, cfg_controller = True,
     cfg_key_repeat_delay = 0, cfg_key_repeat_period = 0, cfg_keybindings = [(0x41, 0x42)],
     cfg_key_rightalt_to_key_win = False, cfg_high_resolution_scrolling = False,
     cfg_back_button_timeout = ms 2000\<rparr>"

definition demo_lim :: limelight where
  "demo_lim = \<lparr>lim_touch_move = 1, lim_touch_hover = 2, lim_button_left = 1,
     lim_button_right = 3, lim_modifier_shift = 1, lim_modifier_ctrl = 2, lim_modifier_alt = 4\<rparr>"

definition pad_report :: "u16 \<Rightarrow> multi_controller_packet" where
  "pad_report b = \<lparr>mc_controllerNumber = 0, mc_activeGamepadMask = 1, mc_buttonFlags = b,
     mc_buttonFlags2 = 0, mc_leftTrigger = 0, mc_rightTrigger = 0, mc_leftStickX = 0,
     mc_leftStickY = 0, mc_rightStickX = 0, mc_rightStickY = 0\<rparr>"

text \<open>BACK held for 2 s (HOME is pressed), released, tapped again within the 100 ms HOME hold.\<close>

definition back_tap_script :: "pad_event list" where
  "back_tap_script =
    [PadMulti (env_at 0 2) (pad_report 0x20), PadFire (env_at (ms 2000) 3),
     PadMulti (env_at (ms 2001) 4) (pad_report 0), PadMulti (env_at (ms 2020) 5) (pad_report 0x20),
     PadMulti (env_at (ms 2040) 6) (pad_report 0), PadFire (env_at (ms 2100) 7),
     PadFire (env_at (ms 3900) 8)]"

text \<open>A double click in absolute mode: press, release, press within 10 ms, then the timer, and a
  press of the right button.\<close>

definition double_click :: "input_state \<Rightarrow> input_state" where
  "double_click s =
    (let s = pass_mouse_button demo_lim demo_cfg (env_at 0 2) False 1 s;
         s = pass_mouse_button demo_lim demo_cfg (env_at (ms 4) 2) True 1 s;
         s = pass_mouse_button demo_lim demo_cfg (env_at (ms 8) 3) False 1 s;
         s = fire demo_lim demo_cfg (env_at (ms 14) 3) s in
     pass_mouse_button demo_lim demo_cfg (env_at (ms 900) 3) False 3 s)"

section \<open>Properties\<close>

text \<open>C22: After any sequence of gamepad packets and timer firings (with any outcome of the platform's
  allocation), the ids of the open gamepads are distinct and are exactly the ids marked as taken:
  no id leaks and none is shared.\<close>

theorem gamepad_ids_exact:
  "case fold (pad_step lim cfg) evs input_new of s \<Rightarrow>
    length (in_gamepads s) = MAX_GAMEPADS \<and> distinct (allocated s) \<and>
    set (allocated s) = taken_ids s"
  using pad_steps_inv [OF input_new_inv, of lim cfg evs] by (simp add: pad_inv_def slots_inv_def)

text \<open>Whenever the HOME button of a gamepad is held by the BACK-button emulation, a timer with the
  gamepad's current token is in the pool, so a release of HOME is always still to come.\<close>

theorem home_release_is_pending:
  "case fold (pad_step lim cfg) evs input_new of s \<Rightarrow>
    list_all (home_release_pending s) (home_held s)"
  using home_held_pending [OF pad_steps_inv [OF input_new_inv, of lim cfg evs]] by simp

text \<open>Tapping BACK again while the emulation holds HOME makes the release timer stale: here HOME is
  still held 1.9 s after it was pressed although BACK is up, and the pool holds a second press of
  HOME, due at 4.02 s, instead of the release that was due at 2.1 s.\<close>

theorem home_stuck_after_tap:
  "case fold (pad_step demo_lim demo_cfg) back_tap_script input_new of s \<Rightarrow>
    home_held s = [0] \<and>
    map (\<lambda>e. (fst e, map_option snd (snd e))) (tp_timers (is_pool s)) =
      [(ms 4020, Some (HomePress 0 2))]"
  by code_simp

text \<open>Scrolling without high resolution loses nothing: what was sent to the host in whole wheel
  ticks plus the stored rest is what the client sent, and the rest stays below one tick, so the
  32-bit accumulator cannot overflow.\<close>

theorem scroll_accumulates:
  "case fold (pass_scroll cfg) xs input_new of s \<Rightarrow>
    \<bar>in_accumulated_vscroll_delta s\<bar> < WHEEL_DELTA \<and>
    scrolled (is_host s) + in_accumulated_vscroll_delta s =
      (if cfg_mouse cfg then (\<Sum>x\<leftarrow>xs. sint x) else 0)"
  using scroll_run [of input_new cfg xs] by (simp add: input_new_def WHEEL_DELTA_def scrolled_def)

text \<open>The task \<open>reset\<close> queues releases every mouse button and every key that is down, each once,
  and leaves nothing recorded as pressed.\<close>

theorem release_all_releases:
  "case release_all s of s' \<Rightarrow>
    is_mouse_press s' = replicate (length (is_mouse_press s)) False \<and>
    \<not> key_pressed k s' \<and>
    is_host s' = is_host s
      @ map (\<lambda>x. ButtonMouse (int x) True)
          (filter (\<lambda>x. is_mouse_press s ! x) [0..<length (is_mouse_press s)])
      @ map key_release (filter snd (is_key_press s))"
proof -
  let ?n = "length (is_mouse_press s)"
  define t where "t = fold release_button [0..<?n] s"
  have t: "is_key_press t = is_key_press s" "is_mouse_press t = replicate ?n False"
    "is_host t = is_host s @ map (\<lambda>x. ButtonMouse (int x) True)
       (filter (\<lambda>x. is_mouse_press s ! x) [0..<?n])"
    using release_buttons [of "[0..<?n]" s] fold_clear [of "[0..<?n]" ?n "is_mouse_press s"]
    by (simp_all add: t_def)
  have "key_pressed k t \<Longrightarrow> (k, True) \<in> set (is_key_press t)"
    by (auto simp: key_pressed_def dest: map_of_SomeD)
  then show ?thesis
    using release_keys [of "is_key_press t" t k] t by (simp add: release_all_def t_def Let_def)
qed

text \<open>The release \<open>reset\<close> sends is the key's own code, not the code \<open>map_keycode\<close> replaced it by
  when it was pressed: with key 0x41 bound to 0x42, the host sees 0x42 go down and 0x41 go up.\<close>

theorem reset_releases_unmapped_key:
  "is_host (release_all (pass_keyboard demo_lim demo_cfg (env_at 0 2) False
      \<lparr>kb_flags = 0, kb_keyCode = 0x41, kb_modifiers = 0\<rparr> input_new)) =
    [KeyboardUpdate 0x42 False 0, KeyboardUpdate 0x41 True 0]"
  by code_simp

text \<open>In absolute mode a second press of the left button within the 10 ms delay swallows the
  deferred release: the host sees two presses and no release, and the session keeps the address
  of the finished timer, so a press of the right button much later is turned into a full click
  and the button is not held.\<close>

theorem fast_double_click_lost:
  "case double_click input_new of s \<Rightarrow>
    is_host s = [ButtonMouse 1 False, ButtonMouse 1 False, ButtonMouse 3 False, ButtonMouse 3 True] \<and>
    in_mouse_left_button_timeout s = 2 \<and> tp_timers (is_pool s) = [] \<and> \<not> is_mouse_press s ! 3"
  by code_simp

end
