(* ===== verification/VideoPacket.thy ===== *)
theory VideoPacket
  imports Prelude EventQueue
begin

text \<open>
  The video sender of \<^verbatim>\<open>src/stream.cpp\<close> (\<open>videoBroadcastThread\<close>): from an encoded frame to the
  packets on the wire. A frame that waited too long is dropped and a key frame is asked for; a
  frame that is sent gets a short header, room for a packet header every block, is split in up to
  4 FEC blocks, each block is extended by parity shards, every shard gets its sequence number and
  FEC word and is encrypted when the session has a key, and the shards are sent in paced batches.
  The packet structs, the Reed-Solomon code and AES-GCM are not in this repository: their sizes,
  field setters and functions are parameters. Sizes are natural numbers, times nanoseconds.
\<close>

section \<open>Small functions\<close>

definition next_pacing_batch_size :: "nat \<Rightarrow> nat \<Rightarrow> nat \<Rightarrow> nat \<Rightarrow> nat" where
  "next_pacing_batch_size pending maximum sent limit =
    (if pending = 0 \<or> maximum = 0 \<or> limit = 0 \<or> limit \<le> sent then 0
     else min pending (min maximum (limit - sent)))"

definition video_queue_age_budget :: "int \<Rightarrow> int \<Rightarrow> bool \<Rightarrow> int" where
  "video_queue_age_budget framerate framerate_x100 aggressive =
    (let rate_x100 = (if 0 < framerate_x100 then framerate_x100 else max framerate 1 * 100);
         budget_frames_x100 = (if aggressive then 150 else 300) in
     budget_frames_x100 * 1000000000 div rate_x100)"

definition adjusted_fec_percentage_for_min_parity :: "nat \<Rightarrow> nat \<Rightarrow> nat \<Rightarrow> nat \<Rightarrow> nat option" where
  "adjusted_fec_percentage_for_min_parity data_shards parity_shards minparityshards fecpercentage =
    (if fecpercentage = 0 \<or> minparityshards \<le> parity_shards \<or> data_shards = 0 then None
     else Some (100 * minparityshards div data_shards))"

section \<open>Headers and replacements\<close>

definition video_short_frame_header :: "u16 \<Rightarrow> u8 \<Rightarrow> u16 \<Rightarrow> bytes" where
  "video_short_frame_header latency frameType lastPayloadLen =
    [0x01] @ le_bytes 2 latency @ [frameType] @ le_bytes 2 lastPayloadLen @ [0, 0]"

text \<open>\<open>std::search\<close> and \<open>replace\<close>: the first occurrence of \<open>old\<close>, if any.\<close>

fun search :: "'a list \<Rightarrow> 'a list \<Rightarrow> ('a list \<times> 'a list) option" where
  "search [] old = (if old = [] then Some ([], []) else None)"
| "search (x # xs) old =
    (if take (length old) (x # xs) = old then Some ([], drop (length old) (x # xs))
     else map_option (\<lambda>(a, b). (x # a, b)) (search xs old))"

definition replace :: "bytes \<Rightarrow> bytes \<Rightarrow> bytes \<Rightarrow> bytes" where
  "replace original old new =
    (case search original old of
       None \<Rightarrow> original
     | Some (before, after) \<Rightarrow>
         (if length before = length original then original else before @ new @ after))"

text \<open>
  \<open>concat_and_insert\<close>: the loop over the slices, with what is left of the current buffer. When a
  slice extends beyond it, the rest of the slice comes from the start of the second buffer, which
  becomes the current one. Each slice is preceded by \<open>insert_size\<close> zero bytes.
\<close>

function insert_loop :: "nat \<Rightarrow> nat \<Rightarrow> nat \<Rightarrow> nat \<Rightarrow> nat \<Rightarrow> bytes \<Rightarrow> bytes \<Rightarrow> bytes" where
  "insert_loop insert_size slice_size data_size elements x cur data2 =
    (if elements \<le> x then []
     else
       let size = (if x = elements - 1 then data_size - x * slice_size else slice_size) in
       replicate insert_size 0 @
       (if length cur < size
        then cur @ take (size - length cur) data2 @
          insert_loop insert_size slice_size data_size elements (Suc x)
            (drop (size - length cur) data2) data2
        else take size cur @
          insert_loop insert_size slice_size data_size elements (Suc x) (drop size cur) data2))"
  by pat_completeness auto

termination
  by (relation "measure (\<lambda>(ins, sl, ds, elements, x, cur, d2). elements - x)") auto

declare insert_loop.simps [simp del]

definition concat_and_insert :: "nat \<Rightarrow> nat \<Rightarrow> bytes \<Rightarrow> bytes \<Rightarrow> bytes" where
  "concat_and_insert insert_size slice_size data1 data2 =
    (let data_size = length data1 + length data2;
         pad = data_size mod slice_size \<noteq> 0;
         elements = data_size div slice_size + (if pad then 1 else 0) in
     insert_loop insert_size slice_size data_size elements 0 data1 data2)"

section \<open>FEC blocks\<close>

record fec_t =
  fe_data_shards :: nat
  fe_nr_shards :: nat
  fe_percentage :: nat
  fe_shards :: "bytes list"

text \<open>\<open>fec::encode\<close>. The parity shards of \<open>rs k shards\<close> are those of the Reed-Solomon code.\<close>

definition fec_encode ::
    "(nat \<Rightarrow> bytes list \<Rightarrow> bytes list) \<Rightarrow> bytes \<Rightarrow> nat \<Rightarrow> nat \<Rightarrow> nat \<Rightarrow> fec_t" where
  "fec_encode rs payload blocksize fecpercentage minparityshards =
    (let payload_size = length payload;
         pad = payload_size mod blocksize \<noteq> 0;
         aligned_data_shards = payload_size div blocksize;
         data_shards = aligned_data_shards + (if pad then 1 else 0);
         parity_shards = (data_shards * fecpercentage + 99) div 100;
         (parity_shards, fecpercentage) =
           (case adjusted_fec_percentage_for_min_parity data_shards parity_shards
                   minparityshards fecpercentage of
              Some adjusted \<Rightarrow> (minparityshards, adjusted)
            | None \<Rightarrow> (parity_shards, fecpercentage));
         aligned = chunks blocksize (take (aligned_data_shards * blocksize) payload);
         rest = drop (aligned_data_shards * blocksize) payload;
         padded = (if pad then [rest @ replicate (blocksize - length rest) 0] else []);
         data = aligned @ padded in
     \<lparr>fe_data_shards = data_shards, fe_nr_shards = data_shards + parity_shards,
      fe_percentage = fecpercentage,
      fe_shards = data @ (if fecpercentage \<noteq> 0 then rs parity_shards data
                          else replicate parity_shards (replicate blocksize 0))\<rparr>)"

definition MAX_FEC_BLOCKS :: nat where "MAX_FEC_BLOCKS = 4"

text \<open>The number of FEC blocks of a frame, and the percentage: FEC is off for an oversized one.\<close>

definition max_data_shards_per_fec_block :: "nat \<Rightarrow> nat \<Rightarrow> nat" where
  "max_data_shards_per_fec_block shards_max fecPercentage = shards_max * 100 div (100 + fecPercentage)"

definition fec_blocks_needed :: "nat \<Rightarrow> nat \<Rightarrow> nat \<Rightarrow> nat \<Rightarrow> nat \<times> nat" where
  "fec_blocks_needed shards_max blocksize fecPercentage len =
    (let max_data = max_data_shards_per_fec_block shards_max fecPercentage * blocksize;
         needed = (len + (max_data - 1)) div max_data in
     if MAX_FEC_BLOCKS < needed then (MAX_FEC_BLOCKS, 0) else (needed, fecPercentage))"

definition fec_aligned_size :: "nat \<Rightarrow> nat \<Rightarrow> nat \<Rightarrow> nat" where
  "fec_aligned_size blocksize needed len =
    (let unaligned_size = len div needed in
     (unaligned_size + (blocksize - 1)) div blocksize * blocksize)"

text \<open>\<open>substr\<close> throws when its start is beyond the end: \<open>None\<close>.\<close>

definition fec_split :: "nat \<Rightarrow> nat \<Rightarrow> bytes \<Rightarrow> bytes list option" where
  "fec_split blocksize needed payload =
    (let aligned_size = fec_aligned_size blocksize needed (length payload) in
     if \<exists>x < needed. length payload < x * aligned_size then None
     else Some (map (\<lambda>x. if x = needed - 1 then drop (x * aligned_size) payload
                         else take aligned_size (drop (x * aligned_size) payload)) [0..<needed]))"

section \<open>Packets\<close>

text \<open>The sizes and flags of the packet structs, and setters of their fields in a packet.\<close>

record packet_layout =
  pl_raw_size :: nat
  pl_nv_size :: nat
  pl_max_rtp_header :: nat
  pl_shards_max :: nat
  pl_pic_data :: u8
  pl_sof :: u8
  pl_eof :: u8
  pl_extension :: u8
  pl_frameIndex :: "u32 \<Rightarrow> bytes \<Rightarrow> bytes"
  pl_streamPacketIndex :: "u32 \<Rightarrow> bytes \<Rightarrow> bytes"
  pl_multiFecFlags :: "u8 \<Rightarrow> bytes \<Rightarrow> bytes"
  pl_multiFecBlocks :: "u8 \<Rightarrow> bytes \<Rightarrow> bytes"
  pl_flags :: "u8 \<Rightarrow> bytes \<Rightarrow> bytes"
  pl_fecInfo :: "u32 \<Rightarrow> bytes \<Rightarrow> bytes"
  pl_rtp_header :: "u8 \<Rightarrow> bytes \<Rightarrow> bytes"
  pl_rtp_sequence :: "u16 \<Rightarrow> bytes \<Rightarrow> bytes"
  pl_rtp_timestamp :: "u32 \<Rightarrow> bytes \<Rightarrow> bytes"

record video_config =
  vc_packetsize :: nat
  vc_framerate :: int
  vc_framerate_x100 :: int
  vc_aggressive :: bool
  vc_fec_percentage :: nat
  vc_min_fec_packets :: nat
  vc_rate_cap_pct :: nat

record video_frame =
  vf_data :: bytes
  vf_frame_index :: "64 word"
  vf_idr :: bool
  vf_after_ref_invalidation :: bool
  vf_replacements :: "(bytes \<times> bytes) list"
  vf_enqueued_at :: "int option"
  vf_frame_timestamp :: "int option"

record video_session =
  vs_lowseq :: int
  vs_cipher :: bool
  vs_gcm_iv_counter :: u64
  vs_link_speed_bps :: nat
  vs_next_frame_start :: int
  vs_drop_until_idr :: bool
  vs_idr_events :: "bool event_t"

text \<open>The age check and the wait for a key frame: whether the frame is sent, and the session.\<close>

definition video_admit :: "video_config \<Rightarrow> int \<Rightarrow> video_frame \<Rightarrow> video_session \<Rightarrow> bool \<times> video_session" where
  "video_admit cfg dequeue_time f s =
    (let budget = video_queue_age_budget (vc_framerate cfg) (vc_framerate_x100 cfg) (vc_aggressive cfg);
         stale = (case vf_enqueued_at f of None \<Rightarrow> False | Some t \<Rightarrow> budget < dequeue_time - t) in
     if stale then
       (False, s\<lparr>vs_drop_until_idr := True, vs_idr_events := event_raise True (vs_idr_events s)\<rparr>)
     else if vs_drop_until_idr s then
       (if \<not> vf_idr f then (False, s) else (True, s\<lparr>vs_drop_until_idr := False\<rparr>))
     else (True, s))"

definition video_payload :: "video_frame \<Rightarrow> bytes" where
  "video_payload f =
    (if vf_idr f then fold (\<lambda>(old, new) payload. replace payload old new) (vf_replacements f) (vf_data f)
     else vf_data f)"

definition frame_type :: "video_frame \<Rightarrow> u8" where
  "frame_type f = (if vf_idr f then 2 else if vf_after_ref_invalidation f then 5 else 1)"

definition last_payload_len :: "packet_layout \<Rightarrow> video_config \<Rightarrow> nat \<Rightarrow> u16" where
  "last_payload_len pl cfg len =
    (let n = (of_nat ((len + 8) mod (vc_packetsize cfg - pl_nv_size pl)) :: u16) in
     if n = 0 then of_nat (vc_packetsize cfg - pl_nv_size pl) else n)"

text \<open>Microseconds to 1/10 ms units, rounded, in 16 bits.\<close>

definition frame_latency :: "int option \<Rightarrow> u16" where
  "frame_latency us = (case us of None \<Rightarrow> 0 | Some d \<Rightarrow> of_int (max 0 (min 65535 ((d + 50) div 100))))"

definition video_blocksize :: "packet_layout \<Rightarrow> video_config \<Rightarrow> nat" where
  "video_blocksize pl cfg = vc_packetsize cfg + pl_max_rtp_header pl"

definition packetize :: "packet_layout \<Rightarrow> video_config \<Rightarrow> int option \<Rightarrow> video_frame \<Rightarrow> bytes" where
  "packetize pl cfg us f =
    (let payload = video_payload f;
         header = video_short_frame_header (frame_latency us) (frame_type f)
                    (last_payload_len pl cfg (length payload)) in
     concat_and_insert (pl_raw_size pl) (video_blocksize pl cfg - pl_raw_size pl) header payload)"

text \<open>The headers of the data packets of a block, set before the parity is computed.\<close>

definition multi_fec_blocks :: "nat \<Rightarrow> nat \<Rightarrow> u8" where
  "multi_fec_blocks blockIndex needed = push_bit 4 (of_nat blockIndex) OR push_bit 6 (of_nat (needed - 1))"

definition mark_packet ::
    "packet_layout \<Rightarrow> video_frame \<Rightarrow> int \<Rightarrow> nat \<Rightarrow> nat \<Rightarrow> nat \<Rightarrow> nat \<Rightarrow> bytes \<Rightarrow> bytes" where
  "mark_packet pl f lowseq blockIndex needed packets x p =
    (let flags = pl_pic_data pl OR (if x = 0 then pl_sof pl else 0)
           OR (if x = packets - 1 then pl_eof pl else 0) in
     pl_flags pl flags
       (pl_multiFecBlocks pl (multi_fec_blocks blockIndex needed)
         (pl_multiFecFlags pl 0x10
           (pl_streamPacketIndex pl (push_bit 8 (of_int lowseq + of_nat x))
             (pl_frameIndex pl (ucast (vf_frame_index f)) p)))))"

definition mark_block ::
    "packet_layout \<Rightarrow> video_frame \<Rightarrow> nat \<Rightarrow> int \<Rightarrow> nat \<Rightarrow> nat \<Rightarrow> bytes \<Rightarrow> bytes" where
  "mark_block pl f blocksize lowseq blockIndex needed block =
    (let ps = chunks blocksize block; packets = length ps in
     concat (map (\<lambda>(x, p). mark_packet pl f lowseq blockIndex needed packets x p) (enumerate 0 ps)))"

definition fec_info :: "nat \<Rightarrow> fec_t \<Rightarrow> u32" where
  "fec_info x fe =
     push_bit 12 (of_nat x) OR push_bit 22 (of_nat (fe_data_shards fe)) OR
     push_bit 4 (of_nat (fe_percentage fe))"

definition video_iv :: "u64 \<Rightarrow> bytes" where
  "video_iv counter = le_bytes 8 counter @ [0, 0, 0] @ [0x56]"

text \<open>A shard as sent: its sequence number, FEC word, IV when encrypted, and its bytes with the
  encryption prefix's tag.\<close>

record sent_shard =
  ss_sequence :: u16
  ss_fecInfo :: u32
  ss_iv :: "bytes option"
  ss_tag :: bytes
  ss_bytes :: bytes

definition stamp_shard ::
    "packet_layout \<Rightarrow> (bytes \<Rightarrow> bytes \<Rightarrow> bytes \<times> bytes) \<Rightarrow> video_frame \<Rightarrow> u32 \<Rightarrow> int \<Rightarrow> nat \<Rightarrow> nat \<Rightarrow>
     fec_t \<Rightarrow> nat \<Rightarrow> bytes \<Rightarrow> video_session \<Rightarrow> sent_shard \<times> video_session" where
  "stamp_shard pl gcm f timestamp lowseq blockIndex needed fe x shard s =
    (let seq = of_int (lowseq + int x); info = fec_info x fe;
         p = pl_frameIndex pl (ucast (vf_frame_index f))
               (pl_multiFecBlocks pl (multi_fec_blocks blockIndex needed)
                 (pl_rtp_timestamp pl timestamp
                   (pl_rtp_sequence pl seq
                     (pl_rtp_header pl (0x80 OR pl_extension pl) (pl_fecInfo pl info shard))))) in
     if vs_cipher s then
       (let iv = video_iv (vs_gcm_iv_counter s); (tag, c) = gcm iv p in
        (\<lparr>ss_sequence = seq, ss_fecInfo = info, ss_iv = Some iv, ss_tag = tag, ss_bytes = c\<rparr>,
         s\<lparr>vs_gcm_iv_counter := vs_gcm_iv_counter s + 1\<rparr>))
     else
       (\<lparr>ss_sequence = seq, ss_fecInfo = info, ss_iv = None, ss_tag = [], ss_bytes = p\<rparr>, s))"

fun stamp_shards ::
    "packet_layout \<Rightarrow> (bytes \<Rightarrow> bytes \<Rightarrow> bytes \<times> bytes) \<Rightarrow> video_frame \<Rightarrow> u32 \<Rightarrow> int \<Rightarrow> nat \<Rightarrow> nat \<Rightarrow>
     fec_t \<Rightarrow> nat \<Rightarrow> bytes list \<Rightarrow> video_session \<Rightarrow> sent_shard list \<times> video_session" where
  "stamp_shards pl gcm f timestamp lowseq blockIndex needed fe x [] s = ([], s)"
| "stamp_shards pl gcm f timestamp lowseq blockIndex needed fe x (shard # shards) s =
    (let (p, s) = stamp_shard pl gcm f timestamp lowseq blockIndex needed fe x shard s;
         (ps, s) = stamp_shards pl gcm f timestamp lowseq blockIndex needed fe (Suc x) shards s in
     (p # ps, s))"

section \<open>Pacing\<close>

text \<open>
  The send loop of a block: shards 0, 1, ... become ready in order, and ready shards go out in
  batches, at most \<open>limit\<close> shards between two waits. \<open>pc_waits\<close> lists the offsets (from the frame's
  start) the sender waited for, \<open>pc_log\<close> the calls of \<open>send_batch\<close>: how many waits came before, the
  first shard, the number of shards, and whether the call reported that the deadline had passed,
  which the platform decides: \<open>outcomes\<close> (no more outcomes: in time).
\<close>

record pace =
  pc_next :: nat
  pc_group :: nat
  pc_frame :: nat
  pc_waits :: "nat list"
  pc_log :: "(nat \<times> nat \<times> nat \<times> bool) list"

definition pace_new :: pace where
  "pace_new = \<lparr>pc_next = 0, pc_group = 0, pc_frame = 0, pc_waits = [], pc_log = []\<rparr>"

definition pace_wait :: "nat \<Rightarrow> pace \<Rightarrow> pace" where
  "pace_wait limit p =
    (if limit \<le> pc_group p \<or> pc_frame p = 0
     then p\<lparr>pc_group := 0, pc_waits := pc_waits p @ [1000000 * pc_frame p div limit]\<rparr>
     else p)"

definition pace_send :: "nat \<Rightarrow> bool \<Rightarrow> pace \<Rightarrow> pace" where
  "pace_send n timed_out p =
    (let p = p\<lparr>pc_log := pc_log p @ [(length (pc_waits p), pc_next p, n, timed_out)]\<rparr> in
     if timed_out then p
     else p\<lparr>pc_group := pc_group p + n, pc_frame := pc_frame p + n, pc_next := pc_next p + n\<rparr>)"

text \<open>The inner loop; \<open>continue\<close> when the batch is empty. Whether it ends is a theorem.\<close>

partial_function (option) pace_loop ::
    "nat \<Rightarrow> nat \<Rightarrow> nat \<Rightarrow> bool list \<Rightarrow> pace \<Rightarrow> (bool \<times> bool list \<times> pace) option" where
  "pace_loop limit batch x outcomes p =
    (if x < pc_next p then Some (False, outcomes, p)
     else
       let p = pace_wait limit p;
           n = next_pacing_batch_size (x - pc_next p + 1) batch (pc_group p) limit in
       if n = 0 then pace_loop limit batch x outcomes p
       else
         let timed_out = (outcomes \<noteq> [] \<and> hd outcomes); p = pace_send n timed_out p in
         if timed_out then Some (True, tl outcomes, p)
         else pace_loop limit batch x (tl outcomes) p)"

declare pace_loop.simps [code]

text \<open>The outer loop over the shards \<open>x\<close> of a block of \<open>size\<close> shards. After a timed out batch the
  inner loop is left, not this one.\<close>

fun pace_shards ::
    "nat \<Rightarrow> nat \<Rightarrow> nat \<Rightarrow> nat list \<Rightarrow> bool list \<Rightarrow> bool \<Rightarrow> pace \<Rightarrow> (bool \<times> bool list \<times> pace) option" where
  "pace_shards limit batch sz [] outcomes timed_out p = Some (timed_out, outcomes, p)"
| "pace_shards limit batch sz (x # xs) outcomes timed_out p =
    (if batch \<le> x + 1 - pc_next p \<or> x + 1 = sz then
       (case pace_loop limit batch x outcomes p of
          None \<Rightarrow> None
        | Some (t, outcomes, p) \<Rightarrow> pace_shards limit batch sz xs outcomes (timed_out \<or> t) p)
     else pace_shards limit batch sz xs outcomes timed_out p)"

definition pace_block ::
    "nat \<Rightarrow> nat \<Rightarrow> nat \<Rightarrow> bool list \<Rightarrow> pace \<Rightarrow> (bool \<times> bool list \<times> pace) option" where
  "pace_block limit batch sz outcomes p =
    pace_shards limit batch sz [0..<sz] outcomes False (p\<lparr>pc_next := 0\<rparr>)"

definition packets_in_1ms :: "video_config \<Rightarrow> nat \<Rightarrow> nat \<Rightarrow> nat" where
  "packets_in_1ms cfg link_bps blocksize =
    max 1 (link_bps * vc_rate_cap_pct cfg div 100 div 1000 div blocksize div 8)"

definition send_batch_size :: "nat \<Rightarrow> nat" where
  "send_batch_size blocksize = max 1 (min 64 (64 * 1024 div blocksize))"

section \<open>A frame\<close>

record frame_send =
  fs_session :: video_session
  fs_block :: nat
  fs_outcomes :: "bool list"
  fs_timed_out :: bool
  fs_pace :: pace
  fs_shards :: "sent_shard list"

text \<open>One FEC block, skipped once a block of the frame has timed out.\<close>

definition send_block ::
    "packet_layout \<Rightarrow> (nat \<Rightarrow> bytes list \<Rightarrow> bytes list) \<Rightarrow> (bytes \<Rightarrow> bytes \<Rightarrow> bytes \<times> bytes) \<Rightarrow>
     video_config \<Rightarrow> video_frame \<Rightarrow> u32 \<Rightarrow> nat \<Rightarrow> nat \<Rightarrow> nat \<Rightarrow> bytes \<Rightarrow> frame_send \<Rightarrow>
     frame_send option" where
  "send_block pl rs gcm cfg f timestamp blocksize fecPercentage needed block fs =
    (if fs_timed_out fs then Some fs
     else
       let s = fs_session fs; lowseq = vs_lowseq s;
           marked = mark_block pl f blocksize lowseq (fs_block fs) needed block;
           fe = fec_encode rs marked blocksize fecPercentage (vc_min_fec_packets cfg);
           (shards, s) = stamp_shards pl gcm f timestamp lowseq (fs_block fs) needed fe 0 (fe_shards fe) s in
       (case pace_block (packets_in_1ms cfg (vs_link_speed_bps s) blocksize) (send_batch_size blocksize)
               (fe_nr_shards fe) (fs_outcomes fs) (fs_pace fs) of
          None \<Rightarrow> None
        | Some (timed_out, outcomes, p) \<Rightarrow>
            (let s = (if timed_out
                      then s\<lparr>vs_drop_until_idr := True, vs_idr_events := event_raise True (vs_idr_events s)\<rparr>
                      else s) in
             Some (fs\<lparr>fs_session := s\<lparr>vs_lowseq := lowseq + int (fe_nr_shards fe)\<rparr>,
                      fs_block := fs_block fs + 1, fs_outcomes := outcomes, fs_timed_out := timed_out,
                      fs_pace := p, fs_shards := fs_shards fs @ shards\<rparr>))))"

fun send_blocks :: "(bytes \<Rightarrow> frame_send \<Rightarrow> frame_send option) \<Rightarrow> bytes list \<Rightarrow> frame_send \<Rightarrow> frame_send option" where
  "send_blocks step [] fs = Some fs"
| "send_blocks step (b # bs) fs = (case step b fs of None \<Rightarrow> None | Some fs \<Rightarrow> send_blocks step bs fs)"

text \<open>A frame that is admitted: the shards sent, and the session. \<open>now\<close> is the clock when pacing
  starts and \<open>after\<close> when the frame is done; \<open>None\<close> when the splitting throws.\<close>

definition send_frame ::
    "packet_layout \<Rightarrow> (nat \<Rightarrow> bytes list \<Rightarrow> bytes list) \<Rightarrow> (bytes \<Rightarrow> bytes \<Rightarrow> bytes \<times> bytes) \<Rightarrow>
     video_config \<Rightarrow> int option \<Rightarrow> u32 \<Rightarrow> int \<Rightarrow> int \<Rightarrow> bool list \<Rightarrow> video_frame \<Rightarrow> video_session \<Rightarrow>
     (frame_send \<times> video_session) option" where
  "send_frame pl rs gcm cfg us timestamp now after outcomes f s =
    (let payload = packetize pl cfg us f;
         blocksize = video_blocksize pl cfg;
         (needed, fecPercentage) =
           fec_blocks_needed (pl_shards_max pl) blocksize (vc_fec_percentage cfg) (length payload);
         frame_start = max (vs_next_frame_start s) now in
     (case fec_split blocksize needed payload of
        None \<Rightarrow> None
      | Some blocks \<Rightarrow>
          (case send_blocks (send_block pl rs gcm cfg f timestamp blocksize fecPercentage needed) blocks
                 \<lparr>fs_session = s, fs_block = 0, fs_outcomes = outcomes, fs_timed_out = False,
                  fs_pace = pace_new, fs_shards = []\<rparr> of
             None \<Rightarrow> None
           | Some fs \<Rightarrow>
               (let limit = packets_in_1ms cfg (vs_link_speed_bps s) blocksize;
                    next_start = (if fs_timed_out fs then after
                                  else frame_start + int (1000000 * pc_frame (fs_pace fs) div limit)) in
                Some (fs, (fs_session fs)\<lparr>vs_next_frame_start := next_start\<rparr>)))))"

text \<open>The loop of the thread, one frame with its circumstances at a time.\<close>

record frame_env =
  ve_dequeue_time :: int
  ve_latency_us :: "int option"
  ve_timestamp :: u32
  ve_now :: int
  ve_after :: int
  ve_outcomes :: "bool list"

definition video_step ::
    "packet_layout \<Rightarrow> (nat \<Rightarrow> bytes list \<Rightarrow> bytes list) \<Rightarrow> (bytes \<Rightarrow> bytes \<Rightarrow> bytes \<times> bytes) \<Rightarrow>
     video_config \<Rightarrow> frame_env \<times> video_frame \<Rightarrow> video_session \<Rightarrow>
     (sent_shard list \<times> video_session) option" where
  "video_step pl rs gcm cfg = (\<lambda>(env, f) s.
    (let (admitted, s) = video_admit cfg (ve_dequeue_time env) f s in
     if \<not> admitted then Some ([], s)
     else map_option (\<lambda>(fs, s). (fs_shards fs, s))
       (send_frame pl rs gcm cfg (ve_latency_us env) (ve_timestamp env) (ve_now env) (ve_after env)
          (ve_outcomes env) f s)))"

fun video_run ::
    "packet_layout \<Rightarrow> (nat \<Rightarrow> bytes list \<Rightarrow> bytes list) \<Rightarrow> (bytes \<Rightarrow> bytes \<Rightarrow> bytes \<times> bytes) \<Rightarrow>
     video_config \<Rightarrow> (frame_env \<times> video_frame) list \<Rightarrow> video_session \<Rightarrow>
     (sent_shard list list \<times> video_session) option" where
  "video_run pl rs gcm cfg [] s = Some ([], s)"
| "video_run pl rs gcm cfg (x # xs) s =
    (case video_step pl rs gcm cfg x s of
       None \<Rightarrow> None
     | Some (ps, s) \<Rightarrow> map_option (\<lambda>(pss, s). (ps # pss, s)) (video_run pl rs gcm cfg xs s))"

section \<open>Inserting the packet headers\<close>

lemma ceil_less: "0 < b \<Longrightarrow> x < (n + b - 1) div b \<longleftrightarrow> x * b < (n::nat)"
proof -
  assume b: "0 < b"
  have "x < (n + b - 1) div b \<longleftrightarrow> Suc x \<le> (n + b - 1) div b" by auto
  also have "\<dots> \<longleftrightarrow> Suc x * b \<le> n + b - 1" using b by (simp add: less_eq_div_iff_mult_less_eq)
  also have "\<dots> \<longleftrightarrow> x * b < n" using b by auto
  finally show ?thesis .
qed

lemma ceil_pad: "0 < b \<Longrightarrow> n div b + (if n mod b \<noteq> 0 then 1 else 0) = (n + b - 1) div (b::nat)"
proof (induction n rule: less_induct)
  case (less n)
  show ?case
  proof (cases "n < b")
    case True
    then show ?thesis
      using less.prems by (cases "n = 0") (auto simp: div_eq_0_iff le_div_geq)
  next
    case False
    then have "n + b - 1 = (n - b + b - 1) + b" using less.prems by simp
    then show ?thesis
      using less False by (simp add: le_div_geq le_mod_geq div_add_self2 del: Nat.diff_add_inverse2)
  qed
qed

definition stuffed :: "nat \<Rightarrow> bytes list \<Rightarrow> bytes" where
  "stuffed n cs = concat (map (\<lambda>c. replicate n 0 @ c) cs)"

lemma stuffed_Cons: "stuffed n (c # cs) = replicate n 0 @ c @ stuffed n cs"
  by (simp add: stuffed_def)

lemma insert_loop_step:
  "x < elements \<Longrightarrow> sz = (if x = elements - 1 then ds - x * sl else sl) \<Longrightarrow>
   insert_loop ins sl ds elements x cur data2 =
     replicate ins 0 @
     (if length cur < sz
      then cur @ take (sz - length cur) data2 @
        insert_loop ins sl ds elements (Suc x) (drop (sz - length cur) data2) data2
      else take sz cur @ insert_loop ins sl ds elements (Suc x) (drop sz cur) data2)"
  by (subst insert_loop.simps) (simp add: Let_def)

lemma insert_loop_stuffed:
  assumes "0 < sl" and "elements = (ds + sl - 1) div sl" and "rest = cur @ data2 \<or> rest = cur"
    and "length rest = ds - x * sl"
  shows "insert_loop ins sl ds elements x cur data2 = stuffed ins (chunks sl rest)"
  using assms(3,4)
proof (induction "elements - x" arbitrary: x cur rest)
  case 0
  then have "\<not> x < elements" by simp
  then have "ds \<le> x * sl" using ceil_less [OF assms(1)] assms(2) by (metis not_less)
  then have "rest = []" using 0 by simp
  then show ?case using 0 by (simp add: insert_loop.simps stuffed_def)
next
  case (Suc k)
  then have x: "x < elements" by simp
  then have pos: "x * sl < ds" using ceil_less [OF assms(1)] assms(2) by metis
  define m where "m = (if x = elements - 1 then ds - x * sl else sl)"
  have sz: "m \<le> length rest \<and> take m rest = take sl rest \<and> drop m rest = drop sl rest"
  proof (cases "x = elements - 1")
    case True
    then have "\<not> Suc x < elements" using x by simp
    then have "ds \<le> Suc x * sl" using ceil_less [OF assms(1)] assms(2) by (metis not_less)
    then show ?thesis using True Suc.prems(2) by (simp add: m_def)
  next
    case False
    then have "Suc x < elements" using x by simp
    then have "Suc x * sl < ds" using ceil_less [OF assms(1)] assms(2) by metis
    then show ?thesis using False Suc.prems(2) by (simp add: m_def)
  qed
  have ne: "rest \<noteq> []" using pos Suc.prems(2) by auto
  have len: "length (drop sl rest) = ds - Suc x * sl" using Suc.prems(2) by simp
  have k: "k = elements - Suc x" using Suc.hyps(2) by simp
  have step: "stuffed ins (chunks sl rest) = replicate ins 0 @ take m rest @
      stuffed ins (chunks sl (drop m rest))"
    using sz assms(1) ne by (simp add: chunks_step stuffed_Cons)
  show ?case
  proof (cases "length cur < m")
    case True
    then have r: "rest = cur @ data2" using Suc.prems(1) sz by auto
    then have "insert_loop ins sl ds elements (Suc x) (drop (m - length cur) data2) data2 =
        stuffed ins (chunks sl (drop m rest))"
      using True sz len by (intro Suc.hyps(1) [OF k]) auto
    then show ?thesis
      using True r step unfolding insert_loop_step [OF x m_def] by simp
  next
    case False
    then have "insert_loop ins sl ds elements (Suc x) (drop m cur) data2 =
        stuffed ins (chunks sl (drop m rest))"
      using Suc.prems(1) sz len by (intro Suc.hyps(1) [OF k]) auto
    moreover have "take m rest = take m cur" using False Suc.prems(1) by auto
    ultimately show ?thesis
      using False step unfolding insert_loop_step [OF x m_def] by simp
  qed
qed

lemma concat_and_insert_stuffed:
  "0 < sl \<Longrightarrow> concat_and_insert ins sl d1 d2 = stuffed ins (chunks sl (d1 @ d2))"
  unfolding concat_and_insert_def Let_def
  by (subst ceil_pad) (auto intro: insert_loop_stuffed)

lemma last_chunk:
  "0 < n \<Longrightarrow> xs \<noteq> [] \<Longrightarrow>
   length (last (chunks n xs)) = (if length xs mod n = 0 then n else length xs mod n)"
proof (induction n xs rule: chunks.induct)
  case (1 n xs)
  show ?case
  proof (cases "drop n xs = []")
    case True
    then have le: "length xs \<le> n" by simp
    then have "chunks n xs = [xs]" using 1 True by (simp add: chunks_step)
    then show ?thesis using le 1 by (cases "length xs = n") auto
  next
    case False
    then have "length (last (chunks n xs)) = length (last (chunks n (drop n xs)))"
      using 1 by (simp add: chunks_step)
    then show ?thesis using 1 False by (simp add: le_mod_geq [of n "length xs"] not_less)
  qed
qed

section \<open>Splitting a frame in FEC blocks\<close>

lemma ceil_mult_le: "0 < b \<Longrightarrow> q \<le> (q + (b - 1)) div b * (b::nat) \<and> (q + (b - 1)) div b * b < q + b"
proof -
  assume b: "0 < b"
  have "(q + (b - 1)) div b * b + (q + (b - 1)) mod b = q + (b - 1)" by simp
  moreover have "(q + (b - 1)) mod b < b" using b by simp
  ultimately show ?thesis by arith
qed

lemma ceil_le: "0 < b \<Longrightarrow> q \<le> d * b \<Longrightarrow> (q + (b - 1)) div b \<le> (d::nat)"
proof -
  assume "0 < b" "q \<le> d * b"
  then have "(q + (b - 1)) < Suc d * b" by simp
  then have "(q + (b - 1)) div b < Suc d" by (rule less_mult_imp_div_less)
  then show ?thesis by simp
qed

text \<open>The arithmetic of the split: n blocks of at most d shards of b bytes.\<close>

lemma split_bounds:
  fixes len b d n :: nat
  assumes "4 \<le> b" and "n \<le> 4" and "0 < n" and "n \<le> d" and "len \<le> n * (d * b)"
    and "(n - 1) * (d * b) < len"
  defines "a \<equiv> fec_aligned_size b n len"
  shows "(n - 1) * a \<le> len \<and> a \<le> d * b \<and> len - (n - 1) * a \<le> d * b \<and> a mod b = 0"
proof -
  define q r where "q = len div n" and "r = len mod n"
  have len: "len = n * q + r" "r < n" using assms(3) by (simp_all add: q_def r_def)
  have a: "a = (q + (b - 1)) div b * b" by (simp add: a_def fec_aligned_size_def q_def)
  have aq: "q \<le> a" "a < q + b" using ceil_mult_le [of b q] assms(1) a by auto
  have "n * q \<le> n * (d * b)" using len assms(5) by linarith
  then have q: "q \<le> d * b" using assms(3) by simp
  then have ad: "a \<le> d * b" using ceil_le [of b q d] assms(1) a by simp
  obtain m where n: "n = Suc m" using assms(3) by (cases n) auto
  have low: "m * b \<le> q"
  proof -
    have "m * (n * b) \<le> m * (d * b)" using assms(4) by (intro mult_le_mono) auto
    also have "\<dots> < len" using assms(6) n by simp
    finally have "n * (m * b) < n * q + n" using len by (simp add: ac_simps)
    then have "n * (m * b) < n * Suc q" by simp
    then have "m * b < Suc q" by (metis mult_less_cancel1)
    then show ?thesis by simp
  qed
  have first: "m * a \<le> len"
  proof -
    have "m * a \<le> m * (q + b)" using aq(2) by (intro mult_le_mono) auto
    also have "\<dots> = m * q + m * b" by (simp add: distrib_left)
    also have "\<dots> \<le> len" using len n low by simp
    finally show ?thesis .
  qed
  have last: "len - m * a \<le> d * b"
  proof (cases "q < a")
    case True
    have "m * Suc q \<le> m * a" using True by (intro mult_le_mono) auto
    then have "len \<le> m * a + q" using len n by simp
    then show ?thesis using q by simp
  next
    case False
    then have qa: "a = q" using aq(1) by simp
    have "len \<le> m * a + (q + m)" using len n qa by simp
    moreover have "q + m \<le> d * b \<or> q = d * b"
    proof (cases "q = d * b")
      case False
      define c where "c = (q + (b - 1)) div b"
      have c: "q = c * b" using qa a c_def by simp
      have "c < d" using c q False assms(1) by (metis le_neq_implies_less mult_le_cancel2 not_less_eq_eq nat_le_linear le_antisym)
      then have "Suc c * b \<le> d * b" by (intro mult_le_mono) auto
      then show ?thesis using c assms(1,2) n by simp
    qed simp
    moreover have "len - m * a \<le> d * b" if "q = d * b"
      using that qa assms(5) n by (simp add: algebra_simps)
    ultimately show ?thesis by auto
  qed
  show ?thesis using first ad last a n by simp
qed

lemma concat_split:
  "(\<forall>x < n. x * a \<le> length xs) \<Longrightarrow> 0 < n \<Longrightarrow>
   concat (map (\<lambda>x. if x = n - 1 then drop (x * a) xs else take a (drop (x * a) xs)) [0..<n]) = xs"
proof -
  have "concat (map (\<lambda>x. take a (drop (x * a) xs)) [0..<m]) = take (m * a) xs" for m
    by (induction m) (simp_all add: take_add [symmetric] add.commute)
  moreover assume "0 < n"
  then obtain m where n: "n = Suc m" by (cases n) auto
  have "map (\<lambda>x. if x = n - 1 then drop (x * a) xs else take a (drop (x * a) xs)) [0..<n] =
      map (\<lambda>x. take a (drop (x * a) xs)) [0..<m] @ [drop (m * a) xs]"
    by (auto simp: n)
  ultimately show ?thesis by simp
qed

text \<open>The outcome of the split for a frame that needs no more than 4 blocks.\<close>

lemma fec_split_ok:
  fixes payload :: bytes
  assumes "4 \<le> b" and "4 \<le> d" and "d = max_data_shards_per_fec_block m fec"
    and "fec_blocks_needed m b fec (length payload) = (n, fec)" and "0 < fec" and "payload \<noteq> []"
  shows "\<exists>blocks. fec_split b n payload = Some blocks \<and> concat blocks = payload \<and>
    length blocks = n \<and> n \<le> MAX_FEC_BLOCKS \<and> (\<forall>bl \<in> set blocks. length bl \<le> d * b)"
proof -
  have n: "n = (length payload + (d * b - 1)) div (d * b)" and n4: "n \<le> 4"
    using assms(3-5) by (auto simp: fec_blocks_needed_def Let_def MAX_FEC_BLOCKS_def split: if_splits)
  have pos: "0 < d * b" using assms(1,2) by simp
  have lt: "x < n \<longleftrightarrow> x * (d * b) < length payload" for x
    using ceil_less [OF pos, of x "length payload"] n pos by (simp add: Nat.add_diff_assoc)
  have n0: "0 < n" using lt [of 0] assms(6) by simp
  have up: "length payload \<le> n * (d * b)" using lt [of n] by simp
  have low: "(n - 1) * (d * b) < length payload" using lt [of "n - 1"] n0 by simp
  define a where "a = fec_aligned_size b n (length payload)"
  have bounds: "(n - 1) * a \<le> length payload" "a \<le> d * b" "length payload - (n - 1) * a \<le> d * b"
    using split_bounds [OF assms(1) n4 n0 _ up low] n4 assms(2) by (simp_all add: a_def)
  have all: "\<forall>x < n. x * a \<le> length payload"
  proof (intro allI impI)
    fix x assume "x < n"
    then have "x * a \<le> (n - 1) * a" by (intro mult_le_mono) auto
    then show "x * a \<le> length payload" using bounds(1) by (rule le_trans)
  qed
  have "fec_split b n payload = Some (map (\<lambda>x. if x = n - 1 then drop (x * a) payload
      else take a (drop (x * a) payload)) [0..<n])"
    using all by (auto simp: fec_split_def Let_def a_def [symmetric] not_less)
  moreover have "length bl \<le> d * b"
    if "bl \<in> set (map (\<lambda>x. if x = n - 1 then drop (x * a) payload
          else take a (drop (x * a) payload)) [0..<n])" for bl
    using that bounds by (auto split: if_splits)
  ultimately show ?thesis
    using concat_split [OF all n0] n4 by (intro exI conjI ballI) (auto simp: MAX_FEC_BLOCKS_def)
qed

lemma fec_shards_bound:
  assumes "k \<le> max_data_shards_per_fec_block m fec"
  shows "k + (k * fec + 99) div 100 \<le> m"
proof -
  have "k * (100 + fec) \<le> m * 100"
    using assms by (metis max_data_shards_per_fec_block_def le_trans mult_le_mono1 div_times_less_eq_dividend)
  then have "k * fec + 100 * k \<le> 100 * m" by (simp add: algebra_simps)
  then show ?thesis by linarith
qed

lemma fec_encode_counts:
  "0 < b \<Longrightarrow> fe_data_shards (fec_encode rs payload b fec mn) = (length payload + b - 1) div b"
  unfolding fec_encode_def Let_def
  by (subst ceil_pad [symmetric]) (auto split: option.split)

lemma fec_encode_parity:
  "fe_nr_shards (fec_encode rs payload b fec mn) =
     fe_data_shards (fec_encode rs payload b fec mn) +
     (let k = fe_data_shards (fec_encode rs payload b fec mn); p = (k * fec + 99) div 100 in
      if fec = 0 \<or> mn \<le> p \<or> k = 0 then p else mn)"
  by (simp add: fec_encode_def Let_def adjusted_fec_percentage_for_min_parity_def)

lemma length_fec_shards:
  assumes "0 < b" and "\<And>k d. length (rs k d) = k"
  shows "length (fe_shards (fec_encode rs payload b fec mn)) = fe_nr_shards (fec_encode rs payload b fec mn)"
proof -
  have "length (chunks b (take (length payload div b * b) payload)) = length payload div b"
  proof -
    have "(k * b + b - 1) div b = k" for k
      using assms(1) div_mult_self3 [of b k "b - 1"] by simp
    moreover have "length (take (length payload div b * b) payload) = length payload div b * b"
      by simp
    ultimately show ?thesis unfolding length_chunks [OF assms(1)] by metis
  qed
  then show ?thesis
    using assms(2) by (simp add: fec_encode_def Let_def split: option.split)
qed

section \<open>Sequence numbers and IVs\<close>

text \<open>What the shards of a run number: consecutive sequence numbers and, with a key, consecutive
  IVs, from the session's counters on.\<close>

definition numbered :: "bool \<Rightarrow> int \<Rightarrow> u64 \<Rightarrow> sent_shard list \<Rightarrow> bool" where
  "numbered cipher lowseq counter ps \<longleftrightarrow>
     map ss_sequence ps = map (\<lambda>i. of_int (lowseq + int i)) [0..<length ps] \<and>
     map ss_iv ps = map (\<lambda>i. if cipher then Some (video_iv (counter + of_nat i)) else None) [0..<length ps]"

lemma map_upt_append:
  "map f [0..<m + n] = map f [0..<m] @ map (\<lambda>i. f (m + i)) [0..<n]"
  by (induction n) auto

lemma numbered_append:
  assumes "numbered c l k ps" and "numbered c (l + int (length ps)) (k + of_nat (length ps)) qs"
  shows "numbered c l k (ps @ qs)"
  using assms unfolding numbered_def by (simp add: map_upt_append add.assoc)

lemma numbered_Nil [simp]: "numbered c l k []"
  by (simp add: numbered_def)

lemma stamp_shards_numbered:
  "stamp_shards pl gcm f ts l bi n fe x shards s = (ps, s') \<Longrightarrow>
   length ps = length shards \<and> numbered (vs_cipher s) (l + int x) (vs_gcm_iv_counter s) ps \<and>
   s' = s\<lparr>vs_gcm_iv_counter := vs_gcm_iv_counter s + (if vs_cipher s then of_nat (length shards) else 0)\<rparr>"
proof (induction shards arbitrary: x s ps s')
  case (Cons shard shards)
  obtain p t where p: "stamp_shard pl gcm f ts l bi n fe x shard s = (p, t)" by fastforce
  obtain qs where q: "stamp_shards pl gcm f ts l bi n fe (Suc x) shards t = (qs, s')" "ps = p # qs"
    using Cons.prems p by (auto split: prod.splits)
  note IH = Cons.IH [OF q(1)]
  have pt: "ss_sequence p = of_int (l + int x)"
      "ss_iv p = (if vs_cipher s then Some (video_iv (vs_gcm_iv_counter s)) else None)"
      "t = s\<lparr>vs_gcm_iv_counter := vs_gcm_iv_counter s + (if vs_cipher s then 1 else 0)\<rparr>"
    using p by (auto simp: stamp_shard_def Let_def split: if_splits prod.splits)
  have one: "numbered (vs_cipher s) (l + int x) (vs_gcm_iv_counter s) [p]"
    by (simp add: numbered_def pt)
  have "numbered (vs_cipher s) (l + int x) (vs_gcm_iv_counter s) ([p] @ qs)"
    by (rule numbered_append [OF one]) (use IH pt(3) in \<open>auto simp: numbered_def add.assoc ac_simps\<close>)
  then show ?case using IH pt(3) q(2) by auto
qed simp

definition numbered_state :: "bool \<Rightarrow> int \<Rightarrow> u64 \<Rightarrow> sent_shard list \<Rightarrow> video_session \<Rightarrow> bool" where
  "numbered_state c l k ps s \<longleftrightarrow> numbered c l k ps \<and> vs_cipher s = c \<and>
     vs_lowseq s = l + int (length ps) \<and>
     vs_gcm_iv_counter s = k + (if c then of_nat (length ps) else 0)"

lemma send_block_numbered:
  assumes "send_block pl rs gcm cfg f ts b fec n block fs = Some fs'" and "0 < b"
    and "\<And>k d. length (rs k d) = k" and "numbered_state c l k (fs_shards fs) (fs_session fs)"
  shows "numbered_state c l k (fs_shards fs') (fs_session fs')"
proof (cases "fs_timed_out fs")
  case True
  then show ?thesis using assms by (simp add: send_block_def)
next
  case False
  define s where "s = fs_session fs"
  define fe where "fe = fec_encode rs (mark_block pl f b (vs_lowseq s) (fs_block fs) n block) b fec
    (vc_min_fec_packets cfg)"
  obtain ps t where ps: "stamp_shards pl gcm f ts (vs_lowseq s) (fs_block fs) n fe 0 (fe_shards fe) s = (ps, t)"
    by fastforce
  note st = stamp_shards_numbered [OF ps]
  have len: "length (fe_shards fe) = fe_nr_shards fe"
    unfolding fe_def by (rule length_fec_shards [OF assms(2,3)])
  have fs': "fs_shards fs' = fs_shards fs @ ps" "vs_lowseq (fs_session fs') = vs_lowseq s + int (fe_nr_shards fe)"
      "vs_cipher (fs_session fs') = vs_cipher t" "vs_gcm_iv_counter (fs_session fs') = vs_gcm_iv_counter t"
    using assms(1) False ps
    by (auto simp: send_block_def s_def [symmetric] fe_def [symmetric] Let_def
        split: option.splits prod.splits if_splits)
  have "numbered c l k (fs_shards fs @ ps)"
    by (rule numbered_append)
      (use st assms(4) in \<open>auto simp: numbered_state_def s_def numbered_def split: if_splits\<close>)
  then show ?thesis
    using fs' st len assms(4) by (auto simp: numbered_state_def s_def)
qed

lemma send_blocks_numbered:
  assumes "0 < b" and "\<And>k d. length (rs k d) = k"
  shows "send_blocks (send_block pl rs gcm cfg f ts b fec n) blocks fs = Some fs' \<Longrightarrow>
    numbered_state c l k (fs_shards fs) (fs_session fs) \<Longrightarrow>
    numbered_state c l k (fs_shards fs') (fs_session fs')"
proof (induction blocks arbitrary: fs)
  case (Cons block blocks)
  then show ?case
    using send_block_numbered [OF _ assms] by (auto split: option.splits)
qed simp

lemma video_admit_const:
  "video_admit cfg d f s = (r, t) \<Longrightarrow>
   vs_cipher t = vs_cipher s \<and> vs_lowseq t = vs_lowseq s \<and> vs_gcm_iv_counter t = vs_gcm_iv_counter s"
  by (auto simp: video_admit_def Let_def split: if_splits)

lemma video_step_numbered:
  assumes "0 < video_blocksize pl cfg" and "\<And>k d. length (rs k d) = k"
    and "video_step pl rs gcm cfg x s = Some (ps, t)"
  shows "numbered_state (vs_cipher s) (vs_lowseq s) (vs_gcm_iv_counter s) ps t"
proof -
  obtain env f where x: "x = (env, f)" by fastforce
  obtain adm u where a: "video_admit cfg (ve_dequeue_time env) f s = (adm, u)" by fastforce
  note u = video_admit_const [OF a]
  show ?thesis
  proof (cases adm)
    case False
    then show ?thesis using assms(3) x a u by (simp add: video_step_def numbered_state_def)
  next
    case True
    then obtain fs where sf: "send_frame pl rs gcm cfg (ve_latency_us env) (ve_timestamp env) (ve_now env)
        (ve_after env) (ve_outcomes env) f u = Some (fs, t)" and ps: "ps = fs_shards fs"
      using assms(3) x a by (auto simp: video_step_def)
    obtain n fec where n: "fec_blocks_needed (pl_shards_max pl) (video_blocksize pl cfg) (vc_fec_percentage cfg)
        (length (packetize pl cfg (ve_latency_us env) f)) = (n, fec)" by fastforce
    obtain blocks where b: "fec_split (video_blocksize pl cfg) n (packetize pl cfg (ve_latency_us env) f) = Some blocks"
      using sf n by (auto simp: send_frame_def Let_def split: option.splits)
    let ?fs0 = "\<lparr>fs_session = u, fs_block = 0, fs_outcomes = ve_outcomes env, fs_timed_out = False,
                  fs_pace = pace_new, fs_shards = []\<rparr>"
    have run: "send_blocks (send_block pl rs gcm cfg f (ve_timestamp env) (video_blocksize pl cfg) fec n) blocks
        ?fs0 = Some fs" and t: "t = (fs_session fs)\<lparr>vs_next_frame_start := vs_next_frame_start t\<rparr>"
      using sf n b by (auto simp: send_frame_def Let_def split: option.splits)
    have "numbered_state (vs_cipher s) (vs_lowseq s) (vs_gcm_iv_counter s) (fs_shards ?fs0) (fs_session ?fs0)"
      using u by (simp add: numbered_state_def)
    from send_blocks_numbered [OF assms(1,2) run this]
    show ?thesis unfolding ps by (subst t) (simp add: numbered_state_def)
  qed
qed

lemma video_run_numbered:
  assumes "0 < video_blocksize pl cfg" and "\<And>k d. length (rs k d) = k"
  shows "video_run pl rs gcm cfg xs s = Some (pss, t) \<Longrightarrow>
    numbered_state (vs_cipher s) (vs_lowseq s) (vs_gcm_iv_counter s) (concat pss) t"
proof (induction xs arbitrary: s pss)
  case (Cons x xs)
  then obtain ps u qss where st: "video_step pl rs gcm cfg x s = Some (ps, u)"
      and r: "video_run pl rs gcm cfg xs u = Some (qss, t)" "pss = ps # qss"
    by (auto split: option.splits)
  note a = video_step_numbered [OF assms st] and b = Cons.IH [OF r(1)]
  have "numbered (vs_cipher s) (vs_lowseq s) (vs_gcm_iv_counter s) (ps @ concat qss)"
    by (rule numbered_append)
      (use a b in \<open>auto simp: numbered_state_def numbered_def split: if_splits\<close>)
  then show ?case using a b r(2) by (auto simp: numbered_state_def)
qed (simp add: numbered_state_def)

lemma video_iv_inj: "video_iv a = video_iv b \<Longrightarrow> a = b"
  by (rule le_bytes_inj [of 8]) (simp_all add: video_iv_def)

section \<open>What pacing guarantees\<close>

definition in_time :: "nat \<times> nat \<times> nat \<times> bool \<Rightarrow> bool" where
  "in_time e = (case e of (g, start, n, late) \<Rightarrow> \<not> late)"

text \<open>The shards sent in time between the waits \<open>g\<close> and \<open>g + 1\<close>, and all of them in order.\<close>

definition group_total :: "nat \<Rightarrow> (nat \<times> nat \<times> nat \<times> bool) list \<Rightarrow> nat" where
  "group_total g log = (\<Sum>e\<leftarrow>filter in_time log. case e of (g', start, n, late) \<Rightarrow> if g' = g then n else 0)"

definition shards_sent :: "(nat \<times> nat \<times> nat \<times> bool) list \<Rightarrow> nat list" where
  "shards_sent log = concat (map (\<lambda>(g, start, n, late). [start..<start + n]) (filter in_time log))"

definition batch_ok :: "nat \<Rightarrow> nat \<times> nat \<times> nat \<times> bool \<Rightarrow> bool" where
  "batch_ok batch e = (case e of (g, start, n, late) \<Rightarrow> 0 < n \<and> n \<le> batch)"

definition pace_inv :: "nat \<Rightarrow> nat \<Rightarrow> pace \<Rightarrow> bool" where
  "pace_inv limit batch p \<longleftrightarrow>
     list_all (batch_ok batch) (pc_log p) \<and>
     list_all (\<lambda>e. fst e \<le> length (pc_waits p)) (pc_log p) \<and>
     (\<forall>g. group_total g (pc_log p) \<le> limit) \<and>
     group_total (length (pc_waits p)) (pc_log p) = pc_group p \<and>
     shards_sent (pc_log p) = [0..<pc_next p]"

lemma group_total_snoc [simp]:
  "group_total g (log @ [(h, start, n, late)]) =
   group_total g log + (if \<not> late \<and> h = g then n else 0)"
  by (simp add: group_total_def in_time_def)

lemma shards_sent_snoc [simp]:
  "shards_sent (log @ [(h, start, n, late)]) =
   shards_sent log @ (if late then [] else [start..<start + n])"
  by (simp add: shards_sent_def in_time_def)

lemma group_total_new: "list_all (\<lambda>e. fst e \<le> m) log \<Longrightarrow> group_total (Suc m) log = 0"
  by (induction log) (auto simp: group_total_def)

lemma pace_wait_inv:
  assumes "pace_inv limit batch p" and "0 < limit"
  shows "pace_inv limit batch (pace_wait limit p) \<and> pc_group (pace_wait limit p) < limit \<and>
    pc_next (pace_wait limit p) = pc_next p"
proof -
  have "list_all (\<lambda>e. fst e \<le> Suc (length (pc_waits p))) (pc_log p)"
    using assms(1) by (auto simp: pace_inv_def list_all_iff)
  then show ?thesis
    using assms group_total_new [of "length (pc_waits p)" "pc_log p"]
    by (auto simp: pace_wait_def pace_inv_def)
qed

lemma pace_send_inv:
  assumes "pace_inv limit batch p" and "0 < n" and "n \<le> batch" and "pc_group p + n \<le> limit"
  shows "pace_inv limit batch (pace_send n late p) \<and>
    pc_next (pace_send n late p) = pc_next p + (if late then 0 else n)"
  using assms upt_add_eq_append [of 0 "pc_next p" n]
  by (auto simp: pace_send_def pace_inv_def Let_def batch_ok_def)

lemma pace_loop_ends:
  assumes "0 < limit" and "0 < batch"
  shows "pace_inv limit batch p \<Longrightarrow> pc_next p \<le> Suc x \<Longrightarrow>
    \<exists>late outs p'. pace_loop limit batch x outcomes p = Some (late, outs, p') \<and>
      pace_inv limit batch p' \<and> pc_next p' \<le> Suc x \<and> (late \<or> pc_next p' = Suc x)"
proof (induction "Suc x - pc_next p" arbitrary: p outcomes rule: less_induct)
  case less
  show ?case
  proof (cases "x < pc_next p")
    case True
    then show ?thesis using less.prems by (subst pace_loop.simps) auto
  next
    case False
    define w where "w = pace_wait limit p"
    have w: "pace_inv limit batch w" "pc_group w < limit" "pc_next w = pc_next p"
      using pace_wait_inv [OF less.prems(1) assms(1)] by (auto simp: w_def)
    define n where "n = next_pacing_batch_size (x - pc_next w + 1) batch (pc_group w) limit"
    have n: "0 < n" "n \<le> batch" "pc_group w + n \<le> limit" "pc_next w + n \<le> Suc x"
      using w False assms by (auto simp: n_def next_pacing_batch_size_def)
    define late where "late = (outcomes \<noteq> [] \<and> hd outcomes)"
    define q where "q = pace_send n late w"
    have q: "pace_inv limit batch q" "pc_next q = pc_next w + (if late then 0 else n)"
      using pace_send_inv [OF w(1) n(1-3), of late] by (auto simp: q_def)
    have step: "pace_loop limit batch x outcomes p =
        (if late then Some (True, tl outcomes, q) else pace_loop limit batch x (tl outcomes) q)"
      using False n(1)
      apply (subst pace_loop.simps)
      unfolding Let_def w_def [symmetric] n_def [symmetric] late_def [symmetric] q_def [symmetric]
      by simp
    show ?thesis
    proof (cases late)
      case True
      then show ?thesis using step q n w by auto
    next
      case False
      have "\<exists>l outs p'. pace_loop limit batch x (tl outcomes) q = Some (l, outs, p') \<and>
          pace_inv limit batch p' \<and> pc_next p' \<le> Suc x \<and> (l \<or> pc_next p' = Suc x)"
        using False q n w less.prems(2) \<open>\<not> x < pc_next p\<close> by (intro less.hyps) auto
      then show ?thesis using step False by simp
    qed
  qed
qed

lemma pace_shards_ends:
  assumes "0 < limit" and "0 < batch" and "xs = [k..<sz]"
  shows "pace_inv limit batch p \<Longrightarrow> pc_next p \<le> k \<Longrightarrow>
    (\<exists>late outs p'. pace_shards limit batch sz xs outcomes t p = Some (late, outs, p') \<and>
      pace_inv limit batch p' \<and> (t \<longrightarrow> late) \<and> (late \<or> sz \<le> k \<or> pc_next p' = sz))"
  using assms(3)
proof (induction xs arbitrary: k outcomes t p)
  case Nil
  then have "length [k..<sz] = 0" by (simp only: list.size flip: Nil(3))
  then have "sz \<le> k" by simp
  then show ?case using Nil by auto
next
  case (Cons x xs)
  then have k: "x = k" "k < sz" "xs = [Suc k..<sz]"
    using Cons.prems(3) [symmetric] by (auto simp: upt_eq_Cons_conv)
  show ?case
  proof (cases "batch \<le> x + 1 - pc_next p \<or> x + 1 = sz")
    case True
    obtain l outs q where q: "pace_loop limit batch x outcomes p = Some (l, outs, q)"
        "pace_inv limit batch q" "pc_next q \<le> Suc x" "l \<or> pc_next q = Suc x"
      using pace_loop_ends [OF assms(1,2) Cons.prems(1), of x outcomes] Cons.prems(2) k by auto
    obtain late outs' p' where r: "pace_shards limit batch sz xs outs (t \<or> l) q = Some (late, outs', p')"
        "pace_inv limit batch p'" "(t \<or> l) \<longrightarrow> late" "late \<or> sz \<le> Suc k \<or> pc_next p' = sz"
      using Cons.IH [OF q(2), of "Suc k" outs "t \<or> l"] q(3) k by auto
    have "late \<or> pc_next p' = sz"
    proof (cases "Suc k = sz")
      case True
      then show ?thesis using r q k by auto
    qed (use r k in auto)
    then show ?thesis using True q(1) r by auto
  next
    case False
    then show ?thesis using Cons.IH [OF Cons.prems(1), of "Suc k" outcomes t] Cons.prems(2) k by auto
  qed
qed

lemma pace_new_inv: "pace_inv limit batch pace_new"
  by (simp add: pace_inv_def pace_new_def group_total_def shards_sent_def)

section \<open>Properties\<close>

text \<open>C2: Packetizing a frame cuts the short header followed by the payload into pieces of one packet's
  payload size, each after room for the packet header, and loses nothing; the length of the last
  piece is the \<open>lastPayloadLen\<close> the short header announces. (\<open>packetsize\<close> less than 2^16, and the
  RTP part of the block is what the packet struct adds to \<open>NV_VIDEO_PACKET\<close>.)\<close>

theorem packetize_pieces:
  assumes "video_blocksize pl cfg - pl_raw_size pl = vc_packetsize cfg - pl_nv_size pl"
    and "0 < vc_packetsize cfg - pl_nv_size pl" and "vc_packetsize cfg - pl_nv_size pl < 65536"
  shows "(let len = last_payload_len pl cfg (length (video_payload f));
      stream = video_short_frame_header (frame_latency us) (frame_type f) len @ video_payload f;
      pieces = chunks (vc_packetsize cfg - pl_nv_size pl) stream in
    packetize pl cfg us f = concat (map (\<lambda>c. replicate (pl_raw_size pl) 0 @ c) pieces) \<and>
    concat pieces = stream \<and> length (last pieces) = unat len)"
proof -
  define len where "len = last_payload_len pl cfg (length (video_payload f))"
  define stream where
    "stream = video_short_frame_header (frame_latency us) (frame_type f) len @ video_payload f"
  define pieces where "pieces = chunks (vc_packetsize cfg - pl_nv_size pl) stream"
  let ?sl = "vc_packetsize cfg - pl_nv_size pl"
  have "length stream = length (video_payload f) + 8"
    by (simp add: stream_def video_short_frame_header_def)
  moreover have "stream \<noteq> []" by (simp add: stream_def video_short_frame_header_def)
  ultimately have "length (last pieces) =
      (if (length (video_payload f) + 8) mod ?sl = 0 then ?sl else (length (video_payload f) + 8) mod ?sl)"
    using last_chunk [OF assms(2), of stream] by (simp add: pieces_def)
  moreover have "(length (video_payload f) + 8) mod ?sl < 65536"
    using assms(2,3) by (meson less_trans mod_less_divisor)
  then have "unat (of_nat ((length (video_payload f) + 8) mod ?sl) :: u16) = (length (video_payload f) + 8) mod ?sl"
    and "unat (of_nat ?sl :: u16) = ?sl"
    using assms(3) by (simp_all add: unat_of_nat)
  ultimately have "length (last pieces) = unat len"
    by (auto simp: len_def last_payload_len_def Let_def unat_eq_0 [symmetric])
  then show ?thesis
    using concat_and_insert_stuffed [OF assms(2)] concat_chunks [OF assms(2)]
    by (simp add: packetize_def Let_def assms(1) stuffed_def pieces_def stream_def len_def)
qed

definition demo_layout :: packet_layout where
  "demo_layout = \<lparr>pl_raw_size = 4, pl_nv_size = 2, pl_max_rtp_header = 2, pl_shards_max = 255,
     pl_pic_data = 1, pl_sof = 4, pl_eof = 2, pl_extension = 0x10,
     pl_frameIndex = \<lambda>_ b. b, pl_streamPacketIndex = \<lambda>_ b. b, pl_multiFecFlags = \<lambda>_ b. b,
     pl_multiFecBlocks = \<lambda>_ b. b, pl_flags = \<lambda>_ b. b, pl_fecInfo = \<lambda>_ b. b, pl_rtp_header = \<lambda>_ b. b,
     pl_rtp_sequence = \<lambda>_ b. b, pl_rtp_timestamp = \<lambda>_ b. b\<rparr>"

definition demo_video_cfg :: video_config where
  "demo_video_cfg = \<lparr>vc_packetsize = 8, vc_framerate = 60, vc_framerate_x100 = 0, vc_aggressive = False,
     vc_fec_percentage = 20, vc_min_fec_packets = 0, vc_rate_cap_pct = 80\<rparr>"

definition demo_frame :: video_frame where
  "demo_frame = \<lparr>vf_data = [1, 2, 3], vf_frame_index = 1, vf_idr = True,
     vf_after_ref_invalidation = False, vf_replacements = [], vf_enqueued_at = None,
     vf_frame_timestamp = None\<rparr>"

theorem packetize_pieces_witness:
  "(let len = last_payload_len demo_layout demo_video_cfg (length (video_payload demo_frame));
      stream = video_short_frame_header (frame_latency None) (frame_type demo_frame) len @
        video_payload demo_frame;
      pieces = chunks (vc_packetsize demo_video_cfg - pl_nv_size demo_layout) stream in
    packetize demo_layout demo_video_cfg None demo_frame =
      concat (map (\<lambda>c. replicate (pl_raw_size demo_layout) 0 @ c) pieces) \<and>
    concat pieces = stream \<and> length (last pieces) = unat len)"
  by (rule packetize_pieces)
    (simp_all add: demo_layout_def demo_video_cfg_def video_blocksize_def)

text \<open>C4: A frame that needs no more than 4 FEC blocks is split without an exception: the blocks put
  together are the frame, there are as many as announced, and every block with its parity (at the
  configured percentage) fits in the shards the Reed-Solomon code can number.\<close>

theorem fec_blocks_fit:
  assumes "4 \<le> b" and "4 \<le> max_data_shards_per_fec_block m fec" and "0 < fec"
    and "fec_blocks_needed m b fec (length payload) = (n, fec)" and "payload \<noteq> []"
  shows "\<exists>blocks. fec_split b n payload = Some blocks \<and> concat blocks = payload \<and>
    length blocks = n \<and> n \<le> MAX_FEC_BLOCKS \<and>
    (\<forall>bl \<in> set blocks. fe_nr_shards (fec_encode rs bl b fec 0) \<le> m)"
proof -
  obtain blocks where bl: "fec_split b n payload = Some blocks" "concat blocks = payload"
      "length blocks = n" "n \<le> MAX_FEC_BLOCKS"
      "\<forall>bl \<in> set blocks. length bl \<le> max_data_shards_per_fec_block m fec * b"
    using fec_split_ok [OF assms(1,2) refl assms(4,3,5)] by blast
  have "fe_nr_shards (fec_encode rs c b fec 0) \<le> m" if "c \<in> set blocks" for c
  proof -
    have "fe_data_shards (fec_encode rs c b fec 0) \<le> max_data_shards_per_fec_block m fec"
      using ceil_le [of b "length c"] bl(5) that assms(1) by (simp add: fec_encode_counts)
    then show ?thesis
      using fec_shards_bound [of "fe_data_shards (fec_encode rs c b fec 0)" m fec]
      by (simp add: fec_encode_parity Let_def)
  qed
  then show ?thesis using bl by blast
qed

theorem fec_blocks_fit_witness:
  "\<exists>blocks. fec_split 4 2 (replicate 900 0) = Some blocks \<and> concat blocks = replicate 900 0"
  using fec_blocks_fit [of 4 255 20 "replicate 900 0" 2]
  by (auto simp: max_data_shards_per_fec_block_def fec_blocks_needed_def MAX_FEC_BLOCKS_def)

text \<open>The minimum of parity packets a client asks for is not limited by the shards the code can
  number nor by the 8 bits of the percentage: 212 data shards with a minimum of 100 make 312 shards
  in one block, and one data shard with a minimum of 3 makes a percentage of 300, whose bit 8 falls
  in the shard index, so that shards 0 and 1 of the block carry the same index field.\<close>

theorem min_parity_overflows:
  "fe_nr_shards (fec_encode rs (replicate 212 0) 1 20 100) = 312 \<and>
   fe_percentage (fec_encode rs [0] 1 20 3) = 300 \<and>
   (case fec_encode rs [0] 1 20 3 of fe \<Rightarrow>
     take_bit 10 (drop_bit 12 (fec_info 0 fe)) = take_bit 10 (drop_bit 12 (fec_info 1 fe)))"
  by (simp add: fec_encode_def adjusted_fec_percentage_for_min_parity_def Let_def fec_info_def)

text \<open>C3: Over any run of frames the shards prepared for the client carry consecutive RTP sequence
  numbers, across blocks and frames, and with a session key the IVs of consecutive values of the
  64-bit counter, one each; different counter values make different IVs.\<close>

theorem video_numbering:
  assumes "0 < video_blocksize pl cfg" and "\<forall>k d. length (rs k d) = k"
  shows "case video_run pl rs gcm cfg xs s of
      None \<Rightarrow> True
    | Some (pss, t) \<Rightarrow>
        map ss_sequence (concat pss) =
          map (\<lambda>i. of_int (vs_lowseq s + int i)) [0..<length (concat pss)] \<and>
        map ss_iv (concat pss) =
          map (\<lambda>i. if vs_cipher s then Some (video_iv (vs_gcm_iv_counter s + of_nat i)) else None)
            [0..<length (concat pss)] \<and>
        vs_lowseq t = vs_lowseq s + int (length (concat pss)) \<and>
        (video_iv a = video_iv b \<longleftrightarrow> a = b)"
proof (cases "video_run pl rs gcm cfg xs s")
  case (Some r)
  obtain pss t where r: "r = (pss, t)" by fastforce
  have "numbered_state (vs_cipher s) (vs_lowseq s) (vs_gcm_iv_counter s) (concat pss) t"
    by (rule video_run_numbered [OF assms(1) _ Some [unfolded r]]) (simp add: assms(2))
  then show ?thesis
    using Some r video_iv_inj by (auto simp: numbered_state_def numbered_def)
qed simp

definition demo_video_session :: video_session where
  "demo_video_session = \<lparr>vs_lowseq = 65535, vs_cipher = True, vs_gcm_iv_counter = 0,
     vs_link_speed_bps = 1000000000, vs_next_frame_start = 0, vs_drop_until_idr = False,
     vs_idr_events = event_new\<rparr>"

definition demo_env :: frame_env where
  "demo_env = \<lparr>ve_dequeue_time = 0, ve_latency_us = None, ve_timestamp = 0, ve_now = 0, ve_after = 0,
     ve_outcomes = []\<rparr>"

theorem video_numbering_witness:
  "case video_run demo_layout (\<lambda>k d. replicate k []) (\<lambda>iv b. ([], b)) demo_video_cfg
      [(demo_env, demo_frame)] demo_video_session of
    None \<Rightarrow> True
  | Some (pss, t) \<Rightarrow> vs_lowseq t = vs_lowseq demo_video_session + int (length (concat pss))"
proof -
  have pos: "0 < video_blocksize demo_layout demo_video_cfg"
    by (simp add: video_blocksize_def demo_layout_def demo_video_cfg_def)
  show ?thesis
    using video_numbering [OF pos, where rs = "\<lambda>k d. replicate k []" and gcm = "\<lambda>iv b. ([], b)"
        and xs = "[(demo_env, demo_frame)]" and s = demo_video_session]
    by (auto simp del: video_run.simps split: option.splits prod.splits)
qed



text \<open>A late batch does not abandon the frame's current block: here the first of three shards is
  late, and the loop goes on to offer that shard and the other two again.\<close>

theorem late_batch_is_resent:
  "case pace_block 1 1 3 [True] pace_new of
     Some (late, outs, p) \<Rightarrow> late \<and> map snd (pc_log p) =
       [(0, 1, True), (0, 1, False), (1, 1, False), (2, 1, False)]
   | None \<Rightarrow> False"
  by (simp add: pace_block_def pace_new_def upt_rec [of _ 3] pace_loop.simps pace_wait_def pace_send_def
      next_pacing_batch_size_def Let_def)

end
