(* ===== verification/AudioStream.thy ===== *)
theory AudioStream
  imports Prelude
begin

text \<open>
  The audio sender of \<^verbatim>\<open>src/stream.cpp\<close> (\<open>audioBroadcastThread\<close>): each encoded packet gets the RTP
  sequence number and timestamp of its capture index, packets that were dropped before included;
  it is encrypted when the session asks for it and kept in the shard buffer of its place in the
  FEC block, and the last packet of a block adds the parity packets, provided every shard of the
  block is fresh. The shard counts belong to the protocol library, AES-CBC and the Reed-Solomon
  code to others: parameters.
\<close>

record audio_params =
  ap_data_shards :: nat
  ap_fec_shards :: nat
  ap_packet_duration :: u64
  ap_encrypted :: bool
  ap_cbc :: "bytes \<Rightarrow> bytes \<Rightarrow> bytes option"
  ap_rs :: "bytes list \<Rightarrow> bytes list"

record audio_session =
  au_sequenceNumber :: u16
  au_avRiKeyId :: u32
  au_timestamp :: u32
  au_next_frame_index :: u64
  au_fec_block_valid :: bool
  au_shards :: "bytes list"
  au_baseSequenceNumber :: u16
  au_baseTimestamp :: u32

datatype audio_out =
    AudioData u16 u32 bytes
  | AudioFec u16 u8 u16 u32 bytes

definition audio_session_new :: "audio_params \<Rightarrow> u32 \<Rightarrow> audio_session" where
  "audio_session_new ap key = \<lparr>au_sequenceNumber = 0, au_avRiKeyId = key, au_timestamp = 0,
     au_next_frame_index = 0, au_fec_block_valid = False,
     au_shards = replicate (ap_data_shards ap + ap_fec_shards ap) (replicate 2048 0),
     au_baseSequenceNumber = 0, au_baseTimestamp = 0\<rparr>"

definition audio_iv :: "u32 \<Rightarrow> bytes" where
  "audio_iv n = be_bytes 4 n @ replicate 12 0"

definition encode_audio :: "audio_params \<Rightarrow> bytes \<Rightarrow> bytes \<Rightarrow> bytes option" where
  "encode_audio ap iv plaintext = (if \<not> ap_encrypted ap then Some plaintext else ap_cbc ap iv plaintext)"

text \<open>Write into a shard's buffer: what is beyond the new bytes stays.\<close>

definition write_shard :: "nat \<Rightarrow> bytes \<Rightarrow> bytes list \<Rightarrow> bytes list" where
  "write_shard i b shards = shards[i := b @ drop (length b) (shards ! i)]"

text \<open>The gap: \<open>sequenceNumber\<close> and \<open>timestamp\<close> advance by the packets that never arrived.\<close>

definition audio_gap :: "audio_params \<Rightarrow> u64 \<Rightarrow> audio_session \<Rightarrow> audio_session" where
  "audio_gap ap frame_index s =
    (let dropped = frame_index - au_next_frame_index s in
     s\<lparr>au_sequenceNumber := au_sequenceNumber s + ucast dropped,
       au_timestamp := au_timestamp s + ucast (dropped * ap_packet_duration ap),
       au_next_frame_index := frame_index + 1,
       au_fec_block_valid := (au_fec_block_valid s \<and> dropped = 0)\<rparr>)"

text \<open>The packet's bytes go into their shard, and the numbers move on.\<close>

definition audio_store :: "audio_params \<Rightarrow> bytes \<Rightarrow> audio_session \<Rightarrow> audio_session" where
  "audio_store ap b s = s\<lparr>
     au_shards := write_shard (unat (au_sequenceNumber s) mod ap_data_shards ap) b (au_shards s),
     au_sequenceNumber := au_sequenceNumber s + 1,
     au_timestamp := au_timestamp s + ucast (ap_packet_duration ap)\<rparr>"

text \<open>The FEC header is initialised by the first packet of a block.\<close>

definition audio_block_start :: "audio_params \<Rightarrow> u16 \<Rightarrow> u32 \<Rightarrow> audio_session \<Rightarrow> audio_session" where
  "audio_block_start ap sequenceNumber timestamp s =
    (if unat sequenceNumber mod ap_data_shards ap = 0
     then s\<lparr>au_baseSequenceNumber := sequenceNumber, au_baseTimestamp := timestamp,
            au_fec_block_valid := True\<rparr>
     else s)"

text \<open>The parity packets after the last packet of a fresh block.\<close>

definition audio_parity ::
    "audio_params \<Rightarrow> u16 \<Rightarrow> bytes \<Rightarrow> audio_session \<Rightarrow> audio_out list \<times> audio_session" where
  "audio_parity ap sequenceNumber b s =
    (if (unat sequenceNumber + 1) mod ap_data_shards ap = 0 \<and> au_fec_block_valid s then
       let parity = ap_rs ap (map (take (length b)) (take (ap_data_shards ap) (au_shards s))) in
       (map (\<lambda>x. AudioFec (sequenceNumber + of_nat x + 1) (of_nat x) (au_baseSequenceNumber s)
                   (au_baseTimestamp s) (take (length b) (parity ! x))) [0..<ap_fec_shards ap],
        s\<lparr>au_shards := fold (\<lambda>x. write_shard (ap_data_shards ap + x) (parity ! x))
             [0..<ap_fec_shards ap] (au_shards s)\<rparr>)
     else ([], s))"

text \<open>Send one packet at the current numbers: \<open>None\<close> when the encryption fails, which ends the thread.\<close>

definition audio_send ::
    "audio_params \<Rightarrow> bytes \<Rightarrow> audio_session \<Rightarrow> (audio_out list \<times> audio_session) option" where
  "audio_send ap packet_data s =
    (let sequenceNumber = au_sequenceNumber s; timestamp = au_timestamp s in
     case encode_audio ap (audio_iv (au_avRiKeyId s + ucast sequenceNumber)) packet_data of
       None \<Rightarrow> None
     | Some b \<Rightarrow>
         let s = audio_block_start ap sequenceNumber timestamp (audio_store ap b s);
             (fec, s) = audio_parity ap sequenceNumber b s in
         Some (AudioData sequenceNumber timestamp b # fec, s))"

definition audio_step ::
    "audio_params \<Rightarrow> u64 \<times> bytes \<Rightarrow> audio_session \<Rightarrow> (audio_out list \<times> audio_session) option" where
  "audio_step ap p s =
    (if fst p < au_next_frame_index s then Some ([], s)
     else audio_send ap (snd p) (audio_gap ap (fst p) s))"

fun audio_run ::
    "audio_params \<Rightarrow> (u64 \<times> bytes) list \<Rightarrow> audio_session \<Rightarrow> audio_out list list \<times> audio_session" where
  "audio_run ap [] s = ([], s)"
| "audio_run ap (p # ps) s =
    (case audio_step ap p s of
       None \<Rightarrow> ([], s)
     | Some (out, s) \<Rightarrow> (let (outs, s) = audio_run ap ps s in (out # outs, s)))"

section \<open>Numbering and freshness\<close>

text \<open>
  The invariant: the next sequence number and timestamp are those of the next capture index, and
  while the FEC block is valid the shard buffers hold the packets of the block, all of them sent.
\<close>

definition audio_fresh :: "audio_params \<Rightarrow> audio_out list \<Rightarrow> bytes list \<Rightarrow> nat \<Rightarrow> u64 \<Rightarrow> bool" where
  "audio_fresh ap sent sh m fi \<longleftrightarrow> (\<forall>k < m. \<exists>b.
     AudioData (ucast (fi - of_nat (m - k))) (ucast ((fi - of_nat (m - k)) * ap_packet_duration ap)) b
       \<in> set sent \<and> take (length b) (sh ! k) = b)"

definition audio_inv :: "audio_params \<Rightarrow> audio_out list \<Rightarrow> audio_session \<Rightarrow> bool" where
  "audio_inv ap sent s \<longleftrightarrow>
     au_sequenceNumber s = ucast (au_next_frame_index s) \<and>
     au_timestamp s = ucast (au_next_frame_index s * ap_packet_duration ap) \<and>
     length (au_shards s) = ap_data_shards ap + ap_fec_shards ap \<and>
     (au_fec_block_valid s \<longrightarrow>
       (let m = unat (au_sequenceNumber s) mod ap_data_shards ap; fi = au_next_frame_index s in
        audio_fresh ap sent (au_shards s) m fi \<and>
        (m \<noteq> 0 \<longrightarrow> au_baseSequenceNumber s = ucast (fi - of_nat m) \<and>
           au_baseTimestamp s = ucast ((fi - of_nat m) * ap_packet_duration ap))))"

text \<open>What a parity packet sent after the data packet \<open>b\<close> of index \<open>fi\<close> must be.\<close>

definition parity_ok :: "audio_params \<Rightarrow> audio_out list \<Rightarrow> u64 \<Rightarrow> bytes \<Rightarrow> audio_out \<Rightarrow> bool" where
  "parity_ok ap sent fi b p = (case p of
     AudioData sq ts d \<Rightarrow> sq = ucast fi \<and> ts = ucast (fi * ap_packet_duration ap) \<and> d = b
   | AudioFec sq x base bts pl \<Rightarrow>
       base = ucast (fi + 1 - of_nat (ap_data_shards ap)) \<and>
       bts = ucast ((fi + 1 - of_nat (ap_data_shards ap)) * ap_packet_duration ap) \<and>
       (\<exists>ds. length ds = ap_data_shards ap \<and>
         (\<forall>k < length ds. AudioData (ucast (fi + 1 - of_nat (length ds - k)))
            (ucast ((fi + 1 - of_nat (length ds - k)) * ap_packet_duration ap)) (ds ! k) \<in> set sent) \<and>
         ((\<forall>d \<in> set ds. length d = length b) \<longrightarrow>
            (\<exists>j < ap_fec_shards ap. x = of_nat j \<and> sq = ucast fi + of_nat j + 1 \<and>
               pl = take (length b) (ap_rs ap ds ! j)))))"

lemma audio_gap_inv:
  assumes "audio_inv ap sent s" and "\<not> fi < au_next_frame_index s"
  shows "au_sequenceNumber (audio_gap ap fi s) = ucast fi"
    and "au_timestamp (audio_gap ap fi s) = ucast (fi * ap_packet_duration ap)"
    and "au_fec_block_valid (audio_gap ap fi s) \<Longrightarrow> fi = au_next_frame_index s \<and> au_fec_block_valid s"
proof -
  have u16: "(ucast (a :: u64) :: u16) + ucast b = ucast (a + b)" for a b by (simp add: ucast_plus)
  have u32: "(ucast (a :: u64) :: u32) + ucast b = ucast (a + b)" for a b by (simp add: ucast_plus)
  show "au_sequenceNumber (audio_gap ap fi s) = ucast fi"
    using assms by (simp add: audio_gap_def Let_def audio_inv_def u16)
  show "au_timestamp (audio_gap ap fi s) = ucast (fi * ap_packet_duration ap)"
    using assms by (simp add: audio_gap_def Let_def audio_inv_def u32 algebra_simps)
  show "au_fec_block_valid (audio_gap ap fi s) \<Longrightarrow> fi = au_next_frame_index s \<and> au_fec_block_valid s"
    by (simp add: audio_gap_def Let_def)
qed

lemma audio_fresh_step:
  assumes "audio_fresh ap sent sh m fi" and "m < length sh"
  shows "audio_fresh ap (sent @ [AudioData (ucast fi) (ucast (fi * ap_packet_duration ap)) b])
    (write_shard m b sh) (m + 1) (fi + 1)"
  unfolding audio_fresh_def
proof (intro allI impI)
  fix k assume k: "k < m + 1"
  show "\<exists>d. AudioData (ucast (fi + 1 - of_nat (m + 1 - k)))
      (ucast ((fi + 1 - of_nat (m + 1 - k)) * ap_packet_duration ap)) d
      \<in> set (sent @ [AudioData (ucast fi) (ucast (fi * ap_packet_duration ap)) b]) \<and>
      take (length d) (write_shard m b sh ! k) = d"
  proof (cases "k = m")
    case True
    then show ?thesis using assms(2) by (auto simp: write_shard_def intro!: exI [of _ b])
  next
    case False
    then have "k < m" using k by simp
    then have eq: "fi + 1 - of_nat (m + 1 - k) = fi - of_nat (m - k)" by (simp add: Suc_diff_le)
    obtain d where "AudioData (ucast (fi - of_nat (m - k)))
        (ucast ((fi - of_nat (m - k)) * ap_packet_duration ap)) d \<in> set sent"
      "take (length d) (sh ! k) = d"
      using assms(1) \<open>k < m\<close> unfolding audio_fresh_def by blast
    then show ?thesis unfolding eq using False by (intro exI [of _ d]) (simp add: write_shard_def)
  qed
qed

lemma audio_fresh_mono: "audio_fresh ap sent sh m fi \<Longrightarrow> audio_fresh ap (sent @ out) sh m fi"
  unfolding audio_fresh_def by fastforce

lemma audio_fresh_shards:
  assumes "audio_fresh ap sent sh m fi" and "m \<le> length sh"
  obtains ds where "length ds = m"
    and "\<forall>k < m. AudioData (ucast (fi - of_nat (m - k)))
      (ucast ((fi - of_nat (m - k)) * ap_packet_duration ap)) (ds ! k) \<in> set sent"
    and "(\<forall>d \<in> set ds. length d = n) \<longrightarrow> map (take n) (take m sh) = ds"
proof -
  obtain f where f: "\<forall>k < m. AudioData (ucast (fi - of_nat (m - k)))
      (ucast ((fi - of_nat (m - k)) * ap_packet_duration ap)) (f k) \<in> set sent \<and>
      take (length (f k)) (sh ! k) = f k"
    using assms(1) unfolding audio_fresh_def by metis
  have "map (take n) (take m sh) = map f [0..<m]" if "\<forall>d \<in> set (map f [0..<m]). length d = n"
  proof (rule nth_equalityI)
    fix i assume "i < length (map (take n) (take m sh))"
    then have "i < m" by simp
    then show "map (take n) (take m sh) ! i = map f [0..<m] ! i"
      using f that assms(2) by (simp add: nth_map)
  qed (use assms(2) in simp)
  then show ?thesis using f by (intro that [of "map f [0..<m]"]) auto
qed

lemma write_shards_length:
  "length (fold (\<lambda>x. write_shard (D + x) (f x)) xs sh) = length sh"
  by (induction xs arbitrary: sh) (simp_all add: write_shard_def)

lemma unat_next_mod:
  assumes "D dvd 65536"
  shows "unat (w + 1 :: u16) mod D = (unat w + 1) mod D"
proof -
  have "unat (w + 1 :: u16) = (unat w + 1) mod 65536"
    using unat_word_ariths(1) [of w 1] by simp
  then show ?thesis using assms by (simp only: mod_mod_cancel)
qed

lemma Suc_mod_zero: "0 < (D::nat) \<Longrightarrow> (n + 1) mod D = (if n mod D + 1 = D then 0 else n mod D + 1)"
  by (simp add: mod_Suc)

text \<open>The state between the data packet \<open>fi\<close> and the parity packets.\<close>

definition audio_block :: "audio_params \<Rightarrow> audio_out list \<Rightarrow> u64 \<Rightarrow> audio_session \<Rightarrow> bool" where
  "audio_block ap sent fi s \<longleftrightarrow>
     au_sequenceNumber s = ucast (fi + 1) \<and> au_timestamp s = ucast ((fi + 1) * ap_packet_duration ap) \<and>
     au_next_frame_index s = fi + 1 \<and> length (au_shards s) = ap_data_shards ap + ap_fec_shards ap \<and>
     (au_fec_block_valid s \<longrightarrow>
       (let m = unat (ucast fi :: u16) mod ap_data_shards ap + 1 in
        audio_fresh ap sent (au_shards s) m (fi + 1) \<and>
        au_baseSequenceNumber s = ucast (fi + 1 - of_nat m) \<and>
        au_baseTimestamp s = ucast ((fi + 1 - of_nat m) * ap_packet_duration ap)))"

lemma audio_store_block:
  assumes seq: "au_sequenceNumber g = ucast fi" and ts: "au_timestamp g = ucast (fi * ap_packet_duration ap)"
    and len: "length (au_shards g) = ap_data_shards ap + ap_fec_shards ap"
    and nxt: "au_next_frame_index g = fi + 1" and D: "0 < ap_data_shards ap"
    and m: "m = unat (ucast fi :: u16) mod ap_data_shards ap"
    and fr: "au_fec_block_valid g \<Longrightarrow> audio_fresh ap sent (au_shards g) m fi"
    and base: "au_fec_block_valid g \<Longrightarrow> m \<noteq> 0 \<Longrightarrow> au_baseSequenceNumber g = ucast (fi - of_nat m) \<and>
      au_baseTimestamp g = ucast ((fi - of_nat m) * ap_packet_duration ap)"
  shows "audio_block ap (sent @ [AudioData (ucast fi) (ucast (fi * ap_packet_duration ap)) b]) fi
    (audio_block_start ap (au_sequenceNumber g) (au_timestamp g) (audio_store ap b g))"
proof -
  have mD: "m < length (au_shards g)" using D len by (simp add: m trans_less_add1)
  have lsh: "length (write_shard m b (au_shards g)) = ap_data_shards ap + ap_fec_shards ap"
    using len by (simp add: write_shard_def)
  have nseq: "(ucast fi :: u16) + 1 = ucast (fi + 1)" by (simp add: ucast_plus)
  have nts: "(ucast (fi * ap_packet_duration ap) :: u32) + ucast (ap_packet_duration ap) =
      ucast ((fi + 1) * ap_packet_duration ap)"
    by (simp add: ucast_plus distrib_right)
  have e: "fi + 1 - of_nat (m + 1) = fi - of_nat m" by simp
  have fresh0: "audio_fresh ap sent (au_shards g) 0 fi" by (simp add: audio_fresh_def)
  show ?thesis
  proof (cases "m = 0")
    case True
    show ?thesis
      unfolding audio_block_def Let_def m [symmetric] audio_block_start_def seq ts
      unfolding audio_store_def seq m [symmetric] ts nseq nts
      using True lsh nxt audio_fresh_step [OF fresh0, of b] mD by simp
  next
    case False
    show ?thesis
      unfolding audio_block_def Let_def m [symmetric] audio_block_start_def seq ts
      unfolding audio_store_def seq m [symmetric] ts nseq nts e
      using False lsh nxt base audio_fresh_step [OF fr mD, of b] by simp
  qed
qed

lemma audio_parity_inv:
  assumes blk: "audio_block ap sent fi s" and D: "0 < ap_data_shards ap" "ap_data_shards ap dvd 65536"
    and p: "audio_parity ap (ucast fi) b s = (out, t)"
  shows "audio_inv ap (sent @ out) t"
proof -
  let ?m = "unat (ucast fi :: u16) mod ap_data_shards ap"
  let ?v = "?m + 1 = ap_data_shards ap \<and> au_fec_block_valid s"
  have nseq: "ucast (fi + 1) = (ucast fi :: u16) + 1" by (simp add: ucast_plus)
  have next_m: "unat (ucast (fi + 1) :: u16) mod ap_data_shards ap =
      (if ?m + 1 = ap_data_shards ap then 0 else ?m + 1)"
    unfolding nseq unat_next_mod [OF D(2)] by (rule Suc_mod_zero [OF D(1)])
  have c: "(unat (ucast fi :: u16) + 1) mod ap_data_shards ap = 0 \<longleftrightarrow> ?m + 1 = ap_data_shards ap"
    using Suc_mod_zero [OF D(1)] by simp
  show ?thesis
  proof (cases ?v)
    case True
    have len: "length (au_shards t) = length (au_shards s)"
      using p True unfolding audio_parity_def c by (auto simp: Let_def write_shards_length)
    have "au_sequenceNumber t = au_sequenceNumber s" "au_timestamp t = au_timestamp s"
      "au_next_frame_index t = au_next_frame_index s"
      using p True unfolding audio_parity_def c by (auto simp: Let_def)
    then show ?thesis using blk len next_m True
      by (simp add: audio_inv_def audio_block_def audio_fresh_def)
  next
    case False
    then have t: "t = s" "out = []" using p unfolding audio_parity_def c by auto
    show ?thesis
    proof (cases "au_fec_block_valid s")
      case True
      then show ?thesis using blk next_m False
        unfolding t audio_inv_def audio_block_def Let_def by simp
    next
      case invalid: False
      then show ?thesis using blk unfolding t audio_inv_def audio_block_def by simp
    qed
  qed
qed

lemma audio_parity_ok:
  assumes blk: "audio_block ap sent fi s" and D: "0 < ap_data_shards ap"
    and p: "audio_parity ap (ucast fi) b s = (out, t)" and q: "q \<in> set out"
  shows "parity_ok ap sent fi b q"
proof -
  let ?D = "ap_data_shards ap"
  have v: "unat (ucast fi :: u16) mod ?D + 1 = ?D" "au_fec_block_valid s"
    using p q Suc_mod_zero [OF D, of "unat (ucast fi :: u16)"]
    unfolding audio_parity_def by (auto split: if_splits)
  then have fresh: "audio_fresh ap sent (au_shards s) ?D (fi + 1)"
    and base: "au_baseSequenceNumber s = ucast (fi + 1 - of_nat ?D)"
      "au_baseTimestamp s = ucast ((fi + 1 - of_nat ?D) * ap_packet_duration ap)"
    and len: "?D \<le> length (au_shards s)"
    using blk unfolding audio_block_def Let_def v by auto
  obtain ds where ds: "length ds = ?D"
    "\<forall>k < ?D. AudioData (ucast (fi + 1 - of_nat (?D - k)))
       (ucast ((fi + 1 - of_nat (?D - k)) * ap_packet_duration ap)) (ds ! k) \<in> set sent"
    "(\<forall>d \<in> set ds. length d = length b) \<longrightarrow> map (take (length b)) (take ?D (au_shards s)) = ds"
    by (rule audio_fresh_shards [OF fresh len, of "length b"])
  obtain x where x: "x < ap_fec_shards ap" "q = AudioFec (ucast fi + of_nat x + 1) (of_nat x)
      (au_baseSequenceNumber s) (au_baseTimestamp s)
      (take (length b) (ap_rs ap (map (take (length b)) (take ?D (au_shards s))) ! x))"
    using p q unfolding audio_parity_def Let_def by (auto split: if_splits)
  show ?thesis
    unfolding parity_ok_def x(2) audio_out.case base
    by (intro conjI exI [of _ ds] refl) (use ds x(1) in auto)
qed

lemma parity_ok_mono: "parity_ok ap sent fi b q \<Longrightarrow> parity_ok ap (sent @ out) fi b q"
  unfolding parity_ok_def by (cases q) (auto 0 3)

lemma audio_send_inv:
  assumes "au_sequenceNumber g = ucast fi" and "au_timestamp g = ucast (fi * ap_packet_duration ap)"
    and "length (au_shards g) = ap_data_shards ap + ap_fec_shards ap"
    and "au_next_frame_index g = fi + 1"
    and "au_fec_block_valid g \<Longrightarrow>
      audio_fresh ap sent (au_shards g) (unat (ucast fi :: u16) mod ap_data_shards ap) fi"
    and "au_fec_block_valid g \<Longrightarrow> unat (ucast fi :: u16) mod ap_data_shards ap \<noteq> 0 \<Longrightarrow>
      au_baseSequenceNumber g = ucast (fi - of_nat (unat (ucast fi :: u16) mod ap_data_shards ap)) \<and>
      au_baseTimestamp g = ucast ((fi - of_nat (unat (ucast fi :: u16) mod ap_data_shards ap))
        * ap_packet_duration ap)"
    and D: "0 < ap_data_shards ap" "ap_data_shards ap dvd 65536"
    and run: "audio_send ap d g = Some (out, s)"
  shows "audio_inv ap (sent @ out) s \<and>
    (\<exists>b. encode_audio ap (audio_iv (au_avRiKeyId g + ucast (ucast fi :: u16))) d = Some b \<and>
       (\<forall>p \<in> set out. parity_ok ap (sent @ out) fi b p)) \<and> au_avRiKeyId s = au_avRiKeyId g"
proof -
  obtain b where b: "encode_audio ap (audio_iv (au_avRiKeyId g + ucast (ucast fi :: u16))) d = Some b"
    using run assms(1) by (auto simp: audio_send_def Let_def split: option.splits)
  let ?s = "audio_block_start ap (au_sequenceNumber g) (au_timestamp g) (audio_store ap b g)"
  let ?data = "AudioData (ucast fi) (ucast (fi * ap_packet_duration ap)) b"
  obtain fec t where f: "audio_parity ap (ucast fi) b ?s = (fec, t)" by fastforce
  have out: "out = ?data # fec" "s = t"
    using run b f assms(1,2) by (simp_all add: audio_send_def Let_def)
  have blk: "audio_block ap (sent @ [?data]) fi ?s"
    by (rule audio_store_block [OF assms(1-4) D(1) refl assms(5,6)])
  have "au_avRiKeyId s = au_avRiKeyId g"
    using f by (auto simp: out audio_parity_def audio_block_start_def audio_store_def Let_def split: if_splits)
  moreover have "parity_ok ap (sent @ out) fi b ?data" by (simp add: parity_ok_def)
  moreover have "audio_inv ap (sent @ out) s"
    using audio_parity_inv [OF blk D f] by (simp add: out)
  moreover have "parity_ok ap (sent @ out) fi b q" if "q \<in> set fec" for q
    using parity_ok_mono [OF audio_parity_ok [OF blk D(1) f that], of fec] by (simp add: out)
  ultimately show ?thesis using b by (auto simp: out)
qed

lemma audio_step_inv:
  assumes inv: "audio_inv ap sent s" and D: "0 < ap_data_shards ap" "ap_data_shards ap dvd 65536"
    and run: "audio_step ap q s = Some (out, s')"
  shows "audio_inv ap (sent @ out) s' \<and> au_avRiKeyId s' = au_avRiKeyId s \<and>
    (\<forall>p \<in> set out. \<exists>b.
       encode_audio ap (audio_iv (au_avRiKeyId s + ucast (ucast (fst q) :: u16))) (snd q) = Some b \<and>
       parity_ok ap (sent @ out) (fst q) b p)"
proof (cases "fst q < au_next_frame_index s")
  case True
  then show ?thesis using run inv by (auto simp: audio_step_def)
next
  case False
  let ?g = "audio_gap ap (fst q) s"
  note g = audio_gap_inv [OF inv False]
  have keep: "au_shards (audio_gap ap fi s) = au_shards s"
    "au_baseSequenceNumber (audio_gap ap fi s) = au_baseSequenceNumber s"
    "au_baseTimestamp (audio_gap ap fi s) = au_baseTimestamp s"
    "au_next_frame_index (audio_gap ap fi s) = fi + 1"
    "au_avRiKeyId (audio_gap ap fi s) = au_avRiKeyId s" for fi
    by (simp_all add: audio_gap_def Let_def)
  have v: "au_fec_block_valid s \<and> fst q = au_next_frame_index s" if "au_fec_block_valid ?g"
    using g(3) [OF that] by simp
  have send: "audio_send ap (snd q) ?g = Some (out, s')" using run False by (simp add: audio_step_def)
  have "audio_inv ap (sent @ out) s' \<and>
    (\<exists>b. encode_audio ap (audio_iv (au_avRiKeyId ?g + ucast (ucast (fst q) :: u16))) (snd q) = Some b \<and>
       (\<forall>p \<in> set out. parity_ok ap (sent @ out) (fst q) b p)) \<and> au_avRiKeyId s' = au_avRiKeyId ?g"
    by (rule audio_send_inv [OF g(1,2) _ keep(4) _ _ D send])
      (use inv v g(1) in \<open>auto simp: keep audio_inv_def Let_def\<close>)
  then show ?thesis unfolding keep by blast
qed

lemma audio_run_ok:
  assumes "audio_inv ap sent s" and "0 < ap_data_shards ap" "ap_data_shards ap dvd 65536"
    and "audio_run ap ps s = (outs, s')" and "i < length outs" and "p \<in> set (outs ! i)"
  shows "\<exists>b. encode_audio ap (audio_iv (au_avRiKeyId s + ucast (ucast (fst (ps ! i)) :: u16)))
      (snd (ps ! i)) = Some b \<and> parity_ok ap (sent @ concat (take (i + 1) outs)) (fst (ps ! i)) b p"
  using assms
proof (induction ps arbitrary: s sent outs i)
  case (Cons q ps)
  obtain out t where st: "audio_step ap q s = Some (out, t)"
    using Cons.prems by (cases "audio_step ap q s") auto
  obtain rest u where r: "audio_run ap ps t = (rest, u)" by (cases "audio_run ap ps t") auto
  have outs: "outs = out # rest" "u = s'" using Cons.prems(4) st r by auto
  note t = audio_step_inv [OF Cons.prems(1,2,3) st]
  show ?case
  proof (cases i)
    case 0
    then show ?thesis using t Cons.prems(6) by (auto simp: outs)
  next
    case (Suc j)
    then have "\<exists>b. encode_audio ap (audio_iv (au_avRiKeyId t + ucast (ucast (fst (ps ! j)) :: u16)))
        (snd (ps ! j)) = Some b \<and>
        parity_ok ap ((sent @ out) @ concat (take (j + 1) rest)) (fst (ps ! j)) b p"
      using Cons.IH [of "sent @ out" t rest j] Cons.prems t r outs by simp
    then show ?thesis using t Suc by (simp add: outs)
  qed
qed simp

lemma audio_new_inv: "audio_inv ap [] (audio_session_new ap key)"
  by (simp add: audio_inv_def audio_session_new_def)

text \<open>C9: Audio numbering. Whatever packets were dropped before the sender, a data packet carries the
  sequence number and timestamp of its capture index and its cipher text is made with the IV of that
  sequence number; parity packets follow only the last packet of a block all of whose data packets,
  with the consecutive indices the FEC header announces, were sent, and they are the parity of
  exactly those packets (when these have one length, as constant-bitrate Opus has).\<close>

theorem audio_numbering:
  assumes "0 < ap_data_shards ap" and "ap_data_shards ap dvd 65536"
    and "audio_run ap ps (audio_session_new ap key) = (outs, s)"
    and "i < length outs" and "p \<in> set (outs ! i)"
  shows "\<exists>b. encode_audio ap (audio_iv (key + ucast (ucast (fst (ps ! i)) :: u16)))
      (snd (ps ! i)) = Some b \<and> parity_ok ap (concat (take (i + 1) outs)) (fst (ps ! i)) b p"
  using audio_run_ok [OF audio_new_inv assms] by (simp add: audio_session_new_def)

definition audio_example :: audio_params where
  "audio_example = \<lparr>ap_data_shards = 2, ap_fec_shards = 1, ap_packet_duration = 5, ap_encrypted = False,
     ap_cbc = (\<lambda>_ _. None), ap_rs = (\<lambda>ds. [map2 (XOR) (ds ! 0) (ds ! 1)])\<rparr>"

lemma audio_numbering_witness:
  "\<exists>b. encode_audio audio_example (audio_iv (7 + ucast (ucast (3 :: u64) :: u16))) [12] = Some b \<and>
    parity_ok audio_example
      (concat (take 3 (fst (audio_run audio_example [(0, [9]), (2, [10]), (3, [12])]
         (audio_session_new audio_example 7))))) 3 b (AudioFec 4 0 2 10 [6])"
proof -
  let ?r = "audio_run audio_example [(0, [9]), (2, [10]), (3, [12])] (audio_session_new audio_example 7)"
  have r: "fst ?r = [[AudioData 0 0 [9]], [AudioData 2 10 [10]], [AudioData 3 15 [12], AudioFec 4 0 2 10 [6]]]"
    by code_simp
  have "\<exists>b. encode_audio audio_example
      (audio_iv (7 + ucast (ucast (fst ([(0, [9]), (2, [10]), (3 :: u64, [12 :: u8])] ! 2)) :: u16)))
      (snd ([(0, [9]), (2, [10]), (3 :: u64, [12 :: u8])] ! 2)) = Some b \<and>
    parity_ok audio_example (concat (take (2 + 1) (fst ?r)))
      (fst ([(0, [9]), (2, [10]), (3 :: u64, [12 :: u8])] ! 2)) b (AudioFec 4 0 2 10 [6])"
  proof (rule audio_numbering)
    show "audio_run audio_example [(0, [9]), (2, [10]), (3, [12])] (audio_session_new audio_example 7) =
      (fst ?r, snd ?r)" by (rule prod.collapse [symmetric])
    show "0 < ap_data_shards audio_example" "ap_data_shards audio_example dvd 65536"
      by (simp_all add: audio_example_def)
    show "2 < length (fst ?r)" "AudioFec 4 0 2 10 [6] \<in> set (fst ?r ! 2)" unfolding r by simp_all
  qed
  then show ?thesis by simp
qed

end
