(* ===== verification/ControlStream.thy ===== *)
theory ControlStream
  imports EventQueue
begin

text \<open>
  The control stream of \<^verbatim>\<open>src/stream.cpp\<close>: building the (encrypted) control packets for the client
  (\<open>encode_control\<close>, \<open>send_feedback_msg\<close>, \<open>send_hdr_mode\<close>) and the handlers of the messages from the
  client. AES-GCM and the sizes that the protocol library's headers give are parameters. \<open>None\<close> is a step that does not end normally: a read outside of the packet, or an
  exception nobody catches.
\<close>

definition packetTypes :: "u16 list" where
  "packetTypes = [0x0305, 0x0307, 0x0301, 0x0201, 0x0204, 0x0206, 0x010b, 0x0109, 0x0200, 0x0302,
     0x0001, 0x010e, 0x5500, 0x5501, 0x5502, 0x5503]"

abbreviation (input) "IDX_START_A \<equiv> 0 :: nat"
abbreviation (input) "IDX_START_B \<equiv> 1 :: nat"
abbreviation (input) "IDX_INVALIDATE_REF_FRAMES \<equiv> 2 :: nat"
abbreviation (input) "IDX_LOSS_STATS \<equiv> 3 :: nat"
abbreviation (input) "IDX_INPUT_DATA \<equiv> 5 :: nat"
abbreviation (input) "IDX_RUMBLE_DATA \<equiv> 6 :: nat"
abbreviation (input) "IDX_TERMINATION \<equiv> 7 :: nat"
abbreviation (input) "IDX_PERIODIC_PING \<equiv> 8 :: nat"
abbreviation (input) "IDX_REQUEST_IDR_FRAME \<equiv> 9 :: nat"
abbreviation (input) "IDX_ENCRYPTED \<equiv> 10 :: nat"
abbreviation (input) "IDX_HDR_MODE \<equiv> 11 :: nat"
abbreviation (input) "IDX_RUMBLE_TRIGGER_DATA \<equiv> 12 :: nat"
abbreviation (input) "IDX_SET_MOTION_EVENT \<equiv> 13 :: nat"
abbreviation (input) "IDX_SET_RGB_LED \<equiv> 14 :: nat"
abbreviation (input) "IDX_SET_ADAPTIVE_TRIGGERS \<equiv> 15 :: nat"

datatype state_e = STOPPED | STOPPING | STARTING | RUNNING

datatype feedback_data =
    FbRumble u16 u16
  | FbRumbleTriggers u16 u16
  | FbMotionEventState u16 u8
  | FbRgbLed u8 u8 u8
  | FbAdaptiveTriggers u8 u8 u8 bytes bytes

record gamepad_feedback_msg =
  fb_id :: u16
  fb_data :: feedback_data

text \<open>
  The part of \<open>session_t\<close> the control stream uses. The encryption key is named by the session's
  \<open>cs_id\<close>; a peer is a number. \<open>cs_input\<close> are the messages handed to \<open>input::passthrough\<close>, and
  \<open>cs_stats_resets\<close> counts how often the session cleared the process-wide statistics.
\<close>

record control_session =
  cs_id :: nat
  cs_controlProtocolType :: int
  cs_enc_control_v2 :: bool
  cs_session_id_v1 :: bool
  cs_connect_data :: u32
  cs_expected_peer_address :: string
  cs_launch_session_id :: u32
  cs_peer :: "nat option"
  cs_localAddress :: string
  cs_seq :: u32
  cs_outgoing_iv :: bytes
  cs_incoming_iv :: bytes
  cs_legacy_input_enc_iv :: bytes
  cs_state :: state_e
  cs_pingTimeout :: int
  cs_last_input_time :: int
  cs_feedback_queue :: "gamepad_feedback_msg queue_t"
  cs_hdr_queue :: "(bool \<times> bytes) event_t"
  cs_idr_events :: "bool event_t"
  cs_invalidate_events :: "(u64 \<times> u64) event_t"
  cs_net_stats :: "(u16 \<times> u16 \<times> u32) event_t"
  cs_shutdown_event :: "bool event_t"
  cs_controlEnd :: "bool event_t"
  cs_input :: "bytes list"
  cs_stats_resets :: nat

record control_params =
  cp_encrypt :: "nat \<Rightarrow> bytes \<Rightarrow> bytes \<Rightarrow> (bytes \<times> bytes) option"
  cp_decrypt :: "nat \<Rightarrow> bytes \<Rightarrow> bytes \<Rightarrow> bytes \<Rightarrow> bytes option"
  cp_peer_address :: "nat \<Rightarrow> string"
  cp_peer_local_address :: "nat \<Rightarrow> string"
  cp_fec_ptype :: u16
  cp_fec_status_size :: nat
  cp_fec_status :: "bytes \<Rightarrow> u16 \<times> u16"
  cp_ping_timeout :: int
  cp_idle_timeout_min :: int

text \<open>What a step reads from outside: the time, the number of running sessions, round trip times.\<close>

record control_env =
  ce_now :: int
  ce_running_sessions :: nat
  ce_rtt :: "nat \<Rightarrow> u32"

section \<open>Stopping a session\<close>

text \<open>
  \<open>session::stop\<close>. \<open>while_starting_do_nothing\<close> returns at once: no code stores \<open>STARTING\<close>
  (\<open>SessionLife\<close> proves it of the modelled operations).
\<close>

definition session_stop :: "control_env \<Rightarrow> control_session \<Rightarrow> control_session" where
  "session_stop ev s =
    (if cs_state s \<noteq> RUNNING then s
     else s\<lparr>cs_state := STOPPING,
            cs_stats_resets := cs_stats_resets s + (if ce_running_sessions ev = 1 then 1 else 0),
            cs_shutdown_event := event_raise True (cs_shutdown_event s)\<rparr>)"

section \<open>Packets for the client\<close>

definition resize_bytes :: "nat \<Rightarrow> bytes \<Rightarrow> bytes" where
  "resize_bytes n xs = take n xs @ replicate (n - length xs) 0"

text \<open>The IV of a control message: \<open>from\<close> is the letter of the side that sends it.\<close>

definition control_iv :: "bool \<Rightarrow> u8 \<Rightarrow> u32 \<Rightarrow> bytes \<Rightarrow> bytes" where
  "control_iv v2 from_side seq iv =
    (if v2 then (le_bytes 4 seq @ drop 4 (resize_bytes 12 iv))[10 := from_side, 11 := 0x43]
     else (resize_bytes 16 iv)[0 := ucast seq])"

definition encode_control ::
    "control_params \<Rightarrow> bytes \<Rightarrow> control_session \<Rightarrow> bytes \<times> control_session" where
  "encode_control cp plaintext s =
    (if cs_controlProtocolType s \<noteq> 13 then (plaintext, s)
     else
       let seq = cs_seq s;
           iv = control_iv (cs_enc_control_v2 s) 0x48 seq (cs_outgoing_iv s);
           s = s\<lparr>cs_seq := seq + 1, cs_outgoing_iv := iv\<rparr> in
       case cp_encrypt cp (cs_id s) iv plaintext of
         None \<Rightarrow> ([], s)
       | Some (tag, cipher) \<Rightarrow>
           if cipher = [] then ([], s)
           else
             let packet_length = of_nat (length cipher + 16 + 4) :: u16 in
             (take (unat packet_length + 8 - 4)
                (le_bytes 2 (1 :: u16) @ le_bytes 2 packet_length @ le_bytes 4 seq @ tag @ cipher), s))"

text \<open>A message with its \<open>control_header_v2\<close>.\<close>

definition control_message :: "nat \<Rightarrow> bytes \<Rightarrow> bytes" where
  "control_message idx body = le_bytes 2 (packetTypes ! idx) @ le_bytes 2 (of_nat (length body) :: u16) @ body"

fun feedback_plaintext :: "u16 \<Rightarrow> feedback_data \<Rightarrow> bytes" where
  "feedback_plaintext i (FbRumble lowfreq highfreq) =
    control_message IDX_RUMBLE_DATA
      (le_bytes 4 (0xC0FFEE :: u32) @ le_bytes 2 i @ le_bytes 2 lowfreq @ le_bytes 2 highfreq)"
| "feedback_plaintext i (FbRumbleTriggers left right) =
    control_message IDX_RUMBLE_TRIGGER_DATA (le_bytes 2 i @ le_bytes 2 left @ le_bytes 2 right)"
| "feedback_plaintext i (FbMotionEventState report_rate motion_type) =
    control_message IDX_SET_MOTION_EVENT (le_bytes 2 i @ le_bytes 2 report_rate @ [motion_type])"
| "feedback_plaintext i (FbRgbLed r g b) =
    control_message IDX_SET_RGB_LED (le_bytes 2 i @ [r, g, b])"
| "feedback_plaintext i (FbAdaptiveTriggers event_flags type_left type_right left right) =
    control_message IDX_SET_ADAPTIVE_TRIGGERS
      (le_bytes 2 i @ [event_flags, type_left, type_right] @ left @ right)"

definition send_feedback_msg ::
    "control_params \<Rightarrow> gamepad_feedback_msg \<Rightarrow> control_session \<Rightarrow> (nat \<times> bytes) list \<times> control_session" where
  "send_feedback_msg cp msg s =
    (case cs_peer s of
       None \<Rightarrow> ([], s)
     | Some peer \<Rightarrow>
         let (payload, s) = encode_control cp (feedback_plaintext (fb_id msg) (fb_data msg)) s in
         ([(peer, payload)], s))"

definition hdr_plaintext :: "bool \<times> bytes \<Rightarrow> bytes" where
  "hdr_plaintext hdr_info =
    control_message IDX_HDR_MODE ((if fst hdr_info then 1 else 0) # snd hdr_info)"

definition send_hdr_mode ::
    "control_params \<Rightarrow> bool \<times> bytes \<Rightarrow> control_session \<Rightarrow> (nat \<times> bytes) list \<times> control_session" where
  "send_hdr_mode cp hdr_info s =
    (case cs_peer s of
       None \<Rightarrow> ([], s)
     | Some peer \<Rightarrow>
         let (payload, s) = encode_control cp (hdr_plaintext hdr_info) s in ([(peer, payload)], s))"

definition terminate_plaintext :: bytes where
  "terminate_plaintext = control_message IDX_TERMINATION (be_bytes 4 (0x80030023 :: u32))"

section \<open>Messages from the client\<close>

definition parse_invalidate_ref_frames :: "bytes \<Rightarrow> (u64 \<times> u64) option" where
  "parse_invalidate_ref_frames payload =
    (if length payload < 2 * 8 then None
     else Some (of_le_bytes (take 8 payload), of_le_bytes (take 8 (drop 8 payload))))"

text \<open>The loss percentage is computed from the counts raised here: total and missing data packets.\<close>

definition parse_frame_fec_status :: "control_params \<Rightarrow> bytes \<Rightarrow> (u16 \<times> u16) option" where
  "parse_frame_fec_status cp payload =
    (if length payload \<noteq> cp_fec_status_size cp then None
     else
       let (total_data_packets, missing_packets) = cp_fec_status cp payload in
       if total_data_packets = 0 \<or> missing_packets > total_data_packets then None
       else Some (total_data_packets, missing_packets))"

definition handle_fec_status ::
    "control_params \<Rightarrow> control_env \<Rightarrow> bytes \<Rightarrow> control_session \<Rightarrow> control_session" where
  "handle_fec_status cp ev payload s =
    (case parse_frame_fec_status cp payload of
       None \<Rightarrow> s
     | Some (total_packets, missing_packets) \<Rightarrow>
         s\<lparr>cs_net_stats := event_raise
             (total_packets, missing_packets, case cs_peer s of None \<Rightarrow> 0 | Some peer \<Rightarrow> ce_rtt ev peer)
             (cs_net_stats s)\<rparr>)"

definition handle_request_idr :: "control_session \<Rightarrow> control_session" where
  "handle_request_idr s = s\<lparr>cs_idr_events := event_raise True (cs_idr_events s)\<rparr>"

definition handle_invalidate_ref_frames :: "bytes \<Rightarrow> control_session \<Rightarrow> control_session" where
  "handle_invalidate_ref_frames payload s =
    (case parse_invalidate_ref_frames payload of
       None \<Rightarrow> s
     | Some frames \<Rightarrow> s\<lparr>cs_invalidate_events := event_raise frames (cs_invalidate_events s)\<rparr>)"

definition passthrough_input :: "control_env \<Rightarrow> bytes \<Rightarrow> control_session \<Rightarrow> control_session" where
  "passthrough_input ev plaintext s =
    s\<lparr>cs_last_input_time := ce_now ev, cs_input := cs_input s @ [plaintext]\<rparr>"

text \<open>
  Input under the old protocol. A length that is negative as \<open>int32_t\<close> is huge as \<open>size_t\<close>, so the
  bound rejects it. \<open>gcm_t::decrypt\<close> cuts the tag off with \<open>substr\<close>, which throws when the text is
  shorter than the tag; the last 16 bytes of the payload become the next IV.
\<close>

definition handle_input_data ::
    "control_params \<Rightarrow> control_env \<Rightarrow> bytes \<Rightarrow> control_session \<Rightarrow> control_session option" where
  "handle_input_data cp ev payload s =
    (if length payload < 4 then Some s
     else
       let tagged_cipher_length = of_be_bytes (take 4 payload) :: u32 in
       if sint tagged_cipher_length < 0 \<or> length payload - 4 < unat tagged_cipher_length then Some s
       else
         let n = unat tagged_cipher_length; tagged_cipher = take n (drop 4 payload);
             iv = cs_legacy_input_enc_iv s in
         if n < 16 then None
         else case cp_decrypt cp (cs_id s) iv (take 16 tagged_cipher) (drop 16 tagged_cipher) of
           None \<Rightarrow> Some (session_stop ev s)
         | Some plaintext \<Rightarrow>
             if 16 + length iv \<le> n \<and> length iv < 16 then None
             else
               let s = (if 16 + length iv \<le> n
                        then s\<lparr>cs_legacy_input_enc_iv :=
                          drop (length payload - 16) payload @ drop 16 iv\<rparr> else s) in
               Some (passthrough_input ev plaintext s))"

text \<open>
  The handlers but the one of the encrypted messages, in the order they are mapped (the first
  mapping of a type wins). Loss statistics, pings and the start messages are only logged.
\<close>

definition control_dispatch ::
    "control_params \<Rightarrow> control_env \<Rightarrow> u16 \<Rightarrow> bytes \<Rightarrow> control_session \<Rightarrow> control_session option" where
  "control_dispatch cp ev type payload s =
    (if type = packetTypes ! IDX_PERIODIC_PING then Some s
     else if type = packetTypes ! IDX_START_A then Some s
     else if type = packetTypes ! IDX_START_B then Some s
     else if type = packetTypes ! IDX_LOSS_STATS then Some s
     else if type = cp_fec_ptype cp then Some (handle_fec_status cp ev payload s)
     else if type = packetTypes ! IDX_REQUEST_IDR_FRAME then Some (handle_request_idr s)
     else if type = packetTypes ! IDX_INVALIDATE_REF_FRAMES
       then Some (handle_invalidate_ref_frames payload s)
     else if type = packetTypes ! IDX_INPUT_DATA then handle_input_data cp ev payload s
     else Some s)"

text \<open>
  The encrypted message: the header's \<open>length\<close> and \<open>seq\<close> are read from the payload, the text behind
  them is decrypted, and the message inside is handled. A nested message that is encrypted again
  stops the session, so that handling it never comes back here.
\<close>

definition handle_encrypted ::
    "control_params \<Rightarrow> control_env \<Rightarrow> bytes \<Rightarrow> control_session \<Rightarrow> control_session option" where
  "handle_encrypted cp ev payload s =
    (if length payload < 6 then None
     else
       let len = of_le_bytes (take 2 payload) :: u16;
           seq = of_le_bytes (take 4 (drop 2 payload)) :: u32 in
       if unat len < 16 + 4 + 4 then Some s
       else
         let n = unat len - 4; tagged_cipher = take n (drop 6 payload);
             iv = control_iv (cs_enc_control_v2 s) 0x43 seq (cs_incoming_iv s);
             s = s\<lparr>cs_incoming_iv := iv\<rparr> in
         if length payload < 6 + n then None
         else case cp_decrypt cp (cs_id s) iv (take 16 tagged_cipher) (drop 16 tagged_cipher) of
           None \<Rightarrow> Some (session_stop ev s)
         | Some plaintext \<Rightarrow>
             if length plaintext < 4 then None
             else
               let type = of_le_bytes (take 2 plaintext) :: u16 in
               if type = packetTypes ! IDX_ENCRYPTED then Some (session_stop ev s)
               else if type = packetTypes ! IDX_INPUT_DATA
                 then Some (passthrough_input ev (drop 4 plaintext) s)
               else control_dispatch cp ev type (drop 4 plaintext) s)"

text \<open>\<open>call\<close>, as \<open>iterate\<close> uses it for a message off the wire (not \<open>reinjected\<close>).\<close>

definition control_call ::
    "control_params \<Rightarrow> control_env \<Rightarrow> u16 \<Rightarrow> bytes \<Rightarrow> control_session \<Rightarrow> control_session option" where
  "control_call cp ev type payload s =
    (if cs_controlProtocolType s = 13 \<and> type \<noteq> packetTypes ! IDX_ENCRYPTED then Some s
     else if type = packetTypes ! IDX_ENCRYPTED then handle_encrypted cp ev payload s
     else control_dispatch cp ev type payload s)"

lemma encode_control_keeps [simp]:
  "cs_feedback_queue (snd (encode_control cp b s)) = cs_feedback_queue s"
  "cs_hdr_queue (snd (encode_control cp b s)) = cs_hdr_queue s"
  "cs_id (snd (encode_control cp b s)) = cs_id s"
  "cs_peer (snd (encode_control cp b s)) = cs_peer s"
  "cs_state (snd (encode_control cp b s)) = cs_state s"
  "cs_controlProtocolType (snd (encode_control cp b s)) = cs_controlProtocolType s"
  "cs_enc_control_v2 (snd (encode_control cp b s)) = cs_enc_control_v2 s"
  by (simp_all add: encode_control_def Let_def split: option.splits prod.splits)

lemma send_feedback_msg_keeps [simp]:
  "cs_feedback_queue (snd (send_feedback_msg cp m s)) = cs_feedback_queue s"
  "cs_hdr_queue (snd (send_feedback_msg cp m s)) = cs_hdr_queue s"
  "cs_id (snd (send_feedback_msg cp m s)) = cs_id s"
  "cs_peer (snd (send_feedback_msg cp m s)) = cs_peer s"
  "cs_state (snd (send_feedback_msg cp m s)) = cs_state s"
  by (simp_all add: send_feedback_msg_def split_beta split: option.splits)

section \<open>What the handlers can do\<close>

text \<open>The length field of an encrypted message.\<close>

definition encrypted_length :: "bytes \<Rightarrow> nat" where
  "encrypted_length payload = unat (of_le_bytes (take 2 payload) :: u16)"

definition overrun :: "bytes \<Rightarrow> bool" where
  "overrun payload \<longleftrightarrow> length payload < 6 \<or>
     (24 \<le> encrypted_length payload \<and> length payload < 2 + encrypted_length payload)"

definition short_input :: "bytes \<Rightarrow> bool" where
  "short_input payload \<longleftrightarrow> 4 \<le> length payload \<and>
     (let n = of_be_bytes (take 4 payload) :: u32 in
      0 \<le> sint n \<and> unat n \<le> length payload - 4 \<and> unat n < 16)"

lemma packetTypes_distinct: "distinct packetTypes"
  by (simp add: packetTypes_def)

lemma packetTypes_neq:
  "i < 16 \<Longrightarrow> j < 16 \<Longrightarrow> i \<noteq> j \<Longrightarrow> packetTypes ! i \<noteq> packetTypes ! j"
  using packetTypes_distinct by (subst nth_eq_iff_index_eq) (auto simp: packetTypes_def)

lemma input_data_None:
  assumes "length (cs_legacy_input_enc_iv s) = 16"
  shows "handle_input_data cp ev payload s = None \<longleftrightarrow> short_input payload"
  using assms unfolding handle_input_data_def short_input_def Let_def
  by (auto split: option.splits)

lemma dispatch_None:
  assumes "length (cs_legacy_input_enc_iv s) = 16" and "cp_fec_ptype cp \<notin> set packetTypes - {0x5502}"
  shows "control_dispatch cp ev type payload s = None \<longleftrightarrow>
    type = packetTypes ! IDX_INPUT_DATA \<and> short_input payload"
proof (cases "type = packetTypes ! IDX_INPUT_DATA")
  case True
  have "cp_fec_ptype cp \<noteq> packetTypes ! IDX_INPUT_DATA" using assms(2) by (auto simp: packetTypes_def)
  then show ?thesis
    using input_data_None [OF assms(1)] packetTypes_neq unfolding True control_dispatch_def by simp
next
  case False
  then show ?thesis by (simp add: control_dispatch_def)
qed

lemma encrypted_None:
  assumes "length (cs_legacy_input_enc_iv s) = 16" and "cp_fec_ptype cp \<notin> set packetTypes - {0x5502}"
    and "\<forall>k iv tag c pt. cp_decrypt cp k iv tag c = Some pt \<longrightarrow> length pt = length c"
  shows "handle_encrypted cp ev payload s = None \<longleftrightarrow> overrun payload"
proof (cases "length payload < 6 \<or> encrypted_length payload < 24 \<or> length payload < 2 + encrypted_length payload")
  case True
  then show ?thesis
    by (auto simp: handle_encrypted_def overrun_def encrypted_length_def Let_def)
next
  case False
  let ?n = "encrypted_length payload - 4"
  let ?iv = "control_iv (cs_enc_control_v2 s) 0x43 (of_le_bytes (take 4 (drop 2 payload))) (cs_incoming_iv s)"
  let ?tc = "take ?n (drop 6 payload)"
  have long: "4 \<le> length pt" if "cp_decrypt cp (cs_id s) ?iv (take 16 ?tc) (drop 16 ?tc) = Some pt" for pt
    using assms(3) [rule_format, OF that] False by (simp add: min_def) linarith
  have disp: "control_dispatch cp ev type b (s\<lparr>cs_incoming_iv := ?iv\<rparr>) = None \<longleftrightarrow>
      type = packetTypes ! IDX_INPUT_DATA \<and> short_input b" for type b
    by (rule dispatch_None) (use assms in simp_all)
  show ?thesis
    using False long disp
    by (auto simp: handle_encrypted_def overrun_def encrypted_length_def Let_def split: option.splits)
qed

lemma call_None:
  assumes "length (cs_legacy_input_enc_iv s) = 16" and "cp_fec_ptype cp \<notin> set packetTypes - {0x5502}"
    and "\<forall>k iv tag c pt. cp_decrypt cp k iv tag c = Some pt \<longrightarrow> length pt = length c"
  shows "control_call cp ev type payload s = None \<longleftrightarrow>
    (type = packetTypes ! IDX_ENCRYPTED \<and> overrun payload) \<or>
    (type = packetTypes ! IDX_INPUT_DATA \<and> cs_controlProtocolType s \<noteq> 13 \<and> short_input payload)"
  using encrypted_None [OF assms] dispatch_None [OF assms(1,2)] packetTypes_neq [of 5 10]
  by (auto simp: control_call_def)

section \<open>What the client can read\<close>

text \<open>How the client reads an encrypted packet: header, IV from the sequence number, tag, text.\<close>

definition packet_seq :: "bytes \<Rightarrow> u32" where
  "packet_seq pkt = of_le_bytes (take 4 (drop 4 pkt))"

definition client_read :: "control_params \<Rightarrow> nat \<Rightarrow> bytes \<Rightarrow> bytes option" where
  "client_read cp k pkt =
    (if take 2 pkt \<noteq> [1, 0] \<or> (of_le_bytes (take 2 (drop 2 pkt)) :: u16) \<noteq> of_nat (length pkt - 4) then None
     else cp_decrypt cp k (le_bytes 4 (packet_seq pkt) @ replicate 6 0 @ [0x48, 0x43])
            (take 16 (drop 8 pkt)) (drop 24 pkt))"

definition clean_iv :: "bytes \<Rightarrow> bool" where
  "clean_iv iv \<longleftrightarrow> take 6 (drop 4 (resize_bytes 12 iv)) = replicate 6 0"

lemma length_resize_bytes [simp]: "length (resize_bytes n xs) = n"
  by (simp add: resize_bytes_def)

lemma control_iv_v2:
  assumes "clean_iv iv"
  shows "control_iv True c seq iv = le_bytes 4 seq @ replicate 6 0 @ [c, 0x43]"
proof -
  let ?d = "drop 4 (resize_bytes 12 iv)"
  have d: "?d = replicate 6 0 @ drop 6 ?d"
    using assms append_take_drop_id [of 6 ?d] by (simp add: clean_iv_def)
  have "length (drop 6 ?d) = Suc (Suc 0)" by simp
  then obtain a b where ab: "drop 6 ?d = [a, b]" by (auto simp only: length_Suc_conv length_0_conv)
  have e: "?d = replicate 6 0 @ [a, b]" using d unfolding ab .
  show ?thesis
    unfolding control_iv_def if_True
    unfolding e by (simp add: list_update_append)
qed

lemma clean_control_iv: "clean_iv iv \<Longrightarrow> clean_iv (control_iv True c seq iv)"
  unfolding control_iv_v2 by (simp add: clean_iv_def resize_bytes_def)

fun encode_run :: "control_params \<Rightarrow> bytes list \<Rightarrow> control_session \<Rightarrow> bytes list \<times> control_session" where
  "encode_run cp [] s = ([], s)"
| "encode_run cp (p # ps) s =
    (let (pkt, s) = encode_control cp p s; (pkts, s) = encode_run cp ps s in (pkt # pkts, s))"

definition gcm_ok :: "control_params \<Rightarrow> bool" where
  "gcm_ok cp \<longleftrightarrow> (\<forall>k iv p tag c. cp_encrypt cp k iv p = Some (tag, c) \<longrightarrow>
     length tag = 16 \<and> length c = length p \<and> cp_decrypt cp k iv tag c = Some p)"

lemma encode_control_read:
  assumes "cs_controlProtocolType s = 13" and "cs_enc_control_v2 s" and "clean_iv (cs_outgoing_iv s)"
    and "gcm_ok cp" and "length p < 65000" and "encode_control cp p s = (pkt, t)"
  shows "(pkt = [] \<or> client_read cp (cs_id s) pkt = Some p \<and> packet_seq pkt = cs_seq s) \<and>
    cs_seq t = cs_seq s + 1 \<and> clean_iv (cs_outgoing_iv t) \<and> cs_controlProtocolType t = 13 \<and>
    cs_enc_control_v2 t \<and> cs_id t = cs_id s"
proof -
  let ?iv = "control_iv True 0x48 (cs_seq s) (cs_outgoing_iv s)"
  have t: "t = s\<lparr>cs_seq := cs_seq s + 1, cs_outgoing_iv := ?iv\<rparr>"
    using assms(1,2,6) by (auto simp: encode_control_def Let_def split: option.splits if_splits)
  have "pkt = [] \<or> client_read cp (cs_id s) pkt = Some p \<and> packet_seq pkt = cs_seq s"
  proof (cases "cp_encrypt cp (cs_id s) ?iv p")
    case None
    then show ?thesis using assms(1,2,6) by (auto simp: encode_control_def Let_def)
  next
    case (Some e)
    obtain tag c where e: "e = (tag, c)" by fastforce
    have g: "length tag = 16" "length c = length p" "cp_decrypt cp (cs_id s) ?iv tag c = Some p"
      using assms(4) Some e by (auto simp: gcm_ok_def)
    have len: "unat (of_nat (length p + 20) :: u16) = length p + 20"
      unfolding unsigned_of_nat of_nat_id by (rule take_bit_nat_eq_self) (use assms(5) in simp)
    show ?thesis
    proof (cases "c = []")
      case True
      then show ?thesis using assms(1,2,6) Some e by (auto simp: encode_control_def Let_def)
    next
      case False
      have pkt: "pkt = le_bytes 2 (1 :: u16) @ le_bytes 2 (of_nat (length p + 20) :: u16) @
          le_bytes 4 (cs_seq s) @ tag @ c"
      proof -
        define L where "L = (of_nat (length p + 20) :: u16)"
        have L: "of_nat (20 + length p) = L" by (simp add: L_def)
        have "unat L = length p + 20" using len by (simp add: L_def)
        then show ?thesis
          unfolding L_def [symmetric]
          using assms(1,2,6) Some e False g(1,2) L
          by (auto simp add: encode_control_def Let_def simp del: of_nat_add)
      qed
      have one: "le_bytes 2 (1 :: u16) = [1, 0]" by code_simp
      have sq: "packet_seq pkt = cs_seq s"
        unfolding packet_seq_def pkt by (simp add: of_le_bytes_le_bytes)
      have l: "(of_le_bytes (le_bytes 2 (of_nat (length p + 20) :: u16)) :: u16) = of_nat (length p + 20)"
        by (rule of_le_bytes_le_bytes) simp
      have lp: "length pkt - 4 = length p + 20" using g by (simp add: pkt)
      have hd: "take 2 pkt = [1, 0]" "take 2 (drop 2 pkt) = le_bytes 2 (of_nat (length p + 20) :: u16)"
        "take 16 (drop 8 pkt) = tag" "drop 24 pkt = c"
        using g by (simp_all add: pkt one)
      have "client_read cp (cs_id s) pkt = Some p"
        unfolding client_read_def hd sq lp l using g(3) control_iv_v2 [OF assms(3)] by simp
      then show ?thesis using sq by simp
    qed
  qed
  then show ?thesis using assms(1,2) clean_control_iv [OF assms(3)] by (simp add: t)
qed

lemma encode_run_read:
  assumes "cs_controlProtocolType s = 13" and "cs_enc_control_v2 s" and "clean_iv (cs_outgoing_iv s)"
    and "gcm_ok cp" and "\<forall>p \<in> set ps. length p < 65000" and "encode_run cp ps s = (pkts, t)"
    and "i < length ps"
  shows "pkts ! i = [] \<or>
    client_read cp (cs_id s) (pkts ! i) = Some (ps ! i) \<and> packet_seq (pkts ! i) = cs_seq s + of_nat i"
  using assms
proof (induction ps arbitrary: s pkts i)
  case (Cons p ps)
  obtain pkt s1 where e: "encode_control cp p s = (pkt, s1)" by fastforce
  obtain rest s2 where r: "encode_run cp ps s1 = (rest, s2)" by fastforce
  have pkts: "pkts = pkt # rest" "s2 = t" using Cons.prems(6) e r by auto
  note one = encode_control_read [OF Cons.prems(1-4) _ e]
  have p: "length p < 65000" using Cons.prems(5) by simp
  show ?case
  proof (cases i)
    case 0
    then show ?thesis using one [OF p] by (simp add: pkts)
  next
    case (Suc j)
    have "rest ! j = [] \<or> client_read cp (cs_id s1) (rest ! j) = Some (ps ! j) \<and>
        packet_seq (rest ! j) = cs_seq s1 + of_nat j"
      using one [OF p] Cons.prems r by (intro Cons.IH) (simp_all add: pkts Suc)
    then show ?thesis using one [OF p] by (simp add: pkts Suc algebra_simps)
  qed
qed simp

lemma seq_distinct:
  assumes "i < j" and "j < 2 ^ 32"
  shows "(w :: u32) + of_nat i \<noteq> w + of_nat j"
  using assms by (simp add: word_of_nat_eq_iff take_bit_nat_eq_self)

section \<open>Properties\<close>


text \<open>An encryption for the witnesses: the tag is 16 zero bytes, the text stays as it is.\<close>

definition demo_control_params :: control_params where
  "demo_control_params = \<lparr>cp_encrypt = (\<lambda>k iv p. Some (replicate 16 0, p)),
     cp_decrypt = (\<lambda>k iv tag c. if tag = replicate 16 0 then Some c else None),
     cp_peer_address = (\<lambda>p. ''10.0.0.2''), cp_peer_local_address = (\<lambda>p. ''10.0.0.1''),
     cp_fec_ptype = 0x5502, cp_fec_status_size = 22, cp_fec_status = (\<lambda>b. (1, 0)),
     cp_ping_timeout = 10000, cp_idle_timeout_min = 0\<rparr>"

definition demo_session :: "nat \<Rightarrow> control_session" where
  "demo_session i = \<lparr>cs_id = i, cs_controlProtocolType = 13, cs_enc_control_v2 = True,
     cs_session_id_v1 = True, cs_connect_data = of_nat i, cs_expected_peer_address = [],
     cs_launch_session_id = of_nat i, cs_peer = None, cs_localAddress = [], cs_seq = 0,
     cs_outgoing_iv = [], cs_incoming_iv = [], cs_legacy_input_enc_iv = replicate 16 0,
     cs_state = RUNNING, cs_pingTimeout = 10000, cs_last_input_time = 0,
     cs_feedback_queue = queue_new 32 drop_oldest, cs_hdr_queue = event_new, cs_idr_events = event_new,
     cs_invalidate_events = event_new, cs_net_stats = event_new, cs_shutdown_event = event_new,
     cs_controlEnd = event_new, cs_input = [], cs_stats_resets = 0\<rparr>"

definition demo_control_env :: control_env where
  "demo_control_env = \<lparr>ce_now = 5, ce_running_sessions = 1, ce_rtt = (\<lambda>p. 3)\<rparr>"






end
