(* ===== verification/ControlServer.thy ===== *)
theory ControlServer
  imports ControlStream
begin

text \<open>
  \<open>control_server_t\<close> of \<^verbatim>\<open>src/stream.cpp\<close> with its session list and its peer map, and the loop of
  \<open>controlBroadcastThread\<close>: the scan that stops silent sessions and takes stopped ones out, the bursts
  of ENet events, and the termination messages. ENet decides which events arrive. The lemmas show
  that the peer map always names exactly the sessions of the list that have a peer.
\<close>

section \<open>The server\<close>

text \<open>
  \<open>srv_ended\<close> are the sessions erased from the list, \<open>srv_cleared\<close> the launch sessions whose RTSP
  state was torn down, \<open>srv_sent\<close> and \<open>srv_disconnected\<close> what was given to ENet.
\<close>

record control_server =
  srv_sessions :: "control_session list"
  srv_peer_to_session :: "nat \<rightharpoonup> nat"
  srv_cleared :: "u32 list"
  srv_sent :: "(nat \<times> bytes) list"
  srv_disconnected :: "nat list"
  srv_ended :: "control_session list"

definition control_server_new :: control_server where
  "control_server_new = \<lparr>srv_sessions = [], srv_peer_to_session = Map.empty, srv_cleared = [],
     srv_sent = [], srv_disconnected = [], srv_ended = []\<rparr>"

text \<open>\<open>session::start\<close> pushes the session to the list.\<close>

definition push_session :: "control_session \<Rightarrow> control_server \<Rightarrow> control_server" where
  "push_session s srv = srv\<lparr>srv_sessions := srv_sessions srv @ [s]\<rparr>"

definition claimable :: "control_params \<Rightarrow> nat \<Rightarrow> u32 \<Rightarrow> control_session \<Rightarrow> bool" where
  "claimable cp peer connect_data s \<longleftrightarrow>
     cs_peer s = None \<and>
     (if cs_session_id_v1 s then cs_connect_data s = connect_data
      else cs_expected_peer_address s = cp_peer_address cp peer)"

definition get_session ::
    "control_params \<Rightarrow> nat \<Rightarrow> u32 \<Rightarrow> control_server \<Rightarrow> nat option \<times> control_server" where
  "get_session cp peer connect_data srv =
    (case srv_peer_to_session srv peer of
       Some i \<Rightarrow> (Some i, srv)
     | None \<Rightarrow>
         (case find_index (claimable cp peer connect_data) (srv_sessions srv) of
            None \<Rightarrow> (None, srv)
          | Some k \<Rightarrow>
              let s = srv_sessions srv ! k in
              (Some (cs_id s),
               srv\<lparr>srv_cleared := srv_cleared srv @ [cs_launch_session_id s],
                   srv_sessions := (srv_sessions srv)
                     [k := s\<lparr>cs_peer := Some peer, cs_localAddress := cp_peer_local_address cp peer\<rparr>],
                   srv_peer_to_session := (srv_peer_to_session srv)(peer \<mapsto> cs_id s)\<rparr>)))"

datatype enet_event_type = EnetReceive bytes | EnetConnect | EnetDisconnect | EnetNone

record enet_event =
  ee_peer :: nat
  ee_data :: u32
  ee_type :: enet_event_type

text \<open>What an event does to its session: the type is read from the packet's first two bytes.\<close>

definition session_event ::
    "control_params \<Rightarrow> control_env \<Rightarrow> enet_event_type \<Rightarrow> control_session \<Rightarrow> control_session option" where
  "session_event cp ev e s =
    (case e of
       EnetReceive packet \<Rightarrow>
         if length packet < 2 then None
         else control_call cp ev (of_le_bytes (take 2 packet)) (drop 2 packet) s
     | EnetConnect \<Rightarrow> Some s
     | EnetDisconnect \<Rightarrow> Some (if cs_state s = RUNNING then session_stop ev s else s)
     | EnetNone \<Rightarrow> Some s)"

text \<open>\<open>iterate\<close>, for the event \<open>enet_host_service\<close> returns; a session pointer that is not in the
  list any more has no session to work on.\<close>

definition control_iterate ::
    "control_params \<Rightarrow> control_env \<Rightarrow> enet_event option \<Rightarrow> control_server \<Rightarrow> (bool \<times> control_server) option" where
  "control_iterate cp ev event srv =
    (case event of
       None \<Rightarrow> Some (False, srv)
     | Some e \<Rightarrow>
         (case get_session cp (ee_peer e) (ee_data e) srv of
            (None, srv) \<Rightarrow> Some (True, srv\<lparr>srv_disconnected := srv_disconnected srv @ [ee_peer e]\<rparr>)
          | (Some i, srv) \<Rightarrow>
              (case find_index (\<lambda>s. cs_id s = i) (srv_sessions srv) of
                 None \<Rightarrow> None
               | Some k \<Rightarrow>
                   let s = (srv_sessions srv ! k)\<lparr>cs_pingTimeout := ce_now ev + cp_ping_timeout cp\<rparr> in
                   map_option (\<lambda>s. (True, srv\<lparr>srv_sessions := (srv_sessions srv)[k := s]\<rparr>))
                     (session_event cp ev (ee_type e) s))))"

section \<open>The loop of the control thread\<close>

text \<open>The feedback messages waiting for a session: the loop ends when the queue has none left.\<close>

function drain_feedback ::
    "control_params \<Rightarrow> control_session \<Rightarrow> (nat \<times> bytes) list \<times> control_session" where
  "drain_feedback cp s =
    (case queue_try_pop (cs_feedback_queue s) of
       (None, q) \<Rightarrow> ([], s\<lparr>cs_feedback_queue := q\<rparr>)
     | (Some msg, q) \<Rightarrow>
         let (out, s) = send_feedback_msg cp msg (s\<lparr>cs_feedback_queue := q\<rparr>);
             (outs, s) = drain_feedback cp s in
         (out @ outs, s))"
  by pat_completeness auto

lemma feedback_measure:
  assumes "(Some msg, q) = queue_try_pop (cs_feedback_queue s)"
    and "(out, t) = send_feedback_msg cp msg (s\<lparr>cs_feedback_queue := q\<rparr>)"
  shows "length (q_queue (cs_feedback_queue t)) < length (q_queue (cs_feedback_queue s))"
proof -
  have "t = snd (send_feedback_msg cp msg (s\<lparr>cs_feedback_queue := q\<rparr>))"
    unfolding assms(2) [symmetric] by (rule snd_conv [symmetric])
  then have "cs_feedback_queue t = q" by simp
  then show ?thesis using assms(1)
    by (cases "q_queue (cs_feedback_queue s)") (auto simp: queue_try_pop_def split: if_splits)
qed

termination drain_feedback
  by (relation "measure (\<lambda>(cp, s). length (q_queue (cs_feedback_queue s)))")
    (auto intro: feedback_measure)

declare drain_feedback.simps [simp del]

text \<open>\<open>hdr_queue\<close> holds one value at most, so the second look of the loop finds none.\<close>

definition drain_hdr ::
    "control_params \<Rightarrow> control_session \<Rightarrow> (nat \<times> bytes) list \<times> control_session" where
  "drain_hdr cp s =
    (case event_try_pop (cs_hdr_queue s) of
       (None, q) \<Rightarrow> ([], s\<lparr>cs_hdr_queue := q\<rparr>)
     | (Some hdr_info, q) \<Rightarrow> send_hdr_mode cp hdr_info (s\<lparr>cs_hdr_queue := q\<rparr>))"

text \<open>The ping timeout and the watchdog of an idle session. Times are in milliseconds.\<close>

definition check_timeouts ::
    "control_params \<Rightarrow> control_env \<Rightarrow> control_session \<Rightarrow> control_session" where
  "check_timeouts cp ev s =
    (let s = (if cs_pingTimeout s < ce_now ev then session_stop ev s else s) in
     if 0 < cp_idle_timeout_min cp \<and>
        cp_idle_timeout_min cp * 60 \<le> (ce_now ev - cs_last_input_time s) div 1000
     then session_stop ev s else s)"

text \<open>A stopping session leaves the list and the peer map, and \<open>join\<close> may go on.\<close>

definition remove_stopping :: "control_session \<Rightarrow> control_server \<Rightarrow> control_server" where
  "remove_stopping s srv =
    (let srv = (case cs_peer s of
                  None \<Rightarrow> srv
                | Some peer \<Rightarrow> srv\<lparr>srv_peer_to_session := (srv_peer_to_session srv)(peer := None),
                                 srv_disconnected := srv_disconnected srv @ [peer]\<rparr>) in
     srv\<lparr>srv_ended := srv_ended srv @ [s\<lparr>cs_controlEnd := event_raise True (cs_controlEnd s)\<rparr>]\<rparr>)"

text \<open>
  The scan of the session list: \<open>shut k\<close> is whether a shutdown event is raised when the loop looks
  at the k-th session (it then leaves the rest alone). The result is the sessions that stay, whether
  one of them awaits its peer, and the server (whose list is set at the end).
\<close>

fun scan_sessions ::
    "control_params \<Rightarrow> control_env \<Rightarrow> (nat \<Rightarrow> bool) \<Rightarrow> nat \<Rightarrow> control_session list \<Rightarrow> control_server \<Rightarrow>
     control_session list \<times> bool \<times> control_server" where
  "scan_sessions cp ev shut k [] srv = ([], False, srv)"
| "scan_sessions cp ev shut k (s # rest) srv =
    (if shut k then (s # rest, False, srv)
     else
       let s = check_timeouts cp ev s in
       if cs_state s = STOPPING then scan_sessions cp ev shut (Suc k) rest (remove_stopping s srv)
       else if cs_peer s = None then
         (let (kept, _, srv) = scan_sessions cp ev shut (Suc k) rest srv in (s # kept, True, srv))
       else
         (let (out, s) = drain_feedback cp s; (out', s) = drain_hdr cp s;
              (kept, awaiting, srv) = scan_sessions cp ev shut (Suc k) rest
                 (srv\<lparr>srv_sent := srv_sent srv @ out @ out'\<rparr>) in
          (s # kept, awaiting, srv)))"

definition control_scan ::
    "control_params \<Rightarrow> control_env \<Rightarrow> (nat \<Rightarrow> bool) \<Rightarrow> control_server \<Rightarrow> bool \<times> control_server" where
  "control_scan cp ev shut srv =
    (let (kept, awaiting, srv) = scan_sessions cp ev shut 0 (srv_sessions srv) srv in
     (awaiting, srv\<lparr>srv_sessions := kept\<rparr>))"

text \<open>At most 64 events between two scans, as long as there are any.\<close>

fun iterate_burst ::
    "control_params \<Rightarrow> control_env \<Rightarrow> nat \<Rightarrow> enet_event list \<Rightarrow> control_server \<Rightarrow> control_server option" where
  "iterate_burst cp ev 0 es srv = Some srv"
| "iterate_burst cp ev (Suc n) [] srv = map_option snd (control_iterate cp ev None srv)"
| "iterate_burst cp ev (Suc n) (e # es) srv =
    (case control_iterate cp ev (Some e) srv of
       None \<Rightarrow> None
     | Some (more_events, srv) \<Rightarrow> if more_events then iterate_burst cp ev n es srv else Some srv)"

definition MAX_NONBLOCKING_CONTROL_EVENTS :: nat where
  "MAX_NONBLOCKING_CONTROL_EVENTS = 64"

text \<open>
  One turn: \<open>ct_shut\<close> answers the peeks of the shutdown events (first the loop's own, then those of
  the scan), \<open>ct_proc_running\<close> is whether the application runs, \<open>ct_started\<close> are the sessions
  that \<open>session::start\<close> pushed before the turn and \<open>ct_events\<close> what ENet has.
\<close>

record control_turn =
  ct_env :: control_env
  ct_shut :: "nat \<Rightarrow> bool"
  ct_proc_running :: bool
  ct_started :: "control_session list"
  ct_events :: "enet_event list"

definition control_turn_step ::
    "control_params \<Rightarrow> control_turn \<Rightarrow> control_server \<Rightarrow> (bool \<times> control_server) option" where
  "control_turn_step cp t srv =
    (let srv = fold push_session (ct_started t) srv in
     if ct_shut t 0 then Some (False, srv)
     else
       let (awaiting, srv) = control_scan cp (ct_env t) (\<lambda>k. ct_shut t (Suc k)) srv in
       if \<not> ct_proc_running t \<and> \<not> awaiting then Some (False, srv)
       else map_option (Pair True)
         (iterate_burst cp (ct_env t) MAX_NONBLOCKING_CONTROL_EVENTS (ct_events t) srv))"

fun control_loop ::
    "control_params \<Rightarrow> control_turn list \<Rightarrow> control_server \<Rightarrow> (bool \<times> control_server) option" where
  "control_loop cp [] srv = Some (True, srv)"
| "control_loop cp (t # ts) srv =
    (case control_turn_step cp t srv of
       None \<Rightarrow> None
     | Some (go_on, srv) \<Rightarrow> if go_on then control_loop cp ts srv else Some (False, srv))"

text \<open>After the loop every session is told.\<close>

definition terminate_session ::
    "control_params \<Rightarrow> control_session \<Rightarrow> (nat \<times> bytes) list \<times> control_session" where
  "terminate_session cp s =
    (let (out, s) = (case cs_peer s of
                       None \<Rightarrow> ([], s)
                     | Some peer \<Rightarrow>
                         let (payload, s) = encode_control cp terminate_plaintext s in ([(peer, payload)], s)) in
     (out, s\<lparr>cs_shutdown_event := event_raise True (cs_shutdown_event s),
             cs_controlEnd := event_raise True (cs_controlEnd s)\<rparr>))"

definition control_terminate :: "control_params \<Rightarrow> control_server \<Rightarrow> control_server" where
  "control_terminate cp srv =
    (let rs = map (terminate_session cp) (srv_sessions srv) in
     srv\<lparr>srv_sent := srv_sent srv @ concat (map fst rs), srv_sessions := map snd rs\<rparr>)"

section \<open>The peer map\<close>

text \<open>What the peer map depends on of a session: its identity and its peer.\<close>

definition id_peer :: "control_session \<Rightarrow> nat \<times> nat option" where
  "id_peer s = (cs_id s, cs_peer s)"

definition peers_inv :: "(nat \<times> nat option) list \<Rightarrow> (nat \<rightharpoonup> nat) \<Rightarrow> bool" where
  "peers_inv xs m \<longleftrightarrow> distinct (map fst xs) \<and> (\<forall>p i. m p = Some i \<longleftrightarrow> (i, Some p) \<in> set xs)"

lemma peers_inv_drop_waiting: "peers_inv (xs @ (i, None) # ys) m \<Longrightarrow> peers_inv (xs @ ys) m"
  unfolding peers_inv_def by auto

lemma peers_inv_drop:
  assumes "peers_inv (xs @ (i, Some p) # ys) m"
  shows "peers_inv (xs @ ys) (m(p := None))"
proof -
  have d: "distinct (map fst (xs @ (i, Some p) # ys))"
    and m: "\<And>q j. m q = Some j \<longleftrightarrow> (j, Some q) \<in> set (xs @ (i, Some p) # ys)"
    using assms unfolding peers_inv_def by blast+
  have "m p = Some i" using m by simp
  then have "(j, Some p) \<notin> set (xs @ ys)" for j
    using d m [of p j] by (auto simp: image_iff)
  moreover have "(j, Some q) \<in> set (xs @ ys) \<longleftrightarrow> m q = Some j" if "q \<noteq> p" for q j
    using m [of q j] that by simp
  ultimately show ?thesis using d by (simp add: peers_inv_def)
qed

lemma peers_inv_push: "peers_inv xs m \<Longrightarrow> i \<notin> fst ` set xs \<Longrightarrow> peers_inv (xs @ [(i, None)]) m"
  unfolding peers_inv_def by auto

lemma peers_inv_claim:
  assumes "peers_inv xs m" and "k < length xs" and "xs ! k = (i, None)" and "m p = None"
  shows "peers_inv (xs[k := (i, Some p)]) (m(p \<mapsto> i))"
proof -
  have d: "distinct (map fst xs)" and m: "\<And>q j. m q = Some j \<longleftrightarrow> (j, Some q) \<in> set xs"
    using assms(1) unfolding peers_inv_def by blast+
  have xs: "xs = take k xs @ (i, None) # drop (Suc k) xs"
    using id_take_nth_drop [OF assms(2)] assms(3) by simp
  have upd: "xs[k := (i, Some p)] = take k xs @ (i, Some p) # drop (Suc k) xs"
    using upd_conv_take_nth_drop [OF assms(2)] by simp
  have split: "set xs = set (take k xs @ drop (Suc k) xs) \<union> {(i, None)}"
    by (subst xs) auto
  have "distinct (map fst (xs[k := (i, Some p)]))"
  proof -
    have "map fst (xs[k := (i, Some p)]) = map fst xs"
      using assms(2,3) by (simp add: map_update list_update_same_conv)
    then show ?thesis using d by simp
  qed
  moreover have "(m(p \<mapsto> i)) q = Some j \<longleftrightarrow> (j, Some q) \<in> set (xs[k := (i, Some p)])" for q j
    using m [of q j] assms(4) unfolding upd split by auto
  ultimately show ?thesis by (simp add: peers_inv_def)
qed

text \<open>No handler changes who a session is, and none makes it \<open>STARTING\<close>.\<close>

definition same_identity :: "control_session \<Rightarrow> control_session \<Rightarrow> bool" where
  "same_identity s t \<longleftrightarrow> id_peer t = id_peer s \<and>
     (cs_state t = cs_state s \<or> cs_state s = RUNNING \<and> cs_state t = STOPPING)"

lemma same_identity_refl [simp]: "same_identity s s"
  by (simp add: same_identity_def)

lemma same_identity_trans: "same_identity s t \<Longrightarrow> same_identity t u \<Longrightarrow> same_identity s u"
  unfolding same_identity_def by auto

lemma session_stop_same [simp]: "same_identity s (session_stop ev s)"
  by (simp add: same_identity_def id_peer_def session_stop_def)

lemma dispatch_same: "control_dispatch cp ev type payload s = Some t \<Longrightarrow> same_identity s t"
  unfolding control_dispatch_def
  by (auto simp: handle_fec_status_def handle_request_idr_def handle_invalidate_ref_frames_def
      handle_input_data_def passthrough_input_def same_identity_def id_peer_def session_stop_def Let_def
      split: if_splits option.splits)

lemma encrypted_same: "handle_encrypted cp ev payload s = Some t \<Longrightarrow> same_identity s t"
proof -
  assume h: "handle_encrypted cp ev payload s = Some t"
  have iv: "same_identity s (s\<lparr>cs_incoming_iv := iv\<rparr>)" for iv
    by (simp add: same_identity_def id_peer_def)
  have inp: "same_identity s (passthrough_input ev b (s\<lparr>cs_incoming_iv := iv\<rparr>))" for b iv
    by (simp add: same_identity_def id_peer_def passthrough_input_def)
  show ?thesis
    using h unfolding handle_encrypted_def Let_def
    by (auto split: if_splits option.splits
        intro: iv inp same_identity_trans [OF iv session_stop_same]
          same_identity_trans [OF iv dispatch_same])
qed

lemma call_same: "control_call cp ev type payload s = Some t \<Longrightarrow> same_identity s t"
  unfolding control_call_def by (auto split: if_splits intro: encrypted_same dispatch_same)

lemma session_event_same: "session_event cp ev e s = Some t \<Longrightarrow> same_identity s t"
  unfolding session_event_def
  by (auto split: enet_event_type.splits if_splits intro: call_same)

lemma check_timeouts_same [simp]: "same_identity s (check_timeouts cp ev s)"
  unfolding check_timeouts_def Let_def
  by (auto intro: same_identity_trans [OF session_stop_same session_stop_same])

lemma send_feedback_same: "same_identity s (snd (send_feedback_msg cp m s))"
  by (simp add: same_identity_def id_peer_def)

lemma drain_feedback_same: "same_identity s (snd (drain_feedback cp s))"
proof (induction cp s rule: drain_feedback.induct)
  case (1 cp s)
  show ?case
  proof (cases "fst (queue_try_pop (cs_feedback_queue s))")
    case None
    then show ?thesis
      by (simp add: drain_feedback.simps [of cp s] split_beta same_identity_def id_peer_def)
  next
    case (Some msg)
    let ?s = "s\<lparr>cs_feedback_queue := snd (queue_try_pop (cs_feedback_queue s))\<rparr>"
    let ?t = "snd (send_feedback_msg cp msg ?s)"
    have "same_identity ?t (snd (drain_feedback cp ?t))"
      using 1 Some by (metis prod.collapse)
    moreover have "same_identity s ?t"
      by (rule same_identity_trans [OF _ send_feedback_same]) (simp add: same_identity_def id_peer_def)
    ultimately show ?thesis
      using Some by (auto simp: drain_feedback.simps [of cp s] split_beta Let_def
          intro: same_identity_trans)
  qed
qed

lemma drain_hdr_same: "same_identity s (snd (drain_hdr cp s))"
  by (auto simp: drain_hdr_def send_hdr_mode_def same_identity_def id_peer_def split_beta
      split: option.splits)

definition srv_inv :: "control_server \<Rightarrow> bool" where
  "srv_inv srv \<longleftrightarrow> peers_inv (map id_peer (srv_sessions srv)) (srv_peer_to_session srv)"

lemma same_id_peer: "same_identity s t \<Longrightarrow> id_peer t = id_peer s"
  by (simp add: same_identity_def)

lemma remove_stopping_inv:
  assumes "peers_inv (xs @ id_peer s # ys) (srv_peer_to_session srv)"
  shows "peers_inv (xs @ ys) (srv_peer_to_session (remove_stopping s srv))"
proof (cases "cs_peer s")
  case None
  then show ?thesis
    using assms peers_inv_drop_waiting [of xs "cs_id s" ys] by (simp add: remove_stopping_def id_peer_def)
next
  case (Some p)
  then show ?thesis
    using assms peers_inv_drop [of xs "cs_id s" p ys] by (simp add: remove_stopping_def id_peer_def)
qed

lemma scan_sessions_inv:
  assumes "peers_inv (xs @ map id_peer ss) (srv_peer_to_session srv)"
    and "scan_sessions cp ev shut k ss srv = (kept, awaiting, srv')"
  shows "peers_inv (xs @ map id_peer kept) (srv_peer_to_session srv') \<and> cs_id ` set kept \<subseteq> cs_id ` set ss"
  using assms
proof (induction ss arbitrary: k xs srv kept awaiting srv')
  case Nil
  then show ?case by simp
next
  case (Cons s ss)
  let ?s = "check_timeouts cp ev s"
  have s: "id_peer ?s = id_peer s" by (rule same_id_peer) simp
  then have ids: "cs_id ?s = cs_id s" by (simp add: id_peer_def)
  consider "shut k" | "\<not> shut k" "cs_state ?s = STOPPING"
    | "\<not> shut k" "cs_state ?s \<noteq> STOPPING" "cs_peer ?s = None"
    | "\<not> shut k" "cs_state ?s \<noteq> STOPPING" "cs_peer ?s \<noteq> None" by blast
  then show ?case
  proof cases
    case 1
    then show ?thesis using Cons.prems by auto
  next
    case 2
    then have "scan_sessions cp ev shut (Suc k) ss (remove_stopping ?s srv) = (kept, awaiting, srv')"
      using Cons.prems by (simp add: Let_def)
    moreover have "peers_inv (xs @ map id_peer ss) (srv_peer_to_session (remove_stopping ?s srv))"
      using remove_stopping_inv [of xs ?s "map id_peer ss" srv] Cons.prems(1) s by simp
    ultimately show ?thesis using Cons.IH by fastforce
  next
    case 3
    then obtain kept' aw where r: "scan_sessions cp ev shut (Suc k) ss srv = (kept', aw, srv')"
      and k: "kept = ?s # kept'"
      using Cons.prems(2) by (auto simp: Let_def split: prod.splits)
    have "peers_inv ((xs @ [id_peer s]) @ map id_peer kept') (srv_peer_to_session srv') \<and>
        cs_id ` set kept' \<subseteq> cs_id ` set ss"
      using Cons.prems(1) by (intro Cons.IH [OF _ r]) simp
    then show ?thesis using s ids k by auto
  next
    case 4
    let ?t = "snd (drain_feedback cp ?s)" let ?u = "snd (drain_hdr cp ?t)"
    let ?srv = "srv\<lparr>srv_sent := srv_sent srv @ fst (drain_feedback cp ?s) @ fst (drain_hdr cp ?t)\<rparr>"
    from 4 obtain kept' aw where r: "scan_sessions cp ev shut (Suc k) ss ?srv = (kept', aw, srv')"
      and k: "kept = ?u # kept'"
      using Cons.prems(2) by (auto simp: Let_def split: prod.splits)
    have u: "id_peer ?u = id_peer s"
      using same_id_peer [OF drain_hdr_same] same_id_peer [OF drain_feedback_same] s by simp
    have "peers_inv ((xs @ [id_peer s]) @ map id_peer kept') (srv_peer_to_session srv') \<and>
        cs_id ` set kept' \<subseteq> cs_id ` set ss"
      using Cons.prems(1) by (intro Cons.IH [OF _ r]) simp
    moreover have "cs_id ?u = cs_id s" using u by (simp add: id_peer_def)
    ultimately show ?thesis using u k by auto
  qed
qed

lemma control_scan_inv:
  assumes "srv_inv srv" and "control_scan cp ev shut srv = (awaiting, srv')"
  shows "srv_inv srv' \<and> cs_id ` set (srv_sessions srv') \<subseteq> cs_id ` set (srv_sessions srv)"
proof -
  obtain kept srv1 where r: "scan_sessions cp ev shut 0 (srv_sessions srv) srv = (kept, awaiting, srv1)"
    and srv': "srv' = srv1\<lparr>srv_sessions := kept\<rparr>"
    using assms(2) by (auto simp: control_scan_def split: prod.splits)
  show ?thesis
    using scan_sessions_inv [OF _ r, of "[]"] assms(1) by (simp add: srv_inv_def srv')
qed

lemma claimable_None: "claimable cp peer d s \<Longrightarrow> cs_peer s = None"
  by (simp add: claimable_def)

lemma get_session_inv:
  assumes "srv_inv srv" and "get_session cp peer d srv = (r, srv')"
  shows "srv_inv srv' \<and> map cs_id (srv_sessions srv') = map cs_id (srv_sessions srv) \<and>
    (\<forall>i. r = Some i \<longrightarrow> (\<exists>s \<in> set (srv_sessions srv'). cs_id s = i \<and> cs_peer s = Some peer))"
proof (cases "srv_peer_to_session srv peer")
  case (Some i)
  then have "(i, Some peer) \<in> set (map id_peer (srv_sessions srv))"
    using assms(1) unfolding srv_inv_def peers_inv_def by blast
  then have "\<exists>s \<in> set (srv_sessions srv). cs_id s = i \<and> cs_peer s = Some peer"
    by (auto simp: id_peer_def)
  then show ?thesis using assms Some by (auto simp: get_session_def)
next
  case None
  show ?thesis
  proof (cases "find_index (claimable cp peer d) (srv_sessions srv)")
    case f: None
    then show ?thesis using assms None by (auto simp: get_session_def)
  next
    case (Some k)
    let ?s = "srv_sessions srv ! k"
    let ?t = "?s\<lparr>cs_peer := Some peer, cs_localAddress := cp_peer_local_address cp peer\<rparr>"
    have k: "k < length (srv_sessions srv)" "cs_peer ?s = None"
      using Some by (auto simp: find_index_Some dest: claimable_None)
    have srv': "srv_sessions srv' = (srv_sessions srv)[k := ?t]" "r = Some (cs_id ?s)"
      "srv_peer_to_session srv' = (srv_peer_to_session srv)(peer \<mapsto> cs_id ?s)"
      using assms(2) None Some by (auto simp: get_session_def Let_def)
    have ids: "map cs_id ((srv_sessions srv)[k := ?t]) = map cs_id (srv_sessions srv)"
      using k by (simp add: map_update list_update_same_conv)
    have "peers_inv ((map id_peer (srv_sessions srv))[k := (cs_id ?s, Some peer)])
        ((srv_peer_to_session srv)(peer \<mapsto> cs_id ?s))"
      by (rule peers_inv_claim) (use assms(1) k None in \<open>simp_all add: srv_inv_def id_peer_def\<close>)
    then have "srv_inv srv'"
      unfolding srv_inv_def srv' by (simp add: map_update id_peer_def)
    moreover have "?t \<in> set (srv_sessions srv')"
      using k by (simp add: srv' set_update_memI)
    ultimately have "\<exists>s \<in> set (srv_sessions srv'). cs_id s = cs_id ?s \<and> cs_peer s = Some peer"
      by (intro bexI [of _ ?t]) simp_all
    then show ?thesis using ids \<open>srv_inv srv'\<close> by (simp add: srv')
  qed
qed

lemma update_session_inv:
  assumes "srv_inv srv" and "k < length (srv_sessions srv)" and "id_peer t = id_peer (srv_sessions srv ! k)"
  shows "srv_inv (srv\<lparr>srv_sessions := (srv_sessions srv)[k := t]\<rparr>) \<and>
    map cs_id ((srv_sessions srv)[k := t]) = map cs_id (srv_sessions srv)"
proof -
  have "map id_peer ((srv_sessions srv)[k := t]) = map id_peer (srv_sessions srv)"
    using assms by (simp add: map_update list_update_same_conv)
  moreover have "cs_id t = cs_id (srv_sessions srv ! k)" using assms(3) by (simp add: id_peer_def)
  then have "map cs_id ((srv_sessions srv)[k := t]) = map cs_id (srv_sessions srv)"
    using assms by (simp add: map_update list_update_same_conv)
  ultimately show ?thesis using assms(1) by (simp add: srv_inv_def)
qed

lemma control_iterate_inv:
  assumes "srv_inv srv" and "control_iterate cp ev e srv = Some (b, srv')"
  shows "srv_inv srv' \<and> map cs_id (srv_sessions srv') = map cs_id (srv_sessions srv)"
proof (cases e)
  case None
  then show ?thesis using assms by (simp add: control_iterate_def)
next
  case (Some e')
  obtain r srv1 where g: "get_session cp (ee_peer e') (ee_data e') srv = (r, srv1)" by fastforce
  note inv1 = get_session_inv [OF assms(1) g]
  show ?thesis
  proof (cases r)
    case None
    then show ?thesis using assms(2) Some g inv1 by (auto simp: control_iterate_def srv_inv_def)
  next
    case i: (Some i)
    then obtain k where k: "find_index (\<lambda>s. cs_id s = i) (srv_sessions srv1) = Some k"
      using assms(2) Some g by (auto simp: control_iterate_def split: option.splits)
    let ?s = "(srv_sessions srv1 ! k)\<lparr>cs_pingTimeout := ce_now ev + cp_ping_timeout cp\<rparr>"
    obtain t where t: "session_event cp ev (ee_type e') ?s = Some t"
      and srv': "srv' = srv1\<lparr>srv_sessions := (srv_sessions srv1)[k := t]\<rparr>"
      using assms(2) Some g i k by (auto simp: control_iterate_def Let_def)
    have "id_peer t = id_peer (srv_sessions srv1 ! k)"
      using same_id_peer [OF session_event_same [OF t]] by (simp add: id_peer_def)
    moreover have "k < length (srv_sessions srv1)" using k by (simp add: find_index_Some)
    ultimately show ?thesis using update_session_inv [of srv1 k t] inv1 by (simp add: srv')
  qed
qed

lemma iterate_burst_inv:
  "srv_inv srv \<Longrightarrow> iterate_burst cp ev n es srv = Some srv' \<Longrightarrow>
   srv_inv srv' \<and> map cs_id (srv_sessions srv') = map cs_id (srv_sessions srv)"
proof (induction cp ev n es srv rule: iterate_burst.induct)
  case (2 cp ev n srv)
  then show ?case by (auto dest: control_iterate_inv)
next
  case (3 cp ev n e es srv)
  obtain b srv1 where it: "control_iterate cp ev (Some e) srv = Some (b, srv1)"
    using "3.prems"(2) by (auto split: option.splits)
  note inv1 = control_iterate_inv [OF "3.prems"(1) it]
  show ?case
  proof (cases b)
    case True
    then have "iterate_burst cp ev n es srv1 = Some srv'" using "3.prems"(2) it by simp
    then have "srv_inv srv' \<and> map cs_id (srv_sessions srv') = map cs_id (srv_sessions srv1)"
      using "3.IH" [OF it refl True] inv1 by blast
    then show ?thesis using inv1 by simp
  next
    case False
    then show ?thesis using "3.prems"(2) it inv1 by simp
  qed
qed simp

lemma push_session_inv:
  assumes "srv_inv srv" and "cs_peer s = None" and "cs_id s \<notin> cs_id ` set (srv_sessions srv)"
  shows "srv_inv (push_session s srv)"
proof -
  have "cs_id s \<notin> fst ` set (map id_peer (srv_sessions srv))"
    using assms(3) by (auto simp: id_peer_def)
  then show ?thesis
    using peers_inv_push [of "map id_peer (srv_sessions srv)" "srv_peer_to_session srv" "cs_id s"] assms
    by (simp add: srv_inv_def push_session_def id_peer_def)
qed

lemma push_sessions_inv:
  "srv_inv srv \<Longrightarrow> \<forall>s \<in> set ss. cs_peer s = None \<Longrightarrow>
   distinct (map cs_id (srv_sessions srv) @ map cs_id ss) \<Longrightarrow>
   srv_inv (fold push_session ss srv) \<and>
   map cs_id (srv_sessions (fold push_session ss srv)) = map cs_id (srv_sessions srv) @ map cs_id ss"
proof (induction ss arbitrary: srv)
  case (Cons s ss)
  have "srv_inv (push_session s srv)"
    by (rule push_session_inv) (use Cons.prems in auto)
  then show ?case using Cons by (simp add: push_session_def)
qed simp

text \<open>The sessions of a run are started with an identity of their own and without a peer.\<close>

definition fresh_sessions :: "control_turn list \<Rightarrow> bool" where
  "fresh_sessions ts \<longleftrightarrow> distinct (map cs_id (concat (map ct_started ts))) \<and>
     list_all (\<lambda>s. cs_peer s = None) (concat (map ct_started ts))"

lemma turn_inv:
  assumes "srv_inv srv" and "\<forall>s \<in> set (ct_started t). cs_peer s = None"
    and "distinct (map cs_id (srv_sessions srv) @ map cs_id (ct_started t))"
    and "control_turn_step cp t srv = Some (b, srv')"
  shows "srv_inv srv' \<and>
    cs_id ` set (srv_sessions srv') \<subseteq> cs_id ` set (srv_sessions srv) \<union> cs_id ` set (ct_started t)"
proof -
  let ?srv = "fold push_session (ct_started t) srv"
  note p = push_sessions_inv [OF assms(1-3)]
  then have ids: "cs_id ` set (srv_sessions ?srv) =
      cs_id ` set (srv_sessions srv) \<union> cs_id ` set (ct_started t)"
    by (metis image_Un set_append set_map)
  show ?thesis
  proof (cases "ct_shut t 0")
    case True
    then show ?thesis using assms(4) p ids by (auto simp: control_turn_step_def)
  next
    case False
    obtain aw srv1 where sc: "control_scan cp (ct_env t) (\<lambda>k. ct_shut t (Suc k)) ?srv = (aw, srv1)"
      by fastforce
    note s = control_scan_inv [OF conjunct1 [OF p] sc]
    show ?thesis
    proof (cases "\<not> ct_proc_running t \<and> \<not> aw")
      case True
      then show ?thesis using assms(4) False sc s ids by (auto simp: control_turn_step_def)
    next
      case go: False
      then have "iterate_burst cp (ct_env t) MAX_NONBLOCKING_CONTROL_EVENTS (ct_events t) srv1 = Some srv'"
        using assms(4) False sc by (auto simp: control_turn_step_def Let_def split: if_splits)
      then have "srv_inv srv' \<and> map cs_id (srv_sessions srv') = map cs_id (srv_sessions srv1)"
        using iterate_burst_inv s by blast
      then show ?thesis using s ids by (metis set_map)
    qed
  qed
qed

lemma disjoint_within: "X \<subseteq> A \<union> B \<Longrightarrow> A \<inter> C = {} \<Longrightarrow> B \<inter> C = {} \<Longrightarrow> X \<inter> C = {}"
  by blast

lemma control_loop_inv:
  "srv_inv srv \<Longrightarrow> fresh_sessions ts \<Longrightarrow>
   cs_id ` set (srv_sessions srv) \<inter> cs_id ` set (concat (map ct_started ts)) = {} \<Longrightarrow>
   control_loop cp ts srv = Some (b, srv') \<Longrightarrow> srv_inv srv'"
proof (induction ts arbitrary: srv)
  case (Cons t ts)
  obtain g srv1 where st: "control_turn_step cp t srv = Some (g, srv1)"
    using Cons.prems(4) by (auto split: option.splits)
  let ?later = "concat (map ct_started ts)"
  have ds: "distinct (map cs_id (srv_sessions srv))"
    using Cons.prems(1) by (simp add: srv_inv_def peers_inv_def id_peer_def comp_def)
  have fr: "distinct (map cs_id (ct_started t) @ map cs_id ?later)"
    "\<forall>s \<in> set (ct_started t) \<union> set ?later. cs_peer s = None"
    using Cons.prems(2) by (simp_all add: fresh_sessions_def list_all_iff ball_Un)
  have apart: "cs_id ` set (srv_sessions srv) \<inter> (cs_id ` set (ct_started t) \<union> cs_id ` set ?later) = {}"
    using Cons.prems(3) by (simp only: list.map concat.simps set_append image_Un)
  have d: "distinct (map cs_id (srv_sessions srv) @ map cs_id (ct_started t))"
    unfolding distinct_append set_map
    using ds conjunct1 [OF fr(1) [unfolded distinct_append]] apart by blast
  have w: "\<forall>s \<in> set (ct_started t). cs_peer s = None" using fr(2) by blast
  note t = turn_inv [OF Cons.prems(1) w d st]
  have f: "fresh_sessions ts"
    unfolding fresh_sessions_def list_all_iff
    using conjunct1 [OF conjunct2 [OF fr(1) [unfolded distinct_append]]] fr(2) by blast
  have "cs_id ` set (ct_started t) \<inter> cs_id ` set ?later = {}"
    using fr(1) unfolding distinct_append set_map by blast
  moreover have "cs_id ` set (srv_sessions srv) \<inter> cs_id ` set ?later = {}"
    using apart by blast
  ultimately have dis: "cs_id ` set (srv_sessions srv1) \<inter> cs_id ` set ?later = {}"
    by (intro disjoint_within [OF conjunct2 [OF t]])
  show ?case
  proof (cases g)
    case True
    then have "control_loop cp ts srv1 = Some (b, srv')" using Cons.prems(4) by (simp add: st)
    then show ?thesis by (rule Cons.IH [OF conjunct1 [OF t] f dis])
  next
    case False
    then have "srv' = srv1" using Cons.prems(4) by (simp add: st)
    then show ?thesis using t by simp
  qed
qed simp

section \<open>The scan\<close>

text \<open>A session that the scan must take out: stopped already, or running but silent for too long.\<close>

definition to_remove :: "control_params \<Rightarrow> control_env \<Rightarrow> control_session \<Rightarrow> bool" where
  "to_remove cp ev s \<longleftrightarrow> cs_state s = STOPPING \<or> cs_state s = RUNNING \<and>
     (cs_pingTimeout s < ce_now ev \<or> 0 < cp_idle_timeout_min cp \<and>
      cp_idle_timeout_min cp * 60 \<le> (ce_now ev - cs_last_input_time s) div 1000)"

lemma check_timeouts_state:
  "cs_state (check_timeouts cp ev s) = STOPPING \<longleftrightarrow> to_remove cp ev s"
  by (auto simp: check_timeouts_def session_stop_def to_remove_def Let_def)

lemma check_timeouts_keeps [simp]:
  "cs_id (check_timeouts cp ev s) = cs_id s" "cs_peer (check_timeouts cp ev s) = cs_peer s"
  "cs_controlEnd (check_timeouts cp ev s) = cs_controlEnd s"
  by (simp_all add: check_timeouts_def session_stop_def Let_def)

lemma remove_stopping_ended [simp]:
  "srv_ended (remove_stopping s srv) =
   srv_ended srv @ [s\<lparr>cs_controlEnd := event_raise True (cs_controlEnd s)\<rparr>]"
  by (simp add: remove_stopping_def split: option.splits)

lemma drained_id_peer:
  "cs_id (snd (drain_hdr cp (snd (drain_feedback cp s)))) = cs_id s"
  "cs_peer (snd (drain_hdr cp (snd (drain_feedback cp s)))) = cs_peer s"
  using same_id_peer [OF drain_hdr_same [of "snd (drain_feedback cp s)"]]
    same_id_peer [OF drain_feedback_same [of s]] by (simp_all add: id_peer_def)

lemma scan_sessions_result:
  assumes "scan_sessions cp ev (\<lambda>_. False) k ss srv = (kept, awaiting, srv')"
  shows "map cs_id kept = map cs_id (filter (\<lambda>s. \<not> to_remove cp ev s) ss) \<and>
    (awaiting \<longleftrightarrow> (\<exists>s \<in> set ss. \<not> to_remove cp ev s \<and> cs_peer s = None)) \<and>
    map (\<lambda>s. (cs_id s, cs_controlEnd s)) (srv_ended srv') =
      map (\<lambda>s. (cs_id s, cs_controlEnd s)) (srv_ended srv) @
      map (\<lambda>s. (cs_id s, event_raise True (cs_controlEnd s))) (filter (to_remove cp ev) ss)"
  using assms
proof (induction ss arbitrary: k srv kept awaiting srv')
  case Nil
  then show ?case by simp
next
  case (Cons s ss)
  let ?s = "check_timeouts cp ev s"
  show ?case
  proof (cases "to_remove cp ev s")
    case True
    then have "scan_sessions cp ev (\<lambda>_. False) (Suc k) ss (remove_stopping ?s srv) = (kept, awaiting, srv')"
      using Cons.prems by (simp add: Let_def check_timeouts_state)
    from Cons.IH [OF this] True show ?thesis by simp
  next
    case keep: False
    then have st: "cs_state ?s \<noteq> STOPPING" by (simp add: check_timeouts_state)
    show ?thesis
    proof (cases "cs_peer s = None")
      case True
      then obtain kept' aw where r: "scan_sessions cp ev (\<lambda>_. False) (Suc k) ss srv = (kept', aw, srv')"
        and k: "kept = ?s # kept'" "awaiting"
        using Cons.prems st by (auto simp: Let_def split: prod.splits)
      from Cons.IH [OF r] keep True k show ?thesis by simp
    next
      case False
      let ?t = "snd (drain_feedback cp ?s)"
      let ?srv = "srv\<lparr>srv_sent := srv_sent srv @ fst (drain_feedback cp ?s) @ fst (drain_hdr cp ?t)\<rparr>"
      from False obtain kept' where r: "scan_sessions cp ev (\<lambda>_. False) (Suc k) ss ?srv = (kept', awaiting, srv')"
        and k: "kept = snd (drain_hdr cp ?t) # kept'"
        using Cons.prems st by (auto simp: Let_def split: prod.splits)
      from Cons.IH [OF r] keep False k drained_id_peer [of cp ?s] show ?thesis by auto
    qed
  qed
qed

section \<open>Properties\<close>

text \<open>C10: Whatever the clients and the other threads do, in every state of the control server the peer
  map sends a peer to a session exactly when that session is in the list and has that peer: no
  pointer to a session that was taken out is left, and no session is reached by two peers.\<close>

theorem peer_map_exact:
  assumes "fresh_sessions ts" and "control_loop cp ts control_server_new = Some (b, srv)"
  shows "srv_peer_to_session srv p = Some i \<longleftrightarrow>
    (\<exists>s \<in> set (srv_sessions srv). cs_id s = i \<and> cs_peer s = Some p)"
proof -
  have "srv_inv srv"
    by (rule control_loop_inv [OF _ assms(1) _ assms(2)])
      (simp_all add: srv_inv_def peers_inv_def control_server_new_def)
  then show ?thesis by (auto simp: srv_inv_def peers_inv_def id_peer_def)
qed

definition demo_turn :: control_turn where
  "demo_turn = \<lparr>ct_env = demo_control_env, ct_shut = (\<lambda>k. False), ct_proc_running = True,
     ct_started = [demo_session 1, demo_session 2],
     ct_events = [\<lparr>ee_peer = 7, ee_data = 2, ee_type = EnetConnect\<rparr>]\<rparr>"

theorem peer_map_exact_witness:
  "\<exists>s \<in> set (srv_sessions (snd (the (control_loop demo_control_params [demo_turn] control_server_new)))).
     cs_id s = 2 \<and> cs_peer s = Some 7"
proof -
  let ?r = "control_loop demo_control_params [demo_turn] control_server_new"
  have m: "?r \<noteq> None \<and> srv_peer_to_session (snd (the ?r)) 7 = Some 2" by code_simp
  then have "?r = Some (fst (the ?r), snd (the ?r))" by simp
  then show ?thesis
    using peer_map_exact [of "[demo_turn]" demo_control_params "fst (the ?r)" "snd (the ?r)" 7 2] m
    by (simp add: fresh_sessions_def demo_turn_def demo_session_def)
qed

text \<open>A scan that is not interrupted by a shutdown takes out exactly the sessions that are
  stopping or have been silent for longer than the timeouts allow, tells each of them that control
  has ended, keeps the others in their order, and reports whether one of them still waits for its
  peer.\<close>

theorem scan_removes_expired:
  assumes "control_scan cp ev (\<lambda>_. False) srv = (awaiting, srv')"
  shows "map cs_id (srv_sessions srv') = map cs_id (filter (\<lambda>s. \<not> to_remove cp ev s) (srv_sessions srv)) \<and>
    (awaiting \<longleftrightarrow> (\<exists>s \<in> set (srv_sessions srv). \<not> to_remove cp ev s \<and> cs_peer s = None)) \<and>
    map (\<lambda>s. (cs_id s, cs_controlEnd s)) (srv_ended srv') =
      map (\<lambda>s. (cs_id s, cs_controlEnd s)) (srv_ended srv) @
      map (\<lambda>s. (cs_id s, event_raise True (cs_controlEnd s))) (filter (to_remove cp ev) (srv_sessions srv))"
proof -
  obtain kept srv1 where "scan_sessions cp ev (\<lambda>_. False) 0 (srv_sessions srv) srv = (kept, awaiting, srv1)"
    and "srv' = srv1\<lparr>srv_sessions := kept\<rparr>"
    using assms by (auto simp: control_scan_def split: prod.splits)
  then show ?thesis using scan_sessions_result by simp
qed

theorem scan_removes_expired_witness:
  "map cs_id (srv_sessions (snd (control_scan demo_control_params demo_control_env (\<lambda>_. False)
     (control_server_new\<lparr>srv_sessions := [demo_session 1, (demo_session 2)\<lparr>cs_state := STOPPING\<rparr>]\<rparr>)))) = [1]"
proof -
  let ?srv = "control_server_new\<lparr>srv_sessions := [demo_session 1, (demo_session 2)\<lparr>cs_state := STOPPING\<rparr>]\<rparr>"
  let ?r = "control_scan demo_control_params demo_control_env (\<lambda>_. False) ?srv"
  have "?r = (fst ?r, snd ?r)" by (rule prod.collapse [symmetric])
  from scan_removes_expired [OF this] show ?thesis
    by (simp add: to_remove_def demo_session_def demo_control_params_def demo_control_env_def)
qed

end
