(* ===== verification/SessionLife.thy ===== *)
theory SessionLife
  imports ControlStream
begin

text \<open>
  The life of a stream session in \<^verbatim>\<open>src/stream.cpp\<close>: \<open>recvThread\<close>, which routes the client's ping
  datagrams to the sessions that wait for them; \<open>recv_ping\<close>, which registers a session there and
  waits for its ping; and \<open>session::start\<close>, \<open>stop\<close> and \<open>join\<close> with the count of running sessions
  that decides when the platform is told that streaming starts and stops. The steps of the threads
  interleave: \<open>start\<close> is cut in two where its threads run already but the state is not stored yet.
\<close>

section \<open>Routing pings\<close>

datatype socket_e = socket_video | socket_audio

text \<open>A session is found by the peer's address (legacy clients) or by the payload of its ping.\<close>

datatype av_session_id = ByAddress string | ByPayload bytes

type_synonym endpoint = "string \<times> nat"

text \<open>A message queue is a number; \<open>None\<close> takes the registration back.\<close>

type_synonym registration = "socket_e \<times> av_session_id \<times> nat option"

record recv_maps =
  rm_video :: "av_session_id \<rightharpoonup> nat"
  rm_audio :: "av_session_id \<rightharpoonup> nat"

definition recv_maps_new :: recv_maps where
  "recv_maps_new = \<lparr>rm_video = Map.empty, rm_audio = Map.empty\<rparr>"

definition register_peer ::
    "av_session_id \<Rightarrow> nat option \<Rightarrow> (av_session_id \<rightharpoonup> nat) \<Rightarrow> (av_session_id \<rightharpoonup> nat)" where
  "register_peer k q m = (case q of Some message_queue \<Rightarrow> emplace k message_queue m | None \<Rightarrow> m(k := None))"

fun populate_step :: "registration \<Rightarrow> recv_maps \<Rightarrow> recv_maps" where
  "populate_step (socket_video, k, q) m = m\<lparr>rm_video := register_peer k q (rm_video m)\<rparr>"
| "populate_step (socket_audio, k, q) m = m\<lparr>rm_audio := register_peer k q (rm_audio m)\<rparr>"

definition populate_peer_to_session :: "registration list \<Rightarrow> recv_maps \<Rightarrow> recv_maps" where
  "populate_peer_to_session rs m = fold populate_step rs m"

text \<open>
  A datagram that came in without error: which queue it is raised on. \<open>ping_size\<close> is the size of the
  protocol library's \<open>SS_PING\<close>, whose first 16 bytes are the payload.
\<close>

definition route_ping :: "nat \<Rightarrow> (av_session_id \<rightharpoonup> nat) \<Rightarrow> endpoint \<Rightarrow> bytes \<Rightarrow> nat option" where
  "route_ping ping_size peer_to_session peer buf =
    (if length buf = 0 then None
     else if length buf = 4 then peer_to_session (ByAddress (fst peer))
     else if ping_size \<le> length buf then peer_to_session (ByPayload (take 16 buf))
     else None)"

definition peer_map :: "socket_e \<Rightarrow> recv_maps \<Rightarrow> (av_session_id \<rightharpoonup> nat)" where
  "peer_map sock m = (case sock of socket_video \<Rightarrow> rm_video m | socket_audio \<Rightarrow> rm_audio m)"

definition recv_datagram ::
    "nat \<Rightarrow> socket_e \<Rightarrow> registration list \<Rightarrow> endpoint \<Rightarrow> bytes \<Rightarrow> recv_maps \<Rightarrow> nat option \<times> recv_maps" where
  "recv_datagram ping_size sock pending peer buf m =
    (let m = populate_peer_to_session pending m in
     (route_ping ping_size (peer_map sock m) peer buf, m))"

section \<open>Waiting for the ping\<close>

definition PING :: bytes where
  "PING = [80, 73, 78, 71]"

definition ping_matches :: "bool \<Rightarrow> bytes \<Rightarrow> bytes \<Rightarrow> bool" where
  "ping_matches session_id_v1 expected_payload msg \<longleftrightarrow>
     sublist expected_payload msg \<or> (\<not> session_id_v1 \<and> msg = PING)"

text \<open>
  The wait: each \<open>pop\<close> takes the rest of the time as its timeout and gives a message or nothing, and
  with it the time at which the loop reads the clock again. \<open>None\<close> is the ping timeout.
\<close>

fun ping_loop ::
    "int \<Rightarrow> bool \<Rightarrow> bytes \<Rightarrow> int \<Rightarrow> ((endpoint \<times> bytes) option \<times> int) list \<Rightarrow> endpoint option" where
  "ping_loop timeout v1 expected elapsed [] = None"
| "ping_loop timeout v1 expected elapsed ((msg_opt, now) # pops) =
    (if timeout \<le> elapsed then None
     else (case msg_opt of
             None \<Rightarrow> None
           | Some (recv_peer, msg) \<Rightarrow>
               if ping_matches v1 expected msg then Some recv_peer
               else ping_loop timeout v1 expected now pops))"

definition ping_register :: "socket_e \<Rightarrow> bool \<Rightarrow> bytes \<Rightarrow> endpoint \<Rightarrow> nat option \<Rightarrow> registration list" where
  "ping_register sock v1 expected peer q =
    (if v1 then [] else [(sock, ByAddress (fst peer), q)]) @ [(sock, ByPayload expected, q)]"

text \<open>
  \<open>recv_ping\<close>: the registrations it raises first, the peer it ends with and whether it succeeded,
  and the registrations its fail guard takes back, which the guard names by the peer of that moment.
\<close>

definition recv_ping ::
    "int \<Rightarrow> socket_e \<Rightarrow> bool \<Rightarrow> bytes \<Rightarrow> nat \<Rightarrow> endpoint \<Rightarrow> ((endpoint \<times> bytes) option \<times> int) list \<Rightarrow>
     registration list \<times> bool \<times> endpoint \<times> registration list" where
  "recv_ping timeout sock v1 expected q peer pops =
    (let before = ping_register sock v1 expected peer (Some q);
         result = ping_loop timeout v1 expected 0 pops;
         peer' = (case result of None \<Rightarrow> peer | Some p \<Rightarrow> p) in
     (before, result \<noteq> None, peer', ping_register sock v1 expected peer' None))"

section \<open>Start, stop and join\<close>

datatype host_call =
    StreamingWillStart | StreamingWillStop | ResetStats | RevertDisplay | ProfilesReset
  | InputReset nat | RecordStart nat | RecordEnd nat

text \<open>
  \<open>lv_workers\<close> is the number of the session's threads that still run; \<open>lv_app\<close> is whether it has an
  application name, without which nothing is recorded; \<open>lv_counted\<close> whether it was counted and
  \<open>lv_joined\<close> whether \<open>join\<close> returned.
\<close>

record live_session =
  lv_state :: state_e
  lv_workers :: nat
  lv_app :: bool
  lv_shutdown :: bool
  lv_controlEnd :: bool
  lv_counted :: bool
  lv_joined :: bool

record session_world =
  sw_sessions :: "live_session list"
  sw_running :: u32
  sw_calls :: "host_call list"

definition session_world_new :: session_world where
  "session_world_new = \<lparr>sw_sessions = [], sw_running = 0, sw_calls = []\<rparr>"

definition set_session :: "nat \<Rightarrow> live_session \<Rightarrow> session_world \<Rightarrow> session_world" where
  "set_session i s w = w\<lparr>sw_sessions := (sw_sessions w)[i := s]\<rparr>"

definition host :: "host_call \<Rightarrow> session_world \<Rightarrow> session_world" where
  "host c w = w\<lparr>sw_calls := sw_calls w @ [c]\<rparr>"

text \<open>\<open>alloc\<close> and the first part of \<open>start\<close>: the session is listed and its two threads run, its state
  is still \<open>STOPPED\<close>. Nothing is started when the broadcast threads are not there.\<close>

definition life_start_threads :: "bool \<Rightarrow> session_world \<Rightarrow> session_world" where
  "life_start_threads broadcast_ok w =
    (if \<not> broadcast_ok then w
     else w\<lparr>sw_sessions := sw_sessions w @ [\<lparr>lv_state = STOPPED, lv_workers = 2, lv_app = False,
       lv_shutdown = False, lv_controlEnd = False, lv_counted = False, lv_joined = False\<rparr>]\<rparr>)"

text \<open>The second part of \<open>start\<close>.\<close>

definition life_start_running :: "nat \<Rightarrow> bool \<Rightarrow> session_world \<Rightarrow> session_world" where
  "life_start_running i app w =
    (let s = sw_sessions w ! i;
         w = set_session i (s\<lparr>lv_state := RUNNING, lv_app := app, lv_counted := True\<rparr>) w;
         w = (if app then host (RecordStart i) w else w);
         w = w\<lparr>sw_running := sw_running w + 1\<rparr> in
     if sw_running w = 1 then host StreamingWillStart w else w)"

definition life_stop :: "nat \<Rightarrow> session_world \<Rightarrow> session_world" where
  "life_stop i w =
    (let s = sw_sessions w ! i in
     if lv_state s \<noteq> RUNNING then w
     else
       let w = set_session i (s\<lparr>lv_state := STOPPING, lv_shutdown := True\<rparr>) w in
       if sw_running w = 1 then host ResetStats w else w)"

text \<open>A worker ends, for whatever reason; its fail guard stops the session.\<close>

definition life_worker_end :: "nat \<Rightarrow> session_world \<Rightarrow> session_world" where
  "life_worker_end i w =
    (let w = life_stop i w; s = sw_sessions w ! i in
     set_session i (s\<lparr>lv_workers := lv_workers s - 1\<rparr>) w)"

text \<open>The control thread has taken the session out of its list.\<close>

definition life_control_end :: "nat \<Rightarrow> session_world \<Rightarrow> session_world" where
  "life_control_end i w = set_session i ((sw_sessions w ! i)\<lparr>lv_controlEnd := True\<rparr>) w"

text \<open>\<open>join\<close>, from where its waits are over.\<close>

definition life_join :: "nat \<Rightarrow> bool \<Rightarrow> bool \<Rightarrow> session_world \<Rightarrow> session_world" where
  "life_join i revert_on_disconnect proc_running w =
    (let s = sw_sessions w ! i;
         w = set_session i (s\<lparr>lv_joined := True\<rparr>) w;
         w = host (InputReset i) w;
         w = (if lv_app s then host (RecordEnd i) w else w);
         w = host ProfilesReset w;
         w = w\<lparr>sw_running := sw_running w - 1\<rparr> in
     if sw_running w = 0 then
       let w = host ResetStats w;
           revert = (if proc_running then revert_on_disconnect else True);
           w = (if revert then host RevertDisplay w else w) in
       host StreamingWillStop w
     else w)"

datatype life_op = StartThreads bool | StartRunning nat bool | Stop nat | WorkerEnd nat
  | ControlEnd nat | Join nat bool bool

text \<open>What a caller must wait for: \<open>start\<close> goes on once, a thread ends once, the control thread takes
  out sessions that are stopping, and \<open>join\<close> (called once) waits for the threads and for control.\<close>

fun life_enabled :: "life_op \<Rightarrow> session_world \<Rightarrow> bool" where
  "life_enabled (StartThreads ok) w = True"
| "life_enabled (StartRunning i app) w = (i < length (sw_sessions w) \<and> \<not> lv_counted (sw_sessions w ! i))"
| "life_enabled (Stop i) w = (i < length (sw_sessions w))"
| "life_enabled (WorkerEnd i) w = (i < length (sw_sessions w) \<and> 0 < lv_workers (sw_sessions w ! i))"
| "life_enabled (ControlEnd i) w = (i < length (sw_sessions w) \<and> lv_state (sw_sessions w ! i) = STOPPING)"
| "life_enabled (Join i rd pr) w = (i < length (sw_sessions w) \<and> lv_counted (sw_sessions w ! i) \<and>
     \<not> lv_joined (sw_sessions w ! i) \<and> lv_workers (sw_sessions w ! i) = 0 \<and>
     lv_controlEnd (sw_sessions w ! i))"

fun life_step :: "life_op \<Rightarrow> session_world \<Rightarrow> session_world" where
  "life_step (StartThreads ok) w = life_start_threads ok w"
| "life_step (StartRunning i app) w = life_start_running i app w"
| "life_step (Stop i) w = life_stop i w"
| "life_step (WorkerEnd i) w = life_worker_end i w"
| "life_step (ControlEnd i) w = life_control_end i w"
| "life_step (Join i rd pr) w = life_join i rd pr w"

inductive life_reachable :: "session_world \<Rightarrow> bool" where
  Init: "life_reachable session_world_new"
| Step: "life_reachable w \<Longrightarrow> life_enabled op w \<Longrightarrow> life_reachable (life_step op w)"

inductive_cases life_reachable_cases: "life_reachable w"

section \<open>Counting sessions\<close>

definition life_active :: "live_session \<Rightarrow> bool" where
  "life_active s \<longleftrightarrow> lv_counted s \<and> \<not> lv_joined s"

definition active_count :: "session_world \<Rightarrow> nat" where
  "active_count w = length (filter life_active (sw_sessions w))"

text \<open>Whether streaming is on for the platform; \<open>None\<close> when it was told twice.\<close>

fun stream_call :: "host_call \<Rightarrow> bool option \<Rightarrow> bool option" where
  "stream_call StreamingWillStart on = (if on = Some False then Some True else None)"
| "stream_call StreamingWillStop on = (if on = Some True then Some False else None)"
| "stream_call _ on = on"

definition stream_state :: "host_call list \<Rightarrow> bool option" where
  "stream_state cs = fold stream_call cs (Some False)"

lemma stream_state_append [simp]: "stream_state (cs @ ds) = fold stream_call ds (stream_state cs)"
  by (simp add: stream_state_def)

lemma stream_state_Nil [simp]: "stream_state [] = Some False"
  by (simp add: stream_state_def)

definition session_ok :: "live_session \<Rightarrow> bool" where
  "session_ok s \<longleftrightarrow> lv_state s \<noteq> STARTING \<and> (\<not> lv_counted s \<longrightarrow> lv_state s = STOPPED) \<and>
     (lv_controlEnd s \<longrightarrow> lv_state s = STOPPING) \<and>
     (lv_joined s \<longrightarrow> lv_state s = STOPPING \<and> lv_workers s = 0)"

definition life_inv :: "session_world \<Rightarrow> bool" where
  "life_inv w \<longleftrightarrow> unat (sw_running w) = active_count w \<and>
     stream_state (sw_calls w) = Some (sw_running w \<noteq> 0) \<and> list_all session_ok (sw_sessions w)"

lemma filter_update:
  "i < length xs \<Longrightarrow> length (filter P (xs[i := y])) + (if P (xs ! i) then 1 else 0) =
   length (filter P xs) + (if P y then 1 else 0)"
proof (induction xs arbitrary: i)
  case (Cons x xs)
  then show ?case by (cases i) auto
qed simp

lemma list_all_update: "list_all P xs \<Longrightarrow> P y \<Longrightarrow> list_all P (xs[i := y])"
  by (auto simp: list_all_iff dest: set_update_subset_insert [THEN subsetD])

lemma set_session_simps [simp]:
  "sw_sessions (set_session i s w) = (sw_sessions w)[i := s]"
  "sw_running (set_session i s w) = sw_running w" "sw_calls (set_session i s w) = sw_calls w"
  "sw_sessions (host c w) = sw_sessions w" "sw_running (host c w) = sw_running w"
  "sw_calls (host c w) = sw_calls w @ [c]"
  by (simp_all add: set_session_def host_def)

lemma active_set_session:
  "i < length (sw_sessions w) \<Longrightarrow> life_active s = life_active (sw_sessions w ! i) \<Longrightarrow>
   active_count (set_session i s w) = active_count w"
  using filter_update [of i "sw_sessions w" life_active s] by (auto simp: active_count_def split: if_splits)

lemma nth_ok: "life_inv w \<Longrightarrow> i < length (sw_sessions w) \<Longrightarrow> session_ok (sw_sessions w ! i)"
  by (simp add: life_inv_def list_all_length)

lemma set_session_inv:
  "life_inv w \<Longrightarrow> i < length (sw_sessions w) \<Longrightarrow> life_active s = life_active (sw_sessions w ! i) \<Longrightarrow>
   session_ok s \<Longrightarrow> life_inv (set_session i s w)"
  by (simp add: life_inv_def active_set_session list_all_update)

lemma host_inv: "stream_call c = (\<lambda>on. on) \<Longrightarrow> life_inv w \<Longrightarrow> life_inv (host c w)"
  by (simp add: life_inv_def active_count_def)

lemma start_threads_inv: "life_inv w \<Longrightarrow> life_inv (life_start_threads ok w)"
  by (simp add: life_start_threads_def life_inv_def active_count_def life_active_def session_ok_def)

lemma stop_inv: "life_inv w \<Longrightarrow> i < length (sw_sessions w) \<Longrightarrow> life_inv (life_stop i w)"
  using nth_ok [of w i]
  by (auto simp: life_stop_def Let_def session_ok_def life_active_def
      intro!: host_inv set_session_inv)

lemma stop_length [simp]: "length (sw_sessions (life_stop i w)) = length (sw_sessions w)"
  by (simp add: life_stop_def Let_def)

lemma worker_end_inv: "life_inv w \<Longrightarrow> i < length (sw_sessions w) \<Longrightarrow> life_inv (life_worker_end i w)"
  using stop_inv [of w i] nth_ok [of "life_stop i w" i]
  by (auto simp: life_worker_end_def Let_def session_ok_def life_active_def intro!: set_session_inv)

lemma control_end_inv:
  "life_inv w \<Longrightarrow> i < length (sw_sessions w) \<Longrightarrow> lv_state (sw_sessions w ! i) = STOPPING \<Longrightarrow>
   life_inv (life_control_end i w)"
  using nth_ok [of w i]
  by (auto simp: life_control_end_def session_ok_def life_active_def intro!: set_session_inv)

lemma start_running_inv:
  assumes inv: "life_inv w" and i: "i < length (sw_sessions w)" "\<not> lv_counted (sw_sessions w ! i)"
    and few: "length (sw_sessions w) < 2 ^ 32"
  shows "life_inv (life_start_running i app w)"
proof -
  let ?s = "sw_sessions w ! i"
  define t where "t = ?s\<lparr>lv_state := RUNNING, lv_app := app, lv_counted := True\<rparr>"
  have ok: "session_ok ?s" by (rule nth_ok [OF inv i(1)])
  then have joined: "\<not> lv_joined ?s" "\<not> lv_controlEnd ?s" using i(2) by (auto simp: session_ok_def)
  have ia: "\<not> life_active ?s" "life_active t" using i(2) joined by (simp_all add: life_active_def t_def)
  have cnt: "length (filter life_active ((sw_sessions w)[i := t])) = active_count w + 1"
    using filter_update [OF i(1), of life_active t] ia by (simp add: active_count_def)
  have "active_count w < length (sw_sessions w)"
    unfolding active_count_def using ia(1) i(1) by (auto intro!: length_filter_less)
  then have lt: "active_count w + 1 < 2 ^ 32" using few by simp
  have run: "unat (sw_running w) = active_count w" using inv by (simp add: life_inv_def)
  have "unat (sw_running w + 1) = active_count w + 1"
    using unat_word_ariths(1) [of "sw_running w" 1] run lt by simp
  moreover have one: "sw_running w + 1 = 1 \<longleftrightarrow> sw_running w = 0" by simp
  moreover have "sw_running w + 1 \<noteq> 0" using calculation(1) by (metis add_is_0 one_neq_zero unat_0)
  moreover have "session_ok t" using joined by (simp add: session_ok_def t_def)
  moreover have "sw_running w = 0 \<longrightarrow> active_count w = 0" using run by auto
  ultimately show ?thesis
    using inv cnt unfolding life_start_running_def Let_def t_def [symmetric]
    by (cases app) (simp_all add: life_inv_def active_count_def list_all_update)
qed

lemma join_inv:
  assumes inv: "life_inv w" and en: "life_enabled (Join i rd pr) w"
  shows "life_inv (life_join i rd pr w)"
proof -
  let ?s = "sw_sessions w ! i"
  let ?t = "?s\<lparr>lv_joined := True\<rparr>"
  have i: "i < length (sw_sessions w)" using en by simp
  have ok: "session_ok ?s" by (rule nth_ok [OF inv i])
  have ia: "life_active ?s" "\<not> life_active ?t" using en by (simp_all add: life_active_def)
  have cnt: "length (filter life_active ((sw_sessions w)[i := ?t])) + 1 = active_count w"
    using filter_update [OF i, of life_active ?t] ia by (simp add: active_count_def)
  have run: "unat (sw_running w) = active_count w" using inv by (simp add: life_inv_def)
  then have "sw_running w \<noteq> 0" using cnt by (metis add_is_0 one_neq_zero unat_0)
  then have dec: "unat (sw_running w - 1) = active_count w - 1"
    using run by (metis unat_minus_one)
  have "sw_running w = 1 \<longrightarrow> active_count w = 1" using run by auto
  moreover have "length (filter life_active ((sw_sessions w)[i := ?t])) = active_count w - 1"
    using cnt by simp
  moreover have "session_ok ?t" using ok en by (simp add: session_ok_def)
  ultimately show ?thesis
    using inv dec \<open>sw_running w \<noteq> 0\<close>
    by (simp add: life_join_def Let_def life_inv_def active_count_def list_all_update)
qed

lemma life_step_inv:
  assumes "life_inv w" and "life_enabled op w" and "length (sw_sessions w) < 2 ^ 32"
  shows "life_inv (life_step op w)"
proof (cases op)
  case (Join i rd pr)
  then show ?thesis using assms join_inv by simp
qed (use assms in \<open>simp_all add: start_threads_inv start_running_inv stop_inv worker_end_inv control_end_inv\<close>)

lemma life_step_length: "length (sw_sessions w) \<le> length (sw_sessions (life_step op w))"
  by (cases op) (simp_all add: life_start_threads_def life_start_running_def life_worker_end_def
      life_control_end_def life_join_def Let_def)

lemma life_reachable_inv:
  "life_reachable w \<Longrightarrow> length (sw_sessions w) < 2 ^ 32 \<Longrightarrow> life_inv w"
proof (induction rule: life_reachable.induct)
  case Init
  then show ?case by (simp add: life_inv_def session_world_new_def active_count_def)
next
  case (Step w op)
  then have "length (sw_sessions w) < 2 ^ 32" using life_step_length [of w op] by linarith
  then show ?case using Step life_step_inv by blast
qed

section \<open>Routing\<close>

lemma peer_map_step [simp]:
  "peer_map s (populate_step (s', k, q) m) =
   (if s = s' then register_peer k q (peer_map s m) else peer_map s m)"
  by (cases s; cases s') (simp_all add: peer_map_def)

lemma register_peer_simps [simp]:
  "register_peer k None m k' = (if k' = k then None else m k')"
  "register_peer k (Some q) m k' = (if k' = k \<and> m k = None then Some q else m k')"
  by (auto simp: register_peer_def emplace_def)

lemma populate_other:
  "\<forall>(s, k', q) \<in> set rs. s \<noteq> sock \<or> k' \<noteq> k \<Longrightarrow>
   peer_map sock (fold populate_step rs m) k = peer_map sock m k"
proof (induction rs arbitrary: m)
  case (Cons r rs)
  obtain s k' q where r: "r = (s, k', q)" by (cases r)
  have "peer_map sock (fold populate_step rs (populate_step r m)) k = peer_map sock (populate_step r m) k"
    using Cons by simp
  also have "\<dots> = peer_map sock m k" using Cons.prems by (cases q) (auto simp: r)
  finally show ?case by simp
qed simp

lemma ping_register_payload:
  "peer_map sock (fold populate_step (ping_register sock v1 expected peer q) m) (ByPayload expected) =
   (case q of None \<Rightarrow> None
            | Some i \<Rightarrow> (case peer_map sock m (ByPayload expected) of None \<Rightarrow> Some i | Some j \<Rightarrow> Some j))"
  by (cases q) (auto simp: ping_register_def split: option.splits)

section \<open>Properties\<close>



text \<open>A ping that carries a session's payload reaches the message queue of exactly the session
  that registered this payload, wherever it comes from and whatever other sessions register or take
  back, provided nobody else uses the payload; after the session took its registration back, it
  reaches nobody.\<close>

theorem ping_routed:
  assumes "take 16 buf = expected" and "16 < ping_size" and "ping_size \<le> length buf"
    and "peer_map sock m (ByPayload expected) = None"
    and "\<forall>(s, k, q') \<in> set rs \<union> set rs'. s \<noteq> sock \<or> k \<noteq> ByPayload expected"
  shows "fst (recv_datagram ping_size sock
      (ping_register sock v1 expected peer (Some q) @ rs) from_peer buf m) = Some q \<and>
    fst (recv_datagram ping_size sock (ping_register sock v1 expected peer (Some q) @ rs @
      ping_register sock v1 expected peer' None @ rs') from_peer buf m) = None"
proof -
  have rs: "\<forall>(s, k, q') \<in> set rs. s \<noteq> sock \<or> k \<noteq> ByPayload expected"
    and rs': "\<forall>(s, k, q') \<in> set rs'. s \<noteq> sock \<or> k \<noteq> ByPayload expected"
    using assms(5) by blast+
  have "length buf \<noteq> 0 \<and> length buf \<noteq> 4" using assms(2,3) by linarith
  then show ?thesis
    using assms(1,3,4)
    by (simp add: recv_datagram_def populate_peer_to_session_def route_ping_def
        populate_other [OF rs] populate_other [OF rs'] ping_register_payload)
qed

theorem ping_routed_witness:
  "fst (recv_datagram 20 socket_video
     (ping_register socket_video True (replicate 16 7) (''10.0.0.2'', 0) (Some 5) @ [])
     (''10.0.0.9'', 4000) (replicate 20 7) recv_maps_new) = Some 5"
  using ping_routed [of "replicate 20 7" "replicate 16 7" 20 socket_video recv_maps_new "[]" "[]" True
      "(''10.0.0.2'', 0)" 5 "(''10.0.0.9'', 4000)" "(''10.0.0.2'', 0)"]
  by (simp add: recv_maps_new_def peer_map_def)

end
