(* ===== verification/NetUtil.thy ===== *)
theory NetUtil
  imports Prelude
begin

text \<open>
  The conversions of \<^verbatim>\<open>src/utility.h\<close> (hexadecimal, decimal) and the address helpers of
  \<^verbatim>\<open>src/network.cpp\<close>. A \<^verbatim>\<open>std::string\<close> is its list of bytes; \<open>ascii\<close> gives those of a literal. Parsing
  and printing of IP addresses and networks belongs to Boost: the functions that need it take it as
  an argument. The lemmas show that decoding undoes encoding, that malformed input is refused, and
  the bounds of ports and instance names.
\<close>

definition ascii :: "string \<Rightarrow> bytes" where
  "ascii s = map of_char s"

lemma of_char_u8_inj: "(of_char c :: u8) = of_char d \<longleftrightarrow> c = d"
proof
  assume e: "(of_char c :: u8) = of_char d"
  have "[digit0 c, digit1 c, digit2 c, digit3 c, digit4 c, digit5 c, digit6 c, digit7 c] ! n =
    [digit0 d, digit1 d, digit2 d, digit3 d, digit4 d, digit5 d, digit6 d, digit7 d] ! n" if "n < 8" for n
    using arg_cong [OF e, of "\<lambda>w. bit w n"] that
    unfolding of_char_def bit_horner_sum_bit_word_iff by simp
  from this [of 0] this [of 1] this [of 2] this [of 3] this [of 4] this [of 5] this [of 6] this [of 7]
  show "c = d" by (intro char.expand) simp
qed simp

lemma ascii_inj: "ascii s = ascii t \<longleftrightarrow> s = t"
proof (induction s arbitrary: t)
  case Nil
  then show ?case by (cases t) (simp_all add: ascii_def)
next
  case (Cons c s)
  then show ?case by (cases t) (simp_all add: ascii_def of_char_u8_inj)
qed

section \<open>Hexadecimal\<close>

definition hex_bits :: "nat \<Rightarrow> u8" where
  "hex_bits d = (if d < 10 then 48 + of_nat d else 55 + of_nat d)"

definition hex_byte :: "u8 \<Rightarrow> bytes" where
  "hex_byte b = [hex_bits (unat b div 16), hex_bits (unat b mod 16)]"

definition hex_vec :: "bytes \<Rightarrow> bool \<Rightarrow> bytes" where
  "hex_vec b reversed = concat (map hex_byte (if reversed then b else rev b))"

definition hex_digit :: "u8 \<Rightarrow> nat option" where
  "hex_digit c =
    (if 48 \<le> c \<and> c \<le> 57 then Some (unat c - 48)
     else if 97 \<le> c \<and> c \<le> 102 then Some (unat c - 97 + 10)
     else if 65 \<le> c \<and> c \<le> 70 then Some (unat c - 65 + 10)
     else None)"

text \<open>The pairs of digits, in the order of the text.\<close>

fun decode_pairs :: "bytes \<Rightarrow> bytes option" where
  "decode_pairs [] = Some []"
| "decode_pairs [c] = None"
| "decode_pairs (h # l # cs) =
    (case (hex_digit h, hex_digit l, decode_pairs cs) of
       (Some high, Some low, Some bs) \<Rightarrow> Some (of_nat (high * 16 + low) # bs)
     | _ \<Rightarrow> None)"

definition decode_hex :: "bytes \<Rightarrow> bool \<Rightarrow> bytes option" where
  "decode_hex hex reversed = map_option (if reversed then id else rev) (decode_pairs hex)"

text \<open>\<open>from_hex\<close> into an object of \<open>n\<close> bytes.\<close>

definition from_hex :: "nat \<Rightarrow> bytes \<Rightarrow> bool \<Rightarrow> bytes option" where
  "from_hex n hex reversed =
    (case decode_hex hex False of
       None \<Rightarrow> None
     | Some decoded \<Rightarrow>
         if n < length decoded then None
         else
           let b = decoded @ replicate (n - length decoded) 0 in
           Some (if reversed then rev b else b))"

definition from_hex_vec :: "bytes \<Rightarrow> bool \<Rightarrow> bytes" where
  "from_hex_vec hex reversed = (case decode_hex hex reversed of None \<Rightarrow> [] | Some b \<Rightarrow> b)"

section \<open>Decimal\<close>

definition decimal_digit :: "u8 \<Rightarrow> nat option" where
  "decimal_digit c = (if 48 \<le> c \<and> c \<le> 57 then Some (unat c - 48) else None)"

fun decimal_digits :: "nat \<Rightarrow> bytes \<Rightarrow> nat option" where
  "decimal_digits acc [] = Some acc"
| "decimal_digits acc (c # cs) =
    (case decimal_digit c of None \<Rightarrow> None | Some d \<Rightarrow> decimal_digits (acc * 10 + d) cs)"

text \<open>
  \<open>parse_integer\<close> for a type with the values \<open>lo\<close> to \<open>hi\<close>: \<open>std::from_chars\<close> takes a minus sign for
  signed types only, no plus sign and no blanks, and the whole text must be used.
\<close>

definition parse_integer :: "int \<Rightarrow> int \<Rightarrow> bytes \<Rightarrow> int option" where
  "parse_integer lo hi number =
    (let negative = (lo < 0 \<and> number \<noteq> [] \<and> hd number = 45);
         digits = (if negative then tl number else number) in
     if digits = [] then None
     else
       case decimal_digits 0 digits of
         None \<Rightarrow> None
       | Some n \<Rightarrow>
           let v = (if negative then - int n else int n) in
           if lo \<le> v \<and> v \<le> hi then Some v else None)"

definition parse_int64 :: "bytes \<Rightarrow> int option" where
  "parse_int64 = parse_integer (- (2 ^ 63)) (2 ^ 63 - 1)"

definition from_view :: "bytes \<Rightarrow> int" where
  "from_view number = (case parse_int64 number of None \<Rightarrow> 0 | Some v \<Rightarrow> v)"

text \<open>\<^verbatim>\<open>std::to_string\<close>.\<close>

fun decimal_text :: "nat \<Rightarrow> bytes" where
  "decimal_text n = (if n < 10 then [48 + of_nat n] else decimal_text (n div 10) @ [48 + of_nat (n mod 10)])"

declare decimal_text.simps [simp del]

definition int_text :: "int \<Rightarrow> bytes" where
  "int_text i = (if i < 0 then 45 # decimal_text (nat (- i)) else decimal_text (nat i))"

definition parse_monitor_index :: "bytes \<Rightarrow> int \<Rightarrow> int" where
  "parse_monitor_index txt fallback =
    (if txt = [] then fallback
     else if \<not> list_all (\<lambda>c. 48 \<le> c \<and> c \<le> 57) txt then fallback
     else case parse_int64 txt of None \<Rightarrow> fallback | Some v \<Rightarrow> v)"

section \<open>Addresses and names\<close>

datatype net_e = PC | LAN | WAN

definition from_enum_string :: "bytes \<Rightarrow> net_e" where
  "from_enum_string v = (if v = ascii ''wan'' then WAN else if v = ascii ''lan'' then LAN else PC)"

definition to_enum_string :: "net_e \<Rightarrow> bytes" where
  "to_enum_string n = (case n of PC \<Rightarrow> ascii ''pc'' | LAN \<Rightarrow> ascii ''lan'' | WAN \<Rightarrow> ascii ''wan'')"

datatype af_e = IPV4 | BOTH

definition af_from_enum_string :: "bytes \<Rightarrow> af_e" where
  "af_from_enum_string v = (if v = ascii ''ipv4'' then IPV4 else BOTH)"

definition af_to_any_address_string :: "af_e \<Rightarrow> bytes" where
  "af_to_any_address_string af = (case af of IPV4 \<Rightarrow> ascii ''0.0.0.0'' | BOTH \<Rightarrow> ascii ''::'')"

definition get_bind_address :: "bytes \<Rightarrow> af_e \<Rightarrow> bytes" where
  "get_bind_address bind_address af =
    (if bind_address \<noteq> [] then bind_address else af_to_any_address_string af)"

definition map_port :: "int \<Rightarrow> int \<Rightarrow> u16" where
  "map_port base port =
    (let mapped = base + port in
     if mapped < 1024 then 1024 else if 65535 < mapped then 65535 else of_int mapped)"

definition is_alnum :: "u8 \<Rightarrow> bool" where
  "is_alnum c \<longleftrightarrow> 48 \<le> c \<and> c \<le> 57 \<or> 65 \<le> c \<and> c \<le> 90 \<or> 97 \<le> c \<and> c \<le> 122"

fun mdns_chars :: "bytes \<Rightarrow> bytes" where
  "mdns_chars [] = []"
| "mdns_chars (c # cs) =
    (if c = 32 then 45 # mdns_chars cs
     else if \<not> is_alnum c \<and> c \<noteq> 45 then []
     else c # mdns_chars cs)"

definition mdns_instance_name :: "bytes \<Rightarrow> bytes" where
  "mdns_instance_name hostname =
    (let instancename = mdns_chars (take 63 hostname) in
     if instancename \<noteq> [] then instancename else ascii ''Sunshine'')"

text \<open>What the code takes from Boost: parsing an address (and whether it is version 4, after the
  mapping of version 6 addresses is undone), and whether a network, given as text, has an address
  among its hosts; \<open>None\<close> when the text is malformed.\<close>

record 'a ip_lib =
  ip_make_address :: "bytes \<Rightarrow> 'a option"
  ip_normalize :: "'a \<Rightarrow> 'a"
  ip_is_v4 :: "'a \<Rightarrow> bool"
  ip_v4_hosts :: "bytes \<Rightarrow> 'a \<Rightarrow> bool option"
  ip_v6_hosts :: "bytes \<Rightarrow> 'a \<Rightarrow> bool option"

definition from_address :: "'a ip_lib \<Rightarrow> bytes \<Rightarrow> net_e option" where
  "from_address ip view =
    (case ip_make_address ip view of
       None \<Rightarrow> None
     | Some a \<Rightarrow>
         let addr = ip_normalize ip a;
             inside = (\<lambda>hosts r. hosts r addr = Some True);
             hosts = (if ip_is_v4 ip addr then ip_v4_hosts ip else ip_v6_hosts ip);
             pc = (if ip_is_v4 ip addr then [ascii ''127.0.0.0/8''] else [ascii ''::1/128'']);
             lan = (if ip_is_v4 ip addr
                    then map ascii [''192.168.0.0/16'', ''172.16.0.0/12'', ''10.0.0.0/8'',
                           ''100.64.0.0/10'', ''169.254.0.0/16'']
                    else map ascii [''fc00::/7'', ''fe80::/64'']) in
         Some (if list_ex (inside hosts) pc then PC else if list_ex (inside hosts) lan then LAN else WAN))"

definition encryption_mode_for_address :: "int \<Rightarrow> int \<Rightarrow> net_e \<Rightarrow> int" where
  "encryption_mode_for_address lan_mode wan_mode nettype =
    (if nettype = PC \<or> nettype = LAN then lan_mode else wan_mode)"

text \<open>\<open>std::getline\<close> with a separator: the fields; an empty one after the last separator is none.\<close>

fun split_on :: "u8 \<Rightarrow> bytes \<Rightarrow> bytes \<Rightarrow> bytes list" where
  "split_on sep acc [] = (if acc = [] then [] else [rev acc])"
| "split_on sep acc (c # cs) = (if c = sep then rev acc # split_on sep [] cs else split_on sep (c # acc) cs)"

definition is_blank :: "u8 \<Rightarrow> bool" where
  "is_blank c \<longleftrightarrow> c = 32 \<or> c = 9 \<or> c = 13 \<or> c = 10"

definition trim :: "bytes \<Rightarrow> bytes" where
  "trim s = rev (dropWhile is_blank (rev (dropWhile is_blank s)))"

definition is_trusted_subnet :: "'a ip_lib \<Rightarrow> bytes \<Rightarrow> bytes \<Rightarrow> bool" where
  "is_trusted_subnet ip client_ip trusted_subnets =
    (if trusted_subnets = [] \<or> client_ip = [] then False
     else case ip_make_address ip client_ip of
       None \<Rightarrow> False
     | Some a \<Rightarrow>
         let addr = ip_normalize ip a in
         list_ex (\<lambda>cidr. cidr \<noteq> [] \<and>
             (if ip_is_v4 ip addr then ip_v4_hosts ip cidr addr else ip_v6_hosts ip cidr addr) = Some True)
           (map trim (split_on 44 [] trusted_subnets)))"

section \<open>Facts\<close>

lemma hex_bits_digit: "d < 16 \<Longrightarrow> hex_digit (hex_bits d) = Some d"
proof -
  assume "d < 16"
  then have "d \<in> set [0..<16]" by simp
  moreover have "list_all (\<lambda>d. hex_digit (hex_bits d) = Some d) [0..<16]" by code_simp
  ultimately show ?thesis by (simp only: list_all_iff)
qed

lemma unat_u8_less: "unat (b :: u8) < 256"
proof -
  have "unat b < 2 ^ LENGTH(8)" by (rule unsigned_less)
  then show ?thesis by simp
qed

lemma decode_hex_bytes: "decode_pairs (concat (map hex_byte b)) = Some b"
proof (induction b)
  case (Cons x b)
  have "hex_digit (hex_bits (unat x div 16)) = Some (unat x div 16)"
    and "hex_digit (hex_bits (unat x mod 16)) = Some (unat x mod 16)"
    using unat_u8_less [of x] by (simp_all add: hex_bits_digit)
  then show ?case using Cons by (simp add: hex_byte_def)
qed simp

lemma decode_pairs_odd: "odd (length cs) \<Longrightarrow> decode_pairs cs = None"
  by (induction cs rule: decode_pairs.induct) (auto split: option.splits)

lemma decode_pairs_bad: "c \<in> set cs \<Longrightarrow> hex_digit c = None \<Longrightarrow> decode_pairs cs = None"
  by (induction cs rule: decode_pairs.induct) (auto split: option.splits)

lemma decode_pairs_good:
  "even (length cs) \<Longrightarrow> \<not> list_ex (\<lambda>c. hex_digit c = None) cs \<Longrightarrow> \<exists>b. decode_pairs cs = Some b"
  by (induction cs rule: decode_pairs.induct) (auto split: option.splits)

lemma decode_pairs_length: "decode_pairs cs = Some b \<Longrightarrow> length cs = 2 * length b"
  by (induction cs arbitrary: b rule: decode_pairs.induct) (auto split: option.splits)

lemma mdns_chars_ok: "list_all (\<lambda>c. is_alnum c \<or> c = 45) (mdns_chars s) \<and> length (mdns_chars s) \<le> length s"
  by (induction s) (auto simp: is_alnum_def)

lemma mdns_instance_name_ok:
  "list_all (\<lambda>c. is_alnum c \<or> c = 45) (mdns_instance_name h) \<and>
   0 < length (mdns_instance_name h) \<and> length (mdns_instance_name h) \<le> 63"
proof -
  have "list_all (\<lambda>c. is_alnum c \<or> c = 45) (ascii ''Sunshine'') \<and> length (ascii ''Sunshine'') = 8"
    by code_simp
  then show ?thesis
    using mdns_chars_ok [of "take 63 h"] by (auto simp: mdns_instance_name_def Let_def)
qed

lemma map_port_range: "1024 \<le> unat (map_port base port)"
proof -
  have "unat (of_int m :: u16) = nat m" if "1024 \<le> m" "m \<le> 65535" for m
    using that by (simp add: unsigned_of_int take_bit_int_eq_self)
  from this [of "base + port"] show ?thesis by (auto simp: map_port_def Let_def simp del: of_int_add)
qed

section \<open>Properties\<close>

text \<open>Hexadecimal text: decoding what \<open>hex_vec\<close> printed gives the bytes back, in both byte
  orders; text of odd length or with a character that is no hexadecimal digit decodes to nothing.\<close>

theorem hex_roundtrip:
  "from_hex_vec (hex_vec b r) r = b \<and> from_hex (length b) (hex_vec b r) r = Some b \<and>
   decode_hex (hex_vec b r) (\<not> r) = Some (rev b) \<and>
   (if even (length t) \<and> list_all (\<lambda>c. hex_digit c \<noteq> None) t
    then length (from_hex_vec t r) = length t div 2
    else decode_hex t r = None \<and> from_hex_vec t r = [])"
proof (intro conjI)
  show "from_hex_vec (hex_vec b r) r = b" "decode_hex (hex_vec b r) (\<not> r) = Some (rev b)"
    "from_hex (length b) (hex_vec b r) r = Some b"
    by (cases r; simp add: from_hex_vec_def from_hex_def decode_hex_def hex_vec_def decode_hex_bytes)+
  show "if even (length t) \<and> list_all (\<lambda>c. hex_digit c \<noteq> None) t
    then length (from_hex_vec t r) = length t div 2
    else decode_hex t r = None \<and> from_hex_vec t r = []"
  proof (cases "even (length t) \<and> list_all (\<lambda>c. hex_digit c \<noteq> None) t")
    case False
    then have "decode_pairs t = None"
      using decode_pairs_odd [of t] decode_pairs_bad [of _ t] by (auto simp: list_all_iff)
    then show ?thesis using False by (auto simp: decode_hex_def from_hex_vec_def)
  next
    case True
    then have "\<not> list_ex (\<lambda>c. hex_digit c = None) t" by (auto simp: list_all_iff list_ex_iff)
    then obtain bs where "decode_pairs t = Some bs" using True decode_pairs_good [of t] by auto
    then show ?thesis using True decode_pairs_length [of t bs]
      by (auto simp: decode_hex_def from_hex_vec_def)
  qed
qed

end
