(* ===== verification/Process.thy ===== *)
theory Process
  imports NetUtil
begin

text \<open>
  Applications and their commands (\<^verbatim>\<open>src/process.cpp\<close>): the text of \<^verbatim>\<open>apps.json\<close> with its variables,
  identifiers and pictures of applications, and the one running application: the commands before it,
  its process, the undo commands, and the encoder preset it may override. What the system answers is
  a function of the history, so that every behaviour of the commands is covered. The history read as a
  stack is the specification of do and undo; the preset is an instance of \<open>overlay\<close>.
\<close>

section \<open>Variables in the text of apps.json\<close>

text \<open>
  \<open>find_match\<close> starts on an opening bracket. The loop reads \<open>*end\<close>, the NUL after the text, and then
  throws. Given the text from the bracket on, the result is the text up to the closing bracket, with
  the opening one, and the text from the closing bracket on.
\<close>

fun match_from :: "int \<Rightarrow> bytes \<Rightarrow> bytes \<Rightarrow> (bytes \<times> bytes) option" where
  "match_from stack before [] = None"
| "match_from stack before (c # cs) =
    (let stack = (if c = 40 then stack + 1 else if c = 41 then stack - 1 else stack) in
     if stack = 0 then Some (before, c # cs) else match_from stack (before @ [c]) cs)"

definition find_match :: "bytes \<Rightarrow> (bytes \<times> bytes) option" where
  "find_match txt = match_from 0 [] txt"

lemma match_from_shorter: "match_from stack before cs = Some (x, y) \<Longrightarrow> length y \<le> length cs"
  by (induction cs arbitrary: stack before) (fastforce simp: Let_def split: if_splits)+

text \<open>
  The scan of \<open>parse_env_val\<close>: what is in \<open>ss\<close> already and what follows \<open>next\<close>, the place from which
  the code looks for a dollar sign. The text between \<open>pos\<close> and \<open>next\<close> that is still to be written is
  added to the output at once, as it is written unchanged in every case. \<open>None\<close> is the exception of
  \<open>find_match\<close>.
\<close>

function expand_from :: "(bytes \<Rightarrow> bytes) \<Rightarrow> bytes \<Rightarrow> bytes option" where
  "expand_from env [] = Some []"
| "expand_from env [c] = Some [c]"
| "expand_from env (c # d # cs) =
    (if c \<noteq> 36 then map_option (Cons c) (expand_from env (d # cs))
     else if d = 40 then
       (case find_match (d # cs) of
          None \<Rightarrow> None
        | Some (bracketed, rest) \<Rightarrow>
            map_option (append (env (tl bracketed))) (expand_from env (tl rest)))
     else if d = 36 then map_option (Cons 36) (expand_from env cs)
     else map_option (Cons c) (expand_from env (d # cs)))"
  by pat_completeness auto
termination
proof (relation "measure (\<lambda>(env, txt). length txt)", goal_cases)
  case (3 env c d cs p bracketed rest)
  then have "length rest \<le> length (d # cs)"
    using match_from_shorter [of 0 "[]" "d # cs"] unfolding find_match_def by blast
  then show ?case by (cases rest) auto
qed simp_all

definition parse_env_val :: "(bytes \<Rightarrow> bytes) \<Rightarrow> bytes \<Rightarrow> bytes option" where
  "parse_env_val env val_raw = expand_from env val_raw"

section \<open>Pictures of applications\<close>

text \<open>What the functions ask the file system: is there a file, and what does it hold.\<close>

record files =
  fs_assets_dir :: bytes
  fs_exists :: "bytes \<Rightarrow> bool"
  fs_content :: "bytes \<Rightarrow> bytes option"

definition PNG_SIGNATURE :: bytes where
  "PNG_SIGNATURE = [0x89, 0x50, 0x4E, 0x47, 0x0D, 0x0A, 0x1A, 0x0A]"

definition check_valid_png :: "files \<Rightarrow> bytes \<Rightarrow> bool" where
  "check_valid_png fs path =
    (case fs_content fs path of
       None \<Rightarrow> False
     | Some content \<Rightarrow> if length content < 8 then False else take 8 content = PNG_SIGNATURE)"

text \<open>\<^verbatim>\<open>std::filesystem::path\<close>: the last component, its extension, and \<^verbatim>\<open>/\<close>.\<close>

definition path_filename :: "bytes \<Rightarrow> bytes" where
  "path_filename p = rev (takeWhile (\<lambda>c. c \<noteq> 47) (rev p))"

definition path_extension :: "bytes \<Rightarrow> bytes" where
  "path_extension p =
    (let f = path_filename p; stem = rev (tl (dropWhile (\<lambda>c. c \<noteq> 46) (rev f))) in
     if f = ascii ''.'' \<or> f = ascii ''..'' \<or> 46 \<notin> set f \<or> stem = [] then []
     else drop (length stem) f)"

definition path_append :: "bytes \<Rightarrow> bytes \<Rightarrow> bytes" where
  "path_append a b =
    (if b \<noteq> [] \<and> hd b = 47 then b
     else if a \<noteq> [] \<and> last a \<noteq> 47 then a @ 47 # b else a @ b)"

definition lower_char :: "u8 \<Rightarrow> u8" where
  "lower_char c = (if 65 \<le> c \<and> c \<le> 90 then c + 32 else c)"

definition default_app_image :: "files \<Rightarrow> bytes" where
  "default_app_image fs = fs_assets_dir fs @ ascii ''/box.png''"

definition validate_app_image_path :: "files \<Rightarrow> bytes \<Rightarrow> bytes" where
  "validate_app_image_path fs app_image_path =
    (if app_image_path = [] then default_app_image fs
     else if map lower_char (path_extension app_image_path) \<noteq> ascii ''.png'' then default_app_image fs
     else
       let full_image_path = path_append (fs_assets_dir fs) app_image_path in
       if fs_exists fs full_image_path then
         (if check_valid_png fs full_image_path then full_image_path else default_app_image fs)
       else if app_image_path = ascii ''./assets/steam.png'' then fs_assets_dir fs @ ascii ''/steam.png''
       else if \<not> fs_exists fs app_image_path then default_app_image fs
       else if \<not> check_valid_png fs app_image_path then default_app_image fs
       else app_image_path)"

section \<open>Applications\<close>

record prep_cmd =
  do_cmd :: bytes
  undo_cmd :: bytes
  cmd_elevated :: bool

record app =
  app_prep_cmds :: "prep_cmd list"
  app_detached :: "bytes list"
  app_name :: bytes
  app_cmd :: bytes
  app_working_dir :: bytes
  app_output :: bytes
  app_image_path :: bytes
  app_id :: bytes
  app_elevated :: bool
  app_auto_detach :: bool
  app_wait_all :: bool
  app_exit_timeout :: int
  app_encoder_preset_override :: int

definition no_app :: app where
  "no_app = \<lparr>app_prep_cmds = [], app_detached = [], app_name = [], app_cmd = [], app_working_dir = [],
     app_output = [], app_image_path = [], app_id = [], app_elevated = False, app_auto_detach = False,
     app_wait_all = False, app_exit_timeout = 0, app_encoder_preset_override = -1\<rparr>"

text \<open>
  The identifier of an application is the CRC of its name and picture, as a signed number without its
  sign; \<^verbatim>\<open>abs\<close> of the least number is the least number again. CRC and SHA-256 are arguments.
\<close>

definition signed_id :: "u32 \<Rightarrow> bytes" where
  "signed_id crc = int_text (sint (if sint crc < 0 then - crc else crc))"

record hashes =
  crc32 :: "bytes \<Rightarrow> u32"
  file_sha256 :: "bytes \<Rightarrow> bytes option"

definition calculate_app_id :: "hashes \<Rightarrow> files \<Rightarrow> bytes \<Rightarrow> bytes \<Rightarrow> int \<Rightarrow> bytes \<times> bytes" where
  "calculate_app_id h fs name image_path index =
    (let file_path = validate_app_image_path fs image_path;
         input_no_index =
           (if file_path = default_app_image fs then name
            else name @ (case file_sha256 h file_path of Some file_hash \<Rightarrow> file_hash | None \<Rightarrow> file_path));
         input_with_index = input_no_index @ int_text index in
     (signed_id (crc32 h input_no_index), signed_id (crc32 h input_with_index)))"

text \<open>What \<^verbatim>\<open>read_json\<close> delivers; an absent key is \<open>None\<close>.\<close>

record prep_node =
  pn_do :: "bytes option"
  pn_undo :: "bytes option"
  pn_elevated :: "bool option"

record app_node =
  an_prep_cmd :: "prep_node list option"
  an_detached :: "bytes list option"
  an_exclude_global_prep :: "bool option"
  an_output :: "bytes option"
  an_name :: "bytes option"
  an_cmd :: "bytes option"
  an_image_path :: "bytes option"
  an_working_dir :: "bytes option"
  an_elevated :: "bool option"
  an_auto_detach :: "bool option"
  an_wait_all :: "bool option"
  an_exit_timeout :: "int option"
  an_encoder_preset :: "int option"

record apps_tree =
  at_env :: "(bytes \<times> bytes) list option"
  at_apps :: "app_node list option"

definition value_or :: "'a option \<Rightarrow> 'a \<Rightarrow> 'a" where
  "value_or x d = (case x of Some v \<Rightarrow> v | None \<Rightarrow> d)"

fun parse_all :: "('a \<Rightarrow> 'b option) \<Rightarrow> 'a list \<Rightarrow> 'b list option" where
  "parse_all f [] = Some []"
| "parse_all f (x # xs) = Option.bind (f x) (\<lambda>y. map_option (Cons y) (parse_all f xs))"

definition env_lookup :: "(bytes \<rightharpoonup> bytes) \<Rightarrow> bytes \<Rightarrow> bytes" where
  "env_lookup env name = value_or (env name) []"

text \<open>Each variable of the file sees those before it.\<close>

fun parse_env :: "(bytes \<times> bytes) list \<Rightarrow> (bytes \<rightharpoonup> bytes) \<Rightarrow> (bytes \<rightharpoonup> bytes) option" where
  "parse_env [] env = Some env"
| "parse_env ((name, val) # vars) env =
    Option.bind (parse_env_val (env_lookup env) val) (\<lambda>v. parse_env vars (env(name \<mapsto> v)))"

definition parse_global_prep :: "(bytes \<Rightarrow> bytes) \<Rightarrow> prep_cmd \<Rightarrow> prep_cmd option" where
  "parse_global_prep env c =
    Option.bind (parse_env_val env (do_cmd c)) (\<lambda>d.
    Option.bind (parse_env_val env (undo_cmd c)) (\<lambda>u.
      Some \<lparr>do_cmd = d, undo_cmd = u, cmd_elevated = cmd_elevated c\<rparr>))"

definition parse_prep_node :: "(bytes \<Rightarrow> bytes) \<Rightarrow> prep_node \<Rightarrow> prep_cmd option" where
  "parse_prep_node env n =
    Option.bind (parse_env_val env (value_or (pn_do n) [])) (\<lambda>d.
    Option.bind (parse_env_val env (value_or (pn_undo n) [])) (\<lambda>u.
      Some \<lparr>do_cmd = d, undo_cmd = u, cmd_elevated = value_or (pn_elevated n) False\<rparr>))"

definition parse_optional :: "(bytes \<Rightarrow> bytes) \<Rightarrow> bytes option \<Rightarrow> bytes option" where
  "parse_optional env x = (case x of None \<Rightarrow> Some [] | Some v \<Rightarrow> parse_env_val env v)"

definition parse_prep_cmds ::
    "prep_cmd list \<Rightarrow> (bytes \<Rightarrow> bytes) \<Rightarrow> app_node \<Rightarrow> prep_cmd list option" where
  "parse_prep_cmds global_prep env n =
    Option.bind (parse_all (parse_global_prep env)
      (if value_or (an_exclude_global_prep n) False then [] else global_prep)) (\<lambda>g.
    Option.bind (parse_all (parse_prep_node env) (value_or (an_prep_cmd n) [])) (\<lambda>p. Some (g @ p)))"

text \<open>The application without its identifier.\<close>

definition parse_app :: "prep_cmd list \<Rightarrow> (bytes \<Rightarrow> bytes) \<Rightarrow> app_node \<Rightarrow> app option" where
  "parse_app global_prep env n =
    Option.bind (Option.bind (an_name n) (parse_env_val env)) (\<lambda>name.
    Option.bind (parse_prep_cmds global_prep env n) (\<lambda>prep_cmds.
    Option.bind (parse_all (parse_env_val env) (value_or (an_detached n) [])) (\<lambda>detached.
    Option.bind (parse_optional env (an_output n)) (\<lambda>output.
    Option.bind (parse_optional env (an_cmd n)) (\<lambda>cmd.
    Option.bind (parse_optional env (an_working_dir n)) (\<lambda>working_dir.
    Option.bind (parse_optional env (an_image_path n)) (\<lambda>image_path.
      Some \<lparr>app_prep_cmds = prep_cmds, app_detached = detached, app_name = name, app_cmd = cmd,
        app_working_dir = working_dir, app_output = output, app_image_path = image_path, app_id = [],
        app_elevated = value_or (an_elevated n) False,
        app_auto_detach = value_or (an_auto_detach n) True,
        app_wait_all = value_or (an_wait_all n) True,
        app_exit_timeout = value_or (an_exit_timeout n) 5,
        app_encoder_preset_override = value_or (an_encoder_preset n) (-1)\<rparr>)))))))"

fun parse_apps ::
    "hashes \<Rightarrow> files \<Rightarrow> prep_cmd list \<Rightarrow> (bytes \<Rightarrow> bytes) \<Rightarrow> int \<Rightarrow> bytes set \<Rightarrow> app_node list \<Rightarrow> app list option" where
  "parse_apps h fs g env i ids [] = Some []"
| "parse_apps h fs g env i ids (n # ns) =
    Option.bind (parse_app g env n) (\<lambda>a.
      let (plain, indexed) = calculate_app_id h fs (app_name a) (app_image_path a) i;
          ident = (if plain \<notin> ids then plain else indexed) in
      map_option (Cons (a\<lparr>app_id := ident\<rparr>)) (parse_apps h fs g env (i + 1) (insert ident ids) ns))"

definition parse_file ::
    "hashes \<Rightarrow> files \<Rightarrow> prep_cmd list \<Rightarrow> (bytes \<rightharpoonup> bytes) \<Rightarrow> apps_tree option \<Rightarrow>
     ((bytes \<rightharpoonup> bytes) \<times> app list) option" where
  "parse_file h fs global_prep env tree =
    Option.bind tree (\<lambda>t. Option.bind (at_apps t) (\<lambda>nodes. Option.bind (at_env t) (\<lambda>vars.
    Option.bind (parse_env vars env) (\<lambda>this_env.
    Option.bind (parse_apps h fs global_prep (env_lookup this_env) 0 {} nodes) (\<lambda>apps.
      Some (this_env, apps))))))"

section \<open>State\<close>

text \<open>
  Calls that reach the operating system, in order. \<open>Passed\<close> and \<open>Undone\<close> are the moves of
  \<open>_app_prep_it\<close> over a command, forth and back.
\<close>

datatype proc_event =
    Do_run prep_cmd bytes
  | Passed prep_cmd
  | Undo_run prep_cmd bytes
  | Undone prep_cmd
  | Spawned bytes bytes
  | Launched bytes bytes
  | Exit_requested
  | Slept
  | Group_terminated
  | Compositor_started
  | Compositor_stopped
  | Display_reverted

datatype run_error = Permission_denied | Other_error

text \<open>
  The answers of the system and of the process library, each a function of what happened before.
  \<open>os_wait\<close> is a wait for a child and its exit code, \<open>None\<close> when the wait fails. \<open>os_idle_exit_code\<close>
  is what the library reports for an object without a process.
\<close>

record os =
  os_run_command :: "proc_event list \<Rightarrow> bytes \<Rightarrow> run_error option"
  os_wait :: "proc_event list \<Rightarrow> bytes \<Rightarrow> int option"
  os_group_running :: "proc_event list \<Rightarrow> bool"
  os_request_exit :: "proc_event list \<Rightarrow> bool"
  os_process_running :: "proc_event list \<Rightarrow> bool"
  os_exit_code :: "proc_event list \<Rightarrow> int"
  os_idle_exit_code :: int
  os_compositor_enabled :: bool
  os_compositor_start :: "proc_event list \<Rightarrow> bool"
  os_compositor_env :: "(bytes \<times> bytes) list"
  os_split_command :: "bytes \<Rightarrow> bytes list option"
  os_search_path :: "bytes \<Rightarrow> bytes"
  os_parent_path :: "bytes \<Rightarrow> bytes"

datatype nvenc_two_pass = two_pass_disabled | quarter_resolution | full_resolution

datatype nvenc_split_frame_encoding = split_disabled | driver_decides | force_enabled

record nvenc_config =
  nv_quality_preset :: int
  nv_two_pass :: nvenc_two_pass
  nv_vbv_percentage_increase :: int
  nv_weighted_prediction :: bool
  nv_adaptive_quantization :: bool
  nv_enable_min_qp :: bool
  nv_min_qp_h264 :: nat
  nv_min_qp_hevc :: nat
  nv_min_qp_av1 :: nat
  nv_h264_cavlc :: bool
  nv_insert_filler_data :: bool
  nv_split_frame_encoding :: nvenc_split_frame_encoding
  nv_rc_lookahead :: int
  nv_surfaces :: int
  nv_bframes :: int
  nv_zerolatency :: bool
  nv_aq_strength :: int
  nv_temporal_aq :: bool

definition nvenc_config_new :: nvenc_config where
  "nvenc_config_new = \<lparr>nv_quality_preset = 1, nv_two_pass = quarter_resolution,
     nv_vbv_percentage_increase = 0, nv_weighted_prediction = False, nv_adaptive_quantization = False,
     nv_enable_min_qp = False, nv_min_qp_h264 = 19, nv_min_qp_hevc = 23, nv_min_qp_av1 = 23,
     nv_h264_cavlc = False, nv_insert_filler_data = False, nv_split_frame_encoding = driver_decides,
     nv_rc_lookahead = 0, nv_surfaces = -1, nv_bframes = 0, nv_zerolatency = False,
     nv_aq_strength = 8, nv_temporal_aq = False\<rparr>"

definition apply_nvenc_tuning_preset :: "int \<Rightarrow> nvenc_config \<Rightarrow> nvenc_config" where
  "apply_nvenc_tuning_preset preset nv =
    (if preset = 0 then
       nv\<lparr>nv_quality_preset := 1, nv_bframes := 0, nv_zerolatency := True, nv_rc_lookahead := 0,
          nv_two_pass := two_pass_disabled, nv_adaptive_quantization := False, nv_temporal_aq := False,
          nv_weighted_prediction := False, nv_enable_min_qp := False, nv_vbv_percentage_increase := 0,
          nv_surfaces := -1\<rparr>
     else if preset = 1 then
       nv\<lparr>nv_quality_preset := 4, nv_bframes := 2, nv_zerolatency := False, nv_rc_lookahead := 20,
          nv_two_pass := quarter_resolution, nv_adaptive_quantization := True, nv_aq_strength := 8,
          nv_temporal_aq := True, nv_weighted_prediction := True, nv_enable_min_qp := False,
          nv_vbv_percentage_increase := 50, nv_surfaces := -1\<rparr>
     else if preset = 2 then
       nv\<lparr>nv_quality_preset := 7, nv_bframes := 4, nv_zerolatency := False, nv_rc_lookahead := 40,
          nv_two_pass := full_resolution, nv_adaptive_quantization := True, nv_aq_strength := 12,
          nv_temporal_aq := True, nv_weighted_prediction := True, nv_enable_min_qp := True,
          nv_min_qp_h264 := 22, nv_min_qp_hevc := 26, nv_min_qp_av1 := 26,
          nv_vbv_percentage_increase := 100, nv_surfaces := -1\<rparr>
     else nv)"

text \<open>
  \<open>proc_t\<close>. \<open>_app_prep_begin\<close> is the beginning of the commands of \<open>_app\<close>, and \<open>pr_prep_it\<close> is the
  distance of \<open>_app_prep_it\<close> from it. \<open>pr_process\<close> and \<open>pr_process_group\<close> say whether the objects
  hold a process; \<open>pr_log\<close> is the history.
\<close>

record proc =
  pr_app_id :: int
  pr_env :: "bytes \<rightharpoonup> bytes"
  pr_apps :: "app list"
  pr_app :: app
  pr_placebo :: bool
  pr_process :: bool
  pr_process_group :: bool
  pr_pipe :: "bytes option"
  pr_prep_it :: nat
  pr_log :: "proc_event list"

text \<open>The variables beside \<open>proc\<close>: the compositor, the settings of the encoder, and their copies.\<close>

record proc_state = proc +
  pr_compositor :: bool
  cfg_nv :: nvenc_config
  cfg_nv_preset :: int
  g_saved_nv_config :: nvenc_config
  g_saved_nv_preset :: int
  g_nv_preset_overridden :: bool

definition proc_new :: "nvenc_config \<Rightarrow> int \<Rightarrow> (bytes \<rightharpoonup> bytes) \<Rightarrow> app list \<Rightarrow> proc_state" where
  "proc_new nv preset env apps = \<lparr>pr_app_id = 0, pr_env = env, pr_apps = apps, pr_app = no_app,
     pr_placebo = False, pr_process = False, pr_process_group = False, pr_pipe = None, pr_prep_it = 0,
     pr_log = [], pr_compositor = False, cfg_nv = nv, cfg_nv_preset = preset,
     g_saved_nv_config = nvenc_config_new, g_saved_nv_preset = -99, g_nv_preset_overridden = False\<rparr>"

text \<open>
  A function of the program returns, lets an exception out, or ends the program: an exception in a
  \<open>fail_guard\<close>, whose destructor is \<open>noexcept\<close>.
\<close>

datatype 'a outcome = Returned 'a | Threw | Aborted

definition log_event :: "proc_event \<Rightarrow> proc_state \<Rightarrow> proc_state" where
  "log_event e s = s\<lparr>pr_log := pr_log s @ [e]\<rparr>"

definition find_working_directory :: "os \<Rightarrow> bytes \<Rightarrow> bytes" where
  "find_working_directory o' cmd =
    (case os_split_command o' cmd of
       None \<Rightarrow> []
     | Some [] \<Rightarrow> []
     | Some (part # parts) \<Rightarrow>
         if sublist (ascii ''://'') part then []
         else if part \<noteq> [] \<and> hd part = 47 then os_parent_path o' part
         else
           let found = os_search_path o' part in
           if found = [] then [] else os_parent_path o' found)"

definition working_dir :: "os \<Rightarrow> proc_state \<Rightarrow> bytes \<Rightarrow> bytes" where
  "working_dir o' s cmd =
    (if app_working_dir (pr_app s) = [] then find_working_directory o' cmd else app_working_dir (pr_app s))"

section \<open>Ending an application\<close>

text \<open>The poll of the process group; the result holds what is left of the time.\<close>

function poll_exit :: "os \<Rightarrow> int \<Rightarrow> proc_event list \<Rightarrow> int \<times> proc_event list" where
  "poll_exit o' exit_timeout log =
    (if os_group_running o' log then
       if 0 \<le> exit_timeout - 1 then poll_exit o' (exit_timeout - 1) (log @ [Slept])
       else (exit_timeout - 1, log)
     else (exit_timeout, log))"
  by pat_completeness auto
termination by (relation "measure (\<lambda>(o', t, log). nat t)") auto

declare poll_exit.simps [simp del]

definition request_exit :: "os \<Rightarrow> proc_state \<Rightarrow> proc_state" where
  "request_exit o' s =
    (if 0 < app_exit_timeout (pr_app s) then
       let log = pr_log s @ [Exit_requested] in
       if os_request_exit o' (pr_log s)
       then s\<lparr>pr_log := snd (poll_exit o' (app_exit_timeout (pr_app s)) log)\<rparr>
       else s\<lparr>pr_log := log\<rparr>
     else s)"

definition terminate_process_group :: "os \<Rightarrow> proc_state \<Rightarrow> proc_state" where
  "terminate_process_group o' s =
    (let s = (if pr_process_group s \<and> os_group_running o' (pr_log s)
              then (log_event Group_terminated (request_exit o' s))\<lparr>pr_process_group := False\<rparr> else s)
     in s\<lparr>pr_process := False\<rparr>)"

text \<open>
  The undo commands, from the last one that was passed to the first. Errors of a command are logged
  only; a failing wait throws.
\<close>

fun undo_commands :: "os \<Rightarrow> nat \<Rightarrow> proc_state \<Rightarrow> bool \<times> proc_state" where
  "undo_commands o' 0 s = (True, s)"
| "undo_commands o' (Suc k) s =
    (let cmd = app_prep_cmds (pr_app s) ! k; undone = (\<lambda>s. (log_event (Undone cmd) s)\<lparr>pr_prep_it := k\<rparr>) in
     if undo_cmd cmd = [] then undo_commands o' k (undone s)
     else
       let s' = log_event (Undo_run cmd (working_dir o' s (undo_cmd cmd))) s in
       case os_wait o' (pr_log s') (undo_cmd cmd) of
         None \<Rightarrow> (False, s')
       | Some ret \<Rightarrow> undo_commands o' k (undone s'))"

definition stop_compositor :: "proc_state \<Rightarrow> proc_state" where
  "stop_compositor s =
    (if pr_compositor s then (log_event Compositor_stopped s)\<lparr>pr_compositor := False\<rparr> else s)"

definition restore_preset :: "proc_state \<Rightarrow> proc_state" where
  "restore_preset s =
    (if g_nv_preset_overridden s
     then s\<lparr>cfg_nv := g_saved_nv_config s, cfg_nv_preset := g_saved_nv_preset s,
            g_nv_preset_overridden := False, g_saved_nv_preset := -99\<rparr>
     else s)"

definition terminate :: "os \<Rightarrow> proc_state \<Rightarrow> unit outcome \<times> proc_state" where
  "terminate o' s =
    (let s = terminate_process_group o' (s\<lparr>pr_placebo := False\<rparr>);
         s = stop_compositor (s\<lparr>pr_process := False, pr_process_group := False\<rparr>);
         (finished, s) = undo_commands o' (pr_prep_it s) s in
     if \<not> finished then (Threw, s)
     else
       let s = s\<lparr>pr_pipe := None\<rparr>;
           s = (if app_name (pr_app s) \<noteq> [] \<and> 0 < pr_app_id s then log_event Display_reverted s else s);
           s = restore_preset s in
       (Returned (), s\<lparr>pr_app_id := -1\<rparr>))"

section \<open>Starting an application\<close>

text \<open>What \<open>execute\<close> reads of the launch session.\<close>

record launch_settings =
  ls_width :: int
  ls_height :: int
  ls_fps :: int
  ls_enable_hdr :: bool
  ls_gcmap :: int
  ls_host_audio :: bool
  ls_enable_sops :: bool
  ls_surround_info :: int
  ls_surround_params :: bytes

definition find_app :: "app list \<Rightarrow> int \<Rightarrow> app option" where
  "find_app apps ident = find (\<lambda>a. app_id a = int_text ident) apps"

definition override_preset :: "proc_state \<Rightarrow> proc_state" where
  "override_preset s =
    (let preset = app_encoder_preset_override (pr_app s) in
     if 0 \<le> preset \<and> preset \<le> 2
     then s\<lparr>g_saved_nv_config := cfg_nv s, g_saved_nv_preset := cfg_nv_preset s, cfg_nv_preset := preset,
            cfg_nv := apply_nvenc_tuning_preset preset (cfg_nv s), g_nv_preset_overridden := True\<rparr>
     else s)"

definition bool_text :: "bool \<Rightarrow> bytes" where
  "bool_text b = (if b then ascii ''true'' else ascii ''false'')"

text \<open>The channel count of an unknown layout leaves the variable as it is.\<close>

definition audio_configuration :: "int \<Rightarrow> bytes option" where
  "audio_configuration surround_info =
    (let channelCount = take_bit 16 surround_info in
     if channelCount = 2 then Some (ascii ''2.0'')
     else if channelCount = 6 then Some (ascii ''5.1'')
     else if channelCount = 8 then Some (ascii ''7.1'') else None)"

definition stream_env :: "int \<Rightarrow> app \<Rightarrow> launch_settings \<Rightarrow> (bytes \<rightharpoonup> bytes) \<Rightarrow> (bytes \<rightharpoonup> bytes)" where
  "stream_env ident a ls env =
    (let env = env(ascii ''SUNSHINE_APP_ID'' \<mapsto> int_text ident,
                   ascii ''SUNSHINE_APP_NAME'' \<mapsto> app_name a,
                   ascii ''SUNSHINE_CLIENT_WIDTH'' \<mapsto> int_text (ls_width ls),
                   ascii ''SUNSHINE_CLIENT_HEIGHT'' \<mapsto> int_text (ls_height ls),
                   ascii ''SUNSHINE_CLIENT_FPS'' \<mapsto> int_text (ls_fps ls),
                   ascii ''SUNSHINE_CLIENT_HDR'' \<mapsto> bool_text (ls_enable_hdr ls),
                   ascii ''SUNSHINE_CLIENT_GCMAP'' \<mapsto> int_text (ls_gcmap ls),
                   ascii ''SUNSHINE_CLIENT_HOST_AUDIO'' \<mapsto> bool_text (ls_host_audio ls),
                   ascii ''SUNSHINE_CLIENT_ENABLE_SOPS'' \<mapsto> bool_text (ls_enable_sops ls));
         env = (case audio_configuration (ls_surround_info ls) of
                  Some c \<Rightarrow> env(ascii ''SUNSHINE_CLIENT_AUDIO_CONFIGURATION'' \<mapsto> c)
                | None \<Rightarrow> env) in
     env(ascii ''SUNSHINE_CLIENT_AUDIO_SURROUND_PARAMS'' \<mapsto> ls_surround_params ls))"

text \<open>A failing command stops the loop with \<open>_app_prep_it\<close> still on it.\<close>

fun do_commands :: "os \<Rightarrow> prep_cmd list \<Rightarrow> proc_state \<Rightarrow> bool \<times> proc_state" where
  "do_commands o' [] s = (True, s)"
| "do_commands o' (cmd # cmds) s =
    (let pass = (\<lambda>s. (log_event (Passed cmd) s)\<lparr>pr_prep_it := pr_prep_it s + 1\<rparr>) in
     if do_cmd cmd = [] then do_commands o' cmds (pass s)
     else
       let ec = os_run_command o' (pr_log s) (do_cmd cmd);
           s = log_event (Do_run cmd (working_dir o' s (do_cmd cmd))) s in
       if ec \<noteq> None \<and> \<not> (app_cmd (pr_app s) = [] \<and> ec = Some Permission_denied) then (False, s)
       else if os_wait o' (pr_log s) (do_cmd cmd) \<noteq> Some 0 then (False, s)
       else do_commands o' cmds (pass s))"

fun spawn_detached :: "os \<Rightarrow> bytes list \<Rightarrow> proc_state \<Rightarrow> proc_state" where
  "spawn_detached o' [] s = s"
| "spawn_detached o' (cmd # cmds) s =
    spawn_detached o' cmds (log_event (Spawned cmd (working_dir o' s cmd)) s)"

definition start_compositor :: "os \<Rightarrow> proc_state \<Rightarrow> bool \<times> proc_state" where
  "start_compositor o' s =
    (if os_compositor_enabled o' then
       if os_compositor_start o' (pr_log s)
       then (True, (log_event Compositor_started s)\<lparr>pr_compositor := True,
              pr_env := fold (\<lambda>(k, v) e. e(k \<mapsto> v)) (os_compositor_env o') (pr_env s)\<rparr>)
       else (False, s\<lparr>pr_compositor := False\<rparr>)
     else (True, s))"

definition launch_command :: "os \<Rightarrow> proc_state \<Rightarrow> bool \<times> proc_state" where
  "launch_command o' s =
    (if app_cmd (pr_app s) = [] then (True, s\<lparr>pr_placebo := True\<rparr>)
     else
       let (started, s) = start_compositor o' s in
       if \<not> started then (False, s)
       else
         let cmd = app_cmd (pr_app s); s' = log_event (Launched cmd (working_dir o' s cmd)) s in
         if os_run_command o' (pr_log s) cmd = None
         then (True, s'\<lparr>pr_process := True, pr_process_group := True\<rparr>)
         else (False, stop_compositor s'))"

text \<open>The part of \<open>execute\<close> that its \<open>fail_guard\<close> covers.\<close>

definition guarded_launch :: "os \<Rightarrow> proc_state \<Rightarrow> bool \<times> proc_state" where
  "guarded_launch o' s =
    (let (passed, s) = do_commands o' (app_prep_cmds (pr_app s)) s in
     if \<not> passed then (False, s)
     else launch_command o' (spawn_detached o' (app_detached (pr_app s)) s))"

definition select_app :: "int \<Rightarrow> app \<Rightarrow> launch_settings \<Rightarrow> proc_state \<Rightarrow> proc_state" where
  "select_app ident a ls s =
    (let s = override_preset (s\<lparr>pr_app_id := ident, pr_app := a, pr_prep_it := 0\<rparr>);
         s = s\<lparr>pr_env := stream_env ident a ls (pr_env s)\<rparr> in
     if app_output a \<noteq> [] \<and> app_output a \<noteq> ascii ''null'' then s\<lparr>pr_pipe := Some (app_output a)\<rparr> else s)"

definition execute :: "os \<Rightarrow> int \<Rightarrow> launch_settings \<Rightarrow> proc_state \<Rightarrow> int outcome \<times> proc_state" where
  "execute o' ident ls s =
    (case terminate o' s of
       (Returned _, s) \<Rightarrow>
         (case find_app (pr_apps s) ident of
            None \<Rightarrow> (Returned 404, s)
          | Some a \<Rightarrow>
              (let (launched, s) = guarded_launch o' (select_app ident a ls s) in
               if launched then (Returned 0, s)
               else
                 case terminate o' s of
                   (Returned _, s) \<Rightarrow> (Returned (-1), s)
                 | (_, s) \<Rightarrow> (Aborted, s)))
     | (_, s) \<Rightarrow> (Threw, s))"

section \<open>Whether it runs\<close>

definition native_exit_code :: "os \<Rightarrow> proc_state \<Rightarrow> int" where
  "native_exit_code o' s = (if pr_process s then os_exit_code o' (pr_log s) else os_idle_exit_code o')"

definition running :: "os \<Rightarrow> proc_state \<Rightarrow> int outcome \<times> proc_state" where
  "running o' s =
    (if pr_placebo s then (Returned (pr_app_id s), s)
     else if app_wait_all (pr_app s) \<and> pr_process_group s \<and> os_group_running o' (pr_log s)
     then (Returned (pr_app_id s), s)
     else if pr_process s \<and> os_process_running o' (pr_log s) then (Returned (pr_app_id s), s)
     else if app_auto_detach (pr_app s) \<and> native_exit_code o' s = 0
     then (Returned (pr_app_id s), s\<lparr>pr_placebo := True\<rparr>)
     else if pr_process s then
       (case terminate o' s of
          (Returned _, s) \<Rightarrow> (Returned 0, s)
        | (_, s) \<Rightarrow> (Threw, s))
     else (Returned 0, s))"

section \<open>Reading the file again\<close>

text \<open>\<open>refresh\<close> moves a new \<open>proc_t\<close> over the old one; the variables beside it stay.\<close>

definition refresh :: "((bytes \<rightharpoonup> bytes) \<times> app list) option \<Rightarrow> proc_state \<Rightarrow> proc_state" where
  "refresh parsed s =
    (case parsed of
       None \<Rightarrow> s
     | Some (env, apps) \<Rightarrow>
         s\<lparr>pr_app_id := 0, pr_env := env, pr_apps := apps, pr_app := no_app, pr_placebo := False,
           pr_process := False, pr_process_group := False, pr_pipe := None, pr_prep_it := 0\<rparr>)"

definition get_app_image :: "files \<Rightarrow> int \<Rightarrow> proc_state \<Rightarrow> bytes" where
  "get_app_image fs ident s =
    validate_app_image_path fs (case find_app (pr_apps s) ident of Some a \<Rightarrow> app_image_path a | None \<Rightarrow> [])"

definition get_last_run_app_name :: "proc_state \<Rightarrow> bytes" where
  "get_last_run_app_name s = app_name (pr_app s)"

section \<open>What the loops change\<close>

lemma undo_commands_frame:
  "undo_commands o' n s = (b, s') \<Longrightarrow> s' = s\<lparr>pr_log := pr_log s', pr_prep_it := pr_prep_it s'\<rparr>"
proof (induction n arbitrary: s)
  case (Suc n)
  then show ?case
    by (auto simp: Let_def log_event_def split: if_splits option.splits dest!: Suc.IH)
qed simp

lemma do_commands_frame:
  "do_commands o' cmds s = (b, s') \<Longrightarrow> s' = s\<lparr>pr_log := pr_log s', pr_prep_it := pr_prep_it s'\<rparr>"
proof (induction cmds arbitrary: s)
  case (Cons cmd cmds)
  then show ?case
    by (auto simp: Let_def log_event_def split: if_splits option.splits dest!: Cons.IH)
qed simp

lemma spawn_detached_frame: "spawn_detached o' cmds s = s\<lparr>pr_log := pr_log (spawn_detached o' cmds s)\<rparr>"
  by (induction o' cmds s rule: spawn_detached.induct) (simp_all add: log_event_def)

section \<open>The stack of commands to undo\<close>

text \<open>
  The abstract view of the history: passing a command pushes it, having undone it pops it, and an undo
  command may run only for the command on top.
\<close>

fun undo_step :: "prep_cmd list \<Rightarrow> proc_event \<Rightarrow> prep_cmd list option" where
  "undo_step st (Passed c) = Some (c # st)"
| "undo_step st (Undo_run c wd) = (if st \<noteq> [] \<and> hd st = c then Some st else None)"
| "undo_step st (Undone c) = (if st \<noteq> [] \<and> hd st = c then Some (tl st) else None)"
| "undo_step st _ = Some st"

fun undo_stack :: "prep_cmd list \<Rightarrow> proc_event list \<Rightarrow> prep_cmd list option" where
  "undo_stack st [] = Some st"
| "undo_stack st (e # es) = Option.bind (undo_step st e) (\<lambda>st. undo_stack st es)"

lemma undo_stack_append:
  "undo_stack st (es @ fs) = Option.bind (undo_stack st es) (\<lambda>st. undo_stack st fs)"
  by (induction es arbitrary: st) (auto simp: bind_assoc split: Option.bind_splits)

definition passed_cmds :: "proc_state \<Rightarrow> prep_cmd list" where
  "passed_cmds s = take (pr_prep_it s) (app_prep_cmds (pr_app s))"

definition proc_ok :: "proc_state \<Rightarrow> bool" where
  "proc_ok s \<longleftrightarrow> pr_prep_it s \<le> length (app_prep_cmds (pr_app s)) \<and>
     undo_stack [] (pr_log s) = Some (rev (passed_cmds s))"

text \<open>An event that is no move of the iterator and no undo command.\<close>

fun other_event :: "proc_event \<Rightarrow> bool" where
  "other_event (Passed c) = False"
| "other_event (Undo_run c wd) = False"
| "other_event (Undone c) = False"
| "other_event _ = True"

lemma undo_step_other: "other_event e \<Longrightarrow> undo_step st e = Some st"
  by (cases e) simp_all

lemma undo_stack_other: "list_all other_event es \<Longrightarrow> undo_stack st es = Some st"
  by (induction es) (simp_all add: undo_step_other)

lemma poll_exit_log:
  "\<exists>n. snd (poll_exit o' t log) = log @ replicate n Slept \<and> int n \<le> max 0 t"
proof (induction o' t log rule: poll_exit.induct)
  case (1 o' t log)
  show ?case
  proof (cases "os_group_running o' log \<and> 0 \<le> t - 1")
    case True
    with 1 obtain n where "snd (poll_exit o' (t - 1) (log @ [Slept])) = (log @ [Slept]) @ replicate n Slept"
      "int n \<le> max 0 (t - 1)" by blast
    with True show ?thesis
      by (intro exI [of _ "Suc n"]) (simp add: poll_exit.simps [of o' t])
  next
    case False
    then show ?thesis by (intro exI [of _ 0]) (simp add: poll_exit.simps [of o' t])
  qed
qed

lemma terminate_process_group_frame:
  "\<exists>es. terminate_process_group o' s =
     s\<lparr>pr_log := pr_log s @ es, pr_process := False,
       pr_process_group := pr_process_group (terminate_process_group o' s)\<rparr> \<and> list_all other_event es"
proof -
  obtain n where n: "snd (poll_exit o' (app_exit_timeout (pr_app s)) (pr_log s @ [Exit_requested])) =
      (pr_log s @ [Exit_requested]) @ replicate n Slept" using poll_exit_log by blast
  define es where "es =
    (if pr_process_group s \<and> os_group_running o' (pr_log s)
     then (if 0 < app_exit_timeout (pr_app s) then
             if os_request_exit o' (pr_log s) then Exit_requested # replicate n Slept else [Exit_requested]
           else []) @ [Group_terminated]
     else [])"
  show ?thesis
    using n by (intro exI [of _ es])
      (auto simp add: es_def terminate_process_group_def request_exit_def log_event_def Let_def list_all_iff)
qed

lemma stop_compositor_frame:
  "\<exists>es. stop_compositor s = s\<lparr>pr_log := pr_log s @ es, pr_compositor := False\<rparr> \<and> list_all other_event es"
  by (cases "pr_compositor s")
    (auto simp: stop_compositor_def log_event_def intro: exI [of _ "[Compositor_stopped]"] exI [of _ "[]"])

text \<open>\<open>terminate\<close> up to the undo commands, which it ends the process and the compositor with.\<close>

definition end_process :: "os \<Rightarrow> proc_state \<Rightarrow> proc_state" where
  "end_process o' s = stop_compositor
     ((terminate_process_group o' (s\<lparr>pr_placebo := False\<rparr>))\<lparr>pr_process := False, pr_process_group := False\<rparr>)"

lemma terminate_alt:
  "terminate o' s =
    (case undo_commands o' (pr_prep_it (end_process o' s)) (end_process o' s) of
       (False, s') \<Rightarrow> (Threw, s')
     | (True, s') \<Rightarrow>
         (Returned (), (restore_preset
           (if app_name (pr_app s') \<noteq> [] \<and> 0 < pr_app_id s'
            then log_event Display_reverted (s'\<lparr>pr_pipe := None\<rparr>) else s'\<lparr>pr_pipe := None\<rparr>))\<lparr>pr_app_id := -1\<rparr>))"
  by (simp add: terminate_def end_process_def Let_def split: prod.split bool.split)

lemma end_process_frame:
  "\<exists>es. end_process o' s =
     s\<lparr>pr_placebo := False, pr_log := pr_log s @ es, pr_process := False, pr_process_group := False,
       pr_compositor := False\<rparr> \<and> list_all other_event es"
proof -
  obtain es where es: "terminate_process_group o' (s\<lparr>pr_placebo := False\<rparr>) =
      (s\<lparr>pr_placebo := False\<rparr>)\<lparr>pr_log := pr_log s @ es, pr_process := False,
       pr_process_group := pr_process_group (terminate_process_group o' (s\<lparr>pr_placebo := False\<rparr>))\<rparr>"
    "list_all other_event es"
    using terminate_process_group_frame [of o' "s\<lparr>pr_placebo := False\<rparr>"] by auto
  let ?t = "(terminate_process_group o' (s\<lparr>pr_placebo := False\<rparr>))\<lparr>pr_process := False, pr_process_group := False\<rparr>"
  have t: "?t = s\<lparr>pr_placebo := False, pr_log := pr_log s @ es, pr_process := False, pr_process_group := False\<rparr>"
    by (subst es(1)) simp
  obtain fs where fs: "stop_compositor ?t = ?t\<lparr>pr_log := pr_log ?t @ fs, pr_compositor := False\<rparr>"
    "list_all other_event fs" using stop_compositor_frame [of ?t] by blast
  show ?thesis
    unfolding end_process_def fs(1) unfolding t using es(2) fs(2)
    by (intro exI [of _ "es @ fs"]) simp
qed

section \<open>Passed commands and undone commands\<close>

lemma proc_ok_other:
  assumes "proc_ok s" and "list_all other_event es" and "pr_log s' = pr_log s @ es"
    and "pr_prep_it s' = pr_prep_it s" and "pr_app s' = pr_app s"
  shows "proc_ok s'"
  using assms by (simp add: proc_ok_def passed_cmds_def undo_stack_append undo_stack_other)

text \<open>The commands whose undo commands ran.\<close>

fun undo_runs :: "proc_event list \<Rightarrow> prep_cmd list" where
  "undo_runs [] = []"
| "undo_runs (Undo_run c wd # es) = c # undo_runs es"
| "undo_runs (e # es) = undo_runs es"

lemma undo_runs_append [simp]: "undo_runs (es @ fs) = undo_runs es @ undo_runs fs"
  by (induction es rule: undo_runs.induct) simp_all

lemma undo_runs_other: "list_all other_event es \<Longrightarrow> undo_runs es = []"
  by (induction es rule: undo_runs.induct) simp_all

lemma undo_commands_ok:
  assumes "undo_commands o' (pr_prep_it s) s = (b, s')" and "proc_ok s"
  shows "proc_ok s' \<and>
    (b \<longrightarrow> pr_prep_it s' = 0 \<and>
       undo_runs (pr_log s') = undo_runs (pr_log s) @ filter (\<lambda>c. undo_cmd c \<noteq> []) (rev (passed_cmds s)))"
  using assms
proof (induction "pr_prep_it s" arbitrary: s)
  case 0
  then show ?case by (auto simp: passed_cmds_def)
next
  case (Suc k)
  define cmd where "cmd = app_prep_cmds (pr_app s) ! k"
  have k: "k < length (app_prep_cmds (pr_app s))"
    and st: "undo_stack [] (pr_log s) = Some (rev (passed_cmds s))"
    using Suc(2,4) by (simp_all add: proc_ok_def)
  have passed: "rev (passed_cmds s) = cmd # rev (take k (app_prep_cmds (pr_app s)))"
    using Suc(2) k by (simp add: passed_cmds_def cmd_def take_Suc_conv_app_nth flip: Suc(2))
  define undone where "undone = (\<lambda>s. (log_event (Undone cmd) s)\<lparr>pr_prep_it := k\<rparr>)"
  let ?run = "log_event (Undo_run cmd (working_dir o' s (undo_cmd cmd))) s"
  have ok_run: "proc_ok ?run"
    using Suc(4) st passed by (simp add: proc_ok_def log_event_def undo_stack_append passed_cmds_def)
  have ok: "proc_ok (undone s)" "proc_ok (undone ?run)"
    using st passed k ok_run
    by (simp_all add: proc_ok_def undone_def log_event_def undo_stack_append passed_cmds_def)
  have runs: "rev (passed_cmds (undone s)) = rev (take k (app_prep_cmds (pr_app s)))"
      "rev (passed_cmds (undone ?run)) = rev (take k (app_prep_cmds (pr_app s)))"
    by (simp_all add: undone_def log_event_def passed_cmds_def)
  have unfold: "undo_commands o' (pr_prep_it s) s =
      (if undo_cmd cmd = [] then undo_commands o' k (undone s)
       else case os_wait o' (pr_log ?run) (undo_cmd cmd) of
              None \<Rightarrow> (False, ?run) | Some ret \<Rightarrow> undo_commands o' k (undone ?run))"
    unfolding Suc(2) [symmetric] undo_commands.simps Let_def cmd_def [symmetric] undone_def by (rule refl)
  have it: "k = pr_prep_it (undone s)" "k = pr_prep_it (undone ?run)"
    by (simp_all add: undone_def log_event_def)
  consider (skip) "undo_cmd cmd = []" | (throw) "undo_cmd cmd \<noteq> []" "b = False" "s' = ?run"
    | (run) "undo_cmd cmd \<noteq> []" "undo_commands o' k (undone ?run) = (b, s')"
    using Suc(3) unfolding unfold
    by (cases "undo_cmd cmd = []"; cases "os_wait o' (pr_log ?run) (undo_cmd cmd)") simp_all
  then show ?case
  proof cases
    case skip
    then have "undo_commands o' (pr_prep_it (undone s)) (undone s) = (b, s')"
      using Suc(3) unfolding unfold it(1) [symmetric] by simp
    from Suc(1) [OF it(1) this ok(1)] show ?thesis
      using skip passed runs by (simp add: undone_def log_event_def)
  next
    case throw
    with ok_run show ?thesis by simp
  next
    case run
    then have "undo_commands o' (pr_prep_it (undone ?run)) (undone ?run) = (b, s')"
      unfolding it(2) [symmetric] by blast
    from Suc(1) [OF it(2) this ok(2)] show ?thesis
      using run passed runs by (simp add: undone_def log_event_def)
  qed
qed

lemma end_process_ok:
  assumes "proc_ok s"
  shows "proc_ok (end_process o' s)"
proof -
  obtain es where "end_process o' s =
     s\<lparr>pr_placebo := False, pr_log := pr_log s @ es, pr_process := False, pr_process_group := False,
       pr_compositor := False\<rparr>" "list_all other_event es" using end_process_frame by blast
  with assms show ?thesis by (subst proc_ok_other [of s es]) simp_all
qed

text \<open>What \<open>terminate\<close> leaves, apart from the history.\<close>

lemma terminate_ok:
  assumes "terminate o' s = (r, s')" and "proc_ok s"
  shows "proc_ok s' \<and>
    (r = Returned () \<longrightarrow> pr_prep_it s' = 0 \<and>
       undo_runs (pr_log s') = undo_runs (pr_log s) @ filter (\<lambda>c. undo_cmd c \<noteq> []) (rev (passed_cmds s)))"
proof -
  let ?e = "end_process o' s"
  obtain es where e: "?e =
     s\<lparr>pr_placebo := False, pr_log := pr_log s @ es, pr_process := False, pr_process_group := False,
       pr_compositor := False\<rparr>" "list_all other_event es" using end_process_frame by blast
  obtain b t where t: "undo_commands o' (pr_prep_it ?e) ?e = (b, t)" by fastforce
  note ok = undo_commands_ok [OF t end_process_ok [OF assms(2)]]
  have same: "passed_cmds ?e = passed_cmds s" "undo_runs (pr_log ?e) = undo_runs (pr_log s)"
    unfolding e(1) using undo_runs_other [OF e(2)] by (simp_all add: passed_cmds_def)
  show ?thesis
  proof (cases b)
    case True
    define u where "u = (restore_preset (if app_name (pr_app t) \<noteq> [] \<and> 0 < pr_app_id t
       then log_event Display_reverted (t\<lparr>pr_pipe := None\<rparr>) else t\<lparr>pr_pipe := None\<rparr>))\<lparr>pr_app_id := -1\<rparr>"
    have s': "s' = u" "r = Returned ()"
      using assms(1) True unfolding terminate_alt t by (simp_all add: u_def)
    obtain fs where u: "pr_log u = pr_log t @ fs" "list_all other_event fs"
      "pr_prep_it u = pr_prep_it t" "pr_app u = pr_app t"
      by (rule that [of "if app_name (pr_app t) \<noteq> [] \<and> 0 < pr_app_id t then [Display_reverted] else []"])
        (simp_all add: u_def restore_preset_def log_event_def)
    from ok have "proc_ok u" by (subst proc_ok_other [of t fs u]) (simp_all add: u)
    with True ok same u undo_runs_other [OF u(2)] show ?thesis by (simp add: s')
  next
    case False
    with assms(1) ok show ?thesis unfolding terminate_alt t by simp
  qed
qed

lemma do_commands_ok:
  assumes "do_commands o' cmds s = (b, s')" and "proc_ok s"
    and "drop (pr_prep_it s) (app_prep_cmds (pr_app s)) = cmds"
  shows "proc_ok s' \<and> (b \<longrightarrow> passed_cmds s' = app_prep_cmds (pr_app s')) \<and>
    (\<not> b \<longrightarrow> pr_prep_it s' < length (app_prep_cmds (pr_app s')) \<and>
       do_cmd (app_prep_cmds (pr_app s') ! pr_prep_it s') \<noteq> [])"
  using assms
proof (induction cmds arbitrary: s)
  case Nil
  then show ?case by (auto simp: proc_ok_def passed_cmds_def)
next
  case (Cons cmd cmds)
  have len: "pr_prep_it s < length (app_prep_cmds (pr_app s))"
    and nth: "app_prep_cmds (pr_app s) ! pr_prep_it s = cmd"
    and rest: "drop (Suc (pr_prep_it s)) (app_prep_cmds (pr_app s)) = cmds"
    using Cons.prems(3) by (metis drop_eq_Nil2 linorder_not_less list.discI,
        metis nth_via_drop, metis drop_Suc list.sel(3) tl_drop)
  define pass where "pass = (\<lambda>s. (log_event (Passed cmd) s)\<lparr>pr_prep_it := pr_prep_it s + 1\<rparr>)"
  let ?run = "log_event (Do_run cmd (working_dir o' s (do_cmd cmd))) s"
  have ok_run: "proc_ok ?run"
    by (rule proc_ok_other [OF Cons.prems(2), of "[Do_run cmd (working_dir o' s (do_cmd cmd))]"])
      (simp_all add: log_event_def)
  have ok: "proc_ok (pass s)" "proc_ok (pass ?run)"
    using Cons.prems(2) ok_run len nth
    by (simp_all add: proc_ok_def pass_def log_event_def undo_stack_append passed_cmds_def
        take_Suc_conv_app_nth)
  have todo: "drop (pr_prep_it (pass s)) (app_prep_cmds (pr_app (pass s))) = cmds"
      "drop (pr_prep_it (pass ?run)) (app_prep_cmds (pr_app (pass ?run))) = cmds"
    using rest by (simp_all add: pass_def log_event_def)
  have unfold: "do_commands o' (cmd # cmds) s =
    (if do_cmd cmd = [] then do_commands o' cmds (pass s)
     else if os_run_command o' (pr_log s) (do_cmd cmd) \<noteq> None \<and>
       \<not> (app_cmd (pr_app ?run) = [] \<and> os_run_command o' (pr_log s) (do_cmd cmd) = Some Permission_denied)
     then (False, ?run)
     else if os_wait o' (pr_log ?run) (do_cmd cmd) \<noteq> Some 0 then (False, ?run)
     else do_commands o' cmds (pass ?run))"
    unfolding do_commands.simps Let_def pass_def by (rule refl)
  consider (skip) "do_commands o' cmds (pass s) = (b, s')"
    | (fail) "do_cmd cmd \<noteq> []" "b = False" "s' = ?run"
    | (run) "do_commands o' cmds (pass ?run) = (b, s')"
    using Cons.prems(1) unfolding unfold by (metis (no_types) prod.inject)
  then show ?case
  proof cases
    case skip
    from Cons.IH [OF this ok(1) todo(1)] show ?thesis .
  next
    case fail
    with ok_run len nth show ?thesis by (simp add: log_event_def)
  next
    case run
    from Cons.IH [OF this ok(2) todo(2)] show ?thesis .
  qed
qed

lemma spawn_detached_ok: "proc_ok s \<Longrightarrow> proc_ok (spawn_detached o' cmds s)"
proof (induction o' cmds s rule: spawn_detached.induct)
  case (2 o' cmd cmds s)
  have "proc_ok (log_event (Spawned cmd (working_dir o' s cmd)) s)"
    by (rule proc_ok_other [OF 2(2), of "[Spawned cmd (working_dir o' s cmd)]"])
      (simp_all add: log_event_def)
  from 2(1) [OF this] show ?case by simp
qed simp

lemma launch_command_frame:
  assumes "launch_command o' s = (b, s')"
  shows "\<exists>es. pr_log s' = pr_log s @ es \<and> list_all other_event es \<and> pr_prep_it s' = pr_prep_it s \<and>
    pr_app s' = pr_app s \<and> pr_app_id s' = pr_app_id s"
  using assms
  by (auto simp: launch_command_def start_compositor_def stop_compositor_def log_event_def Let_def
      split: if_splits)

lemma launch_command_ok: "launch_command o' s = (b, s') \<Longrightarrow> proc_ok s \<Longrightarrow> proc_ok s'"
  using launch_command_frame proc_ok_other by metis

section \<open>The settings of the encoder\<close>

text \<open>What the user configured, whether an application has overridden it or not.\<close>

definition user_nv :: "proc_state \<Rightarrow> nvenc_config \<times> int" where
  "user_nv s = (if g_nv_preset_overridden s then (g_saved_nv_config s, g_saved_nv_preset s)
     else (cfg_nv s, cfg_nv_preset s))"

lemma user_nv_cong:
  "cfg_nv s = cfg_nv t \<Longrightarrow> cfg_nv_preset s = cfg_nv_preset t \<Longrightarrow>
   g_saved_nv_config s = g_saved_nv_config t \<Longrightarrow> g_saved_nv_preset s = g_saved_nv_preset t \<Longrightarrow>
   g_nv_preset_overridden s = g_nv_preset_overridden t \<Longrightarrow> user_nv s = user_nv t"
  by (simp add: user_nv_def)

lemma terminate_settings:
  assumes "terminate o' s = (r, s')"
  shows "user_nv s' = user_nv s \<and> pr_apps s' = pr_apps s \<and> pr_app s' = pr_app s \<and> pr_env s' = pr_env s \<and>
    \<not> pr_placebo s' \<and> \<not> pr_process s' \<and> \<not> pr_process_group s' \<and> \<not> pr_compositor s' \<and>
    (r = Returned () \<longrightarrow> \<not> g_nv_preset_overridden s' \<and> pr_app_id s' = -1 \<and> pr_pipe s' = None)"
proof -
  let ?e = "end_process o' s"
  obtain es where e: "?e =
     s\<lparr>pr_placebo := False, pr_log := pr_log s @ es, pr_process := False, pr_process_group := False,
       pr_compositor := False\<rparr>" using end_process_frame by blast
  obtain b t where t: "undo_commands o' (pr_prep_it ?e) ?e = (b, t)" by fastforce
  obtain L I where "t = ?e\<lparr>pr_log := L, pr_prep_it := I\<rparr>" using undo_commands_frame [OF t] by blast
  then have t': "t = s\<lparr>pr_placebo := False, pr_log := L, pr_process := False, pr_process_group := False,
       pr_compositor := False, pr_prep_it := I\<rparr>" unfolding e by simp
  show ?thesis
  proof (cases b)
    case True
    then have "s' = (restore_preset (if app_name (pr_app t) \<noteq> [] \<and> 0 < pr_app_id t
       then log_event Display_reverted (t\<lparr>pr_pipe := None\<rparr>) else t\<lparr>pr_pipe := None\<rparr>))\<lparr>pr_app_id := -1\<rparr>"
      using assms unfolding terminate_alt t by simp
    then show ?thesis by (simp add: t' restore_preset_def user_nv_def log_event_def)
  next
    case False
    then have "s' = t" "r = Threw" using assms unfolding terminate_alt t by simp_all
    then show ?thesis by (simp add: t' user_nv_def)
  qed
qed

lemma select_app_ok:
  assumes "proc_ok s" and "pr_prep_it s = 0"
  shows "proc_ok (select_app ident a ls s)"
  using assms by (simp add: select_app_def override_preset_def Let_def proc_ok_def passed_cmds_def)

lemma select_app_frame:
  "\<not> g_nv_preset_overridden s \<Longrightarrow> user_nv (select_app ident a ls s) = user_nv s"
  "pr_app (select_app ident a ls s) = a" "pr_prep_it (select_app ident a ls s) = 0"
  "pr_app_id (select_app ident a ls s) = ident" "pr_log (select_app ident a ls s) = pr_log s"
  by (simp_all add: select_app_def override_preset_def Let_def user_nv_def)

lemma launch_command_nv: "launch_command o' s = (b, s') \<Longrightarrow> user_nv s' = user_nv s"
  by (auto simp: launch_command_def start_compositor_def stop_compositor_def log_event_def Let_def
      user_nv_def split: if_splits)

lemma guarded_launch_frame:
  assumes "guarded_launch o' s = (b, s')"
  shows "user_nv s' = user_nv s \<and> pr_app s' = pr_app s \<and> pr_app_id s' = pr_app_id s"
proof -
  obtain passed t where t: "do_commands o' (app_prep_cmds (pr_app s)) s = (passed, t)" by fastforce
  obtain L I where "t = s\<lparr>pr_log := L, pr_prep_it := I\<rparr>" using do_commands_frame [OF t] by blast
  then have frame: "user_nv t = user_nv s" "pr_app t = pr_app s" "pr_app_id t = pr_app_id s"
    by (simp_all add: user_nv_def)
  show ?thesis
  proof (cases passed)
    case False
    with assms t frame show ?thesis by (simp add: guarded_launch_def)
  next
    case True
    let ?d = "spawn_detached o' (app_detached (pr_app t)) t"
    obtain D where "?d = t\<lparr>pr_log := D\<rparr>" using spawn_detached_frame by blast
    then have d: "user_nv ?d = user_nv t" "pr_app ?d = pr_app t" "pr_app_id ?d = pr_app_id t"
      by (simp_all add: user_nv_def)
    have l: "launch_command o' ?d = (b, s')" using assms t True by (simp add: guarded_launch_def)
    from launch_command_frame [OF l] launch_command_nv [OF l] d frame show ?thesis by auto
  qed
qed

lemma guarded_launch_ok:
  assumes "guarded_launch o' s = (b, s')" and "proc_ok s" and "pr_prep_it s = 0"
  shows "proc_ok s' \<and> (b \<longrightarrow> passed_cmds s' = app_prep_cmds (pr_app s))"
proof -
  obtain passed t where t: "do_commands o' (app_prep_cmds (pr_app s)) s = (passed, t)" by fastforce
  have ok: "proc_ok t" "passed \<Longrightarrow> passed_cmds t = app_prep_cmds (pr_app t)"
    using do_commands_ok [OF t assms(2)] assms(3) by simp_all
  obtain L I where t': "t = s\<lparr>pr_log := L, pr_prep_it := I\<rparr>" using do_commands_frame [OF t] by blast
  show ?thesis
  proof (cases passed)
    case False
    with assms(1) t ok show ?thesis by (simp add: guarded_launch_def)
  next
    case True
    let ?d = "spawn_detached o' (app_detached (pr_app t)) t"
    obtain D where "?d = t\<lparr>pr_log := D\<rparr>" using spawn_detached_frame by blast
    then have d: "passed_cmds ?d = passed_cmds t" by (simp add: passed_cmds_def)
    have l: "launch_command o' ?d = (b, s')" using assms(1) t True by (simp add: guarded_launch_def)
    have "passed_cmds s' = passed_cmds ?d"
      using launch_command_frame [OF l] by (auto simp: passed_cmds_def)
    with launch_command_ok [OF l spawn_detached_ok [OF ok(1)]] d ok(2) [OF True] t'
    show ?thesis by simp
  qed
qed

lemma execute_cases:
  assumes "execute o' ident ls s = (r, s')"
  obtains (throw) "terminate o' s = (Threw, s')" "r = Threw"
  | (unknown) "terminate o' s = (Returned (), s')" "find_app (pr_apps s) ident = None" "r = Returned 404"
  | (launched) t a where "terminate o' s = (Returned (), t)" "find_app (pr_apps s) ident = Some a"
      "guarded_launch o' (select_app ident a ls t) = (True, s')" "r = Returned 0"
  | (failed) t a u where "terminate o' s = (Returned (), t)" "find_app (pr_apps s) ident = Some a"
      "guarded_launch o' (select_app ident a ls t) = (False, u)" "terminate o' u = (Returned (), s')"
      "r = Returned (-1)"
  | (aborted) t a u where "terminate o' s = (Returned (), t)" "find_app (pr_apps s) ident = Some a"
      "guarded_launch o' (select_app ident a ls t) = (False, u)" "terminate o' u = (Threw, s')" "r = Aborted"
proof -
  have no_abort: "fst (terminate o' x) \<noteq> Aborted" for x
    by (simp add: terminate_alt split: prod.split bool.split)
  obtain q t where t: "terminate o' s = (q, t)" by fastforce
  show thesis
  proof (cases q)
    case Aborted
    with no_abort [of s] t show ?thesis by simp
  next
    case Threw
    with assms t throw show ?thesis by (simp add: execute_def)
  next
    case (Returned q')
    show ?thesis
    proof (cases "find_app (pr_apps s) ident")
      case None
      with assms t Returned unknown terminate_settings [OF t] show ?thesis by (simp add: execute_def)
    next
      case (Some a)
      obtain b u where u: "guarded_launch o' (select_app ident a ls t) = (b, u)" by fastforce
      have e: "execute o' ident ls s =
          (if b then (Returned 0, u)
           else case terminate o' u of (Returned _, s) \<Rightarrow> (Returned (-1), s) | (_, s) \<Rightarrow> (Aborted, s))"
        using t Returned Some u terminate_settings [OF t] by (simp add: execute_def)
      show ?thesis
      proof (cases b)
        case True
        with assms e t Returned Some u launched show ?thesis by simp
      next
        case False
        obtain p v where v: "terminate o' u = (p, v)" by fastforce
        from False assms e t Returned Some u v no_abort [of u] failed aborted show ?thesis
          by (cases p) simp_all
      qed
    qed
  qed
qed

text \<open>Every operation but \<open>refresh\<close> keeps the history balanced; every one keeps the user's settings.\<close>

lemma launched_ok:
  assumes "terminate o' s = (Returned (), t)" and "guarded_launch o' (select_app ident a ls t) = (b, u)"
  shows "(proc_ok s \<longrightarrow> proc_ok u) \<and> user_nv u = user_nv s \<and> pr_app u = a \<and> pr_app_id u = ident"
proof -
  note t = terminate_ok [OF assms(1)] terminate_settings [OF assms(1)]
  have "proc_ok (select_app ident a ls t)" if "proc_ok s"
    using t that by (intro select_app_ok) simp_all
  with guarded_launch_ok [OF assms(2)] guarded_launch_frame [OF assms(2)] t show ?thesis
    by (simp add: select_app_frame)
qed

lemma execute_ok:
  assumes "execute o' ident ls s = (r, s')"
  shows "(proc_ok s \<longrightarrow> proc_ok s') \<and> user_nv s' = user_nv s"
  using assms
proof (cases rule: execute_cases)
  case throw
  with terminate_ok [OF throw(1)] terminate_settings [OF throw(1)] show ?thesis by simp
next
  case unknown
  with terminate_ok [OF unknown(1)] terminate_settings [OF unknown(1)] show ?thesis by simp
next
  case (launched t a)
  from launched_ok [OF launched(1,3)] show ?thesis by simp
next
  case (failed t a u)
  from launched_ok [OF failed(1,3)] terminate_ok [OF failed(4)] terminate_settings [OF failed(4)]
  show ?thesis by simp
next
  case (aborted t a u)
  from launched_ok [OF aborted(1,3)] terminate_ok [OF aborted(4)] terminate_settings [OF aborted(4)]
  show ?thesis by simp
qed

lemma running_ok:
  assumes "running o' s = (r, s')"
  shows "(proc_ok s \<longrightarrow> proc_ok s') \<and> user_nv s' = user_nv s"
proof -
  consider (same) "s' = s" | (detached) "s' = s\<lparr>pr_placebo := True\<rparr>" | (ended) q where "terminate o' s = (q, s')"
    using assms by (auto simp: running_def split: if_splits prod.splits outcome.splits)
  then show ?thesis
  proof cases
    case detached
    then show ?thesis by (simp add: proc_ok_def passed_cmds_def user_nv_def)
  next
    case ended
    with terminate_ok [OF ended] terminate_settings [OF ended] show ?thesis by simp
  qed simp
qed

section \<open>Runs\<close>

datatype proc_op =
    Op_execute int launch_settings
  | Op_running
  | Op_terminate
  | Op_refresh "((bytes \<rightharpoonup> bytes) \<times> app list) option"

fun proc_step :: "os \<times> proc_op \<Rightarrow> proc_state \<Rightarrow> proc_state" where
  "proc_step (o', Op_execute ident ls) s = snd (execute o' ident ls s)"
| "proc_step (o', Op_running) s = snd (running o' s)"
| "proc_step (o', Op_terminate) s = snd (terminate o' s)"
| "proc_step (o', Op_refresh parsed) s = refresh parsed s"

definition proc_run :: "(os \<times> proc_op) list \<Rightarrow> proc_state \<Rightarrow> proc_state" where
  "proc_run ops s = fold proc_step ops s"

fun keeps_apps :: "os \<times> proc_op \<Rightarrow> bool" where
  "keeps_apps (o', Op_refresh parsed) = (parsed = None)"
| "keeps_apps (o', _) = True"

lemma proc_step_ok:
  "(keeps_apps op \<and> proc_ok s \<longrightarrow> proc_ok (proc_step op s)) \<and> user_nv (proc_step op s) = user_nv s"
proof (cases "(op, s)" rule: proc_step.cases)
  case (1 o' ident ls s)
  then show ?thesis using execute_ok [of o' ident ls s] by (cases "execute o' ident ls s") simp
next
  case (2 o' s)
  then show ?thesis using running_ok [of o' s] by (cases "running o' s") simp
next
  case (3 o' s)
  then show ?thesis using terminate_ok [of o' s] terminate_settings [of o' s]
    by (cases "terminate o' s") simp
next
  case (4 o' parsed s)
  then show ?thesis by (simp add: refresh_def user_nv_def split: option.split)
qed

interpretation nv: overlay user_nv "\<lambda>s. (cfg_nv s, cfg_nv_preset s)" g_nv_preset_overridden proc_step
  by unfold_locales (simp_all only: proc_step_ok, simp add: user_nv_def)

lemma proc_run_ok: "list_all keeps_apps ops \<Longrightarrow> proc_ok s \<Longrightarrow> proc_ok (proc_run ops s)"
  unfolding proc_run_def by (induction ops arbitrary: s) (simp_all add: proc_step_ok)

lemma proc_new_ok: "proc_ok (proc_new nv preset env apps)"
  by (simp add: proc_new_def proc_ok_def passed_cmds_def)

section \<open>Properties\<close>

lemma not_aborted: "terminate o' s = (r, s') \<Longrightarrow> r \<noteq> Aborted"
  by (auto simp: terminate_alt split: prod.splits bool.splits)


text \<open>C25: A preset of an application never outlives it. Whatever was launched, polled, terminated or
  read again before, and however the commands of the applications ended: when \<open>terminate\<close> returns,
  the encoder has the settings and the preset it had when the program started.\<close>

theorem encoder_settings_restored:
  assumes "terminate o' (proc_run ops (proc_new nv preset env apps)) = (Returned (), s)"
  shows "cfg_nv s = nv \<and> cfg_nv_preset s = preset \<and> \<not> g_nv_preset_overridden s"
proof -
  have s: "s = fold proc_step (ops @ [(o', Op_terminate)]) (proc_new nv preset env apps)"
    using assms by (simp add: proc_run_def)
  have off: "\<not> g_nv_preset_overridden s" using terminate_settings [OF assms] by simp
  from nv.restored [of "proc_new nv preset env apps" "ops @ [(o', Op_terminate)]"] off
  show ?thesis unfolding s by (simp add: proc_new_def)
qed


text \<open>The command that fails is not undone. When a do command stops a launch, the undo commands
  that run are those of the commands before it, in reverse order; what the failing command did before
  it failed stays.\<close>

theorem failing_command_not_undone:
  assumes "terminate o' s = (Returned (), t)" and "find_app (pr_apps s) ident = Some a"
    and "do_commands o' (app_prep_cmds a) (select_app ident a ls t) = (False, u)"
    and "terminate o' u = (Returned (), s')" and "proc_ok s"
  shows "execute o' ident ls s = (Returned (-1), s') \<and>
    (\<exists>k < length (app_prep_cmds a). do_cmd (app_prep_cmds a ! k) \<noteq> [] \<and>
       undo_runs (pr_log s') =
         undo_runs (pr_log u) @ filter (\<lambda>c. undo_cmd c \<noteq> []) (rev (take k (app_prep_cmds a))))"
proof -
  note t = terminate_ok [OF assms(1,5)] terminate_settings [OF assms(1)]
  from t have ok: "proc_ok (select_app ident a ls t)" by (intro select_app_ok) simp_all
  obtain L I where u: "u = (select_app ident a ls t)\<lparr>pr_log := L, pr_prep_it := I\<rparr>"
    using do_commands_frame [OF assms(3)] by blast
  have "pr_app u = a" unfolding u by (simp add: select_app_frame)
  with do_commands_ok [OF assms(3) ok] have k: "proc_ok u" "pr_prep_it u < length (app_prep_cmds a)"
    "do_cmd (app_prep_cmds a ! pr_prep_it u) \<noteq> []" "passed_cmds u = take (pr_prep_it u) (app_prep_cmds a)"
    by (simp_all add: select_app_frame passed_cmds_def)
  have "execute o' ident ls s = (Returned (-1), s')"
    using t assms by (simp add: execute_def guarded_launch_def select_app_frame)
  with k terminate_ok [OF assms(4) k(1)] show ?thesis by (auto intro!: exI [of _ "pr_prep_it u"])
qed

text \<open>C28: Saving an application in the web interface while another one runs loses it. \<open>refresh\<close> moves
  a new object over the running one without terminating it: \<open>running\<close> answers 0 at once, the next
  \<open>terminate\<close> runs none of the undo commands that were pending, ends no process, and leaves the display
  as it is.\<close>

theorem refresh_loses_running_app:
  assumes "terminate o' (refresh (Some (env, apps)) s) = (r, s')"
  shows "running p (refresh (Some (env, apps)) s) = (Returned 0, refresh (Some (env, apps)) s) \<and>
    r = Returned () \<and> undo_runs (pr_log s') = undo_runs (pr_log s) \<and>
    (\<exists>es. pr_log s' = pr_log s @ es \<and> set es \<subseteq> {Compositor_stopped})"
proof -
  let ?n = "refresh (Some (env, apps)) s"
  have run: "running p ?n = (Returned 0, ?n)" by (simp add: running_def refresh_def no_app_def)
  define es where "es = (if pr_compositor s then [Compositor_stopped] else [])"
  have "r = Returned () \<and> pr_log s' = pr_log s @ es"
    using assms by (auto simp: terminate_def refresh_def terminate_process_group_def stop_compositor_def
        restore_preset_def log_event_def no_app_def es_def Let_def split: if_splits)
  moreover have "undo_runs es = []" "set es \<subseteq> {Compositor_stopped}" by (auto simp: es_def)
  ultimately show ?thesis using run by auto
qed

text \<open>Ending the process group is bounded by the time the application has: at most
  \<open>exit_timeout\<close> waits of a second, none without a time, and then the group is ended in any case.\<close>

theorem terminate_group_bounded:
  assumes "pr_process_group s" and "os_group_running o' (pr_log s)"
  shows "\<exists>es n. pr_log (terminate_process_group o' s) = pr_log s @ es @ replicate n Slept @ [Group_terminated] \<and>
    set es \<subseteq> {Exit_requested} \<and> int n \<le> max 0 (app_exit_timeout (pr_app s)) \<and>
    \<not> pr_process_group (terminate_process_group o' s) \<and> \<not> pr_process (terminate_process_group o' s)"
proof -
  let ?t = "app_exit_timeout (pr_app s)"
  obtain n where n: "snd (poll_exit o' ?t (pr_log s @ [Exit_requested])) =
      (pr_log s @ [Exit_requested]) @ replicate n Slept" "int n \<le> max 0 ?t" using poll_exit_log by blast
  consider "?t \<le> 0" | "0 < ?t" "os_request_exit o' (pr_log s)" | "0 < ?t" "\<not> os_request_exit o' (pr_log s)"
    by fastforce
  then show ?thesis
  proof cases
    case 1
    with assms show ?thesis
      by (intro exI [of _ "[]"] exI [of _ 0]) (simp add: terminate_process_group_def request_exit_def log_event_def)
  next
    case 2
    with assms n show ?thesis
      by (intro exI [of _ "[Exit_requested]"] exI [of _ n])
        (simp add: terminate_process_group_def request_exit_def log_event_def Let_def)
  next
    case 3
    with assms show ?thesis
      by (intro exI [of _ "[Exit_requested]"] exI [of _ 0])
        (simp add: terminate_process_group_def request_exit_def log_event_def Let_def)
  qed
qed

text \<open>After \<open>terminate\<close> nothing runs: as long as the process library does not report the exit
  code 0 for an object without a process, \<open>running\<close> answers 0 until the next launch.\<close>

theorem terminated_not_running:
  assumes "terminate o' s = (Returned (), s')" and "os_idle_exit_code p \<noteq> 0"
  shows "running p s' = (Returned 0, s')"
  using terminate_settings [OF assms(1)] assms(2) by (simp add: running_def native_exit_code_def)

text \<open>The picture of an application that clients can fetch is a file with the signature of a PNG
  and the extension \<^verbatim>\<open>.png\<close>, or one of the two pictures of the program, whatever path the
  application names.\<close>

theorem app_image_is_png:
  "get_app_image fs ident s \<in> {default_app_image fs, fs_assets_dir fs @ ascii ''/steam.png''} \<or>
   check_valid_png fs (get_app_image fs ident s) \<and> fs_exists fs (get_app_image fs ident s)"
  by (simp add: get_app_image_def validate_app_image_path_def Let_def)

definition quote_dollars :: "bytes \<Rightarrow> bytes" where
  "quote_dollars txt = concat (map (\<lambda>c. if c = 36 then [36, 36] else [c]) txt)"

lemma expand_plain: "c \<noteq> 36 \<Longrightarrow> expand_from env (c # cs) = map_option (Cons c) (expand_from env cs)"
  by (cases cs) simp_all

text \<open>Doubling the dollar signs of a text quotes it: reading it back gives the text.\<close>

theorem env_val_roundtrip: "parse_env_val env (quote_dollars cs) = Some cs"
proof -
  have "expand_from env (quote_dollars cs) = Some cs"
  proof (induction cs)
    case (Cons c cs)
    then show ?case by (cases "c = 36") (simp_all add: quote_dollars_def expand_plain)
  qed (simp add: quote_dollars_def)
  then show ?thesis by (simp add: parse_env_val_def)
qed

section \<open>Examples\<close>

definition quiet_os :: os where
  "quiet_os = \<lparr>os_run_command = (\<lambda>_ _. None), os_wait = (\<lambda>_ _. Some 0), os_group_running = (\<lambda>_. False),
     os_request_exit = (\<lambda>_. True), os_process_running = (\<lambda>_. True), os_exit_code = (\<lambda>_. 0),
     os_idle_exit_code = 383, os_compositor_enabled = False, os_compositor_start = (\<lambda>_. False),
     os_compositor_env = [], os_split_command = (\<lambda>c. Some [c]), os_search_path = (\<lambda>_. []),
     os_parent_path = (\<lambda>_. [])\<rparr>"

text \<open>The second command fails.\<close>

definition failing_os :: os where
  "failing_os = quiet_os\<lparr>os_wait := (\<lambda>_ c. if c = [2] then Some 1 else Some 0)\<rparr>"

text \<open>An application that takes two seconds to end.\<close>

definition slow_os :: os where
  "slow_os = quiet_os\<lparr>os_group_running := (\<lambda>log. length (filter (\<lambda>e. e = Slept) log) < 2)\<rparr>"

definition game :: app where
  "game = no_app\<lparr>app_prep_cmds := [\<lparr>do_cmd = [1], undo_cmd = [11], cmd_elevated = False\<rparr>,
       \<lparr>do_cmd = [2], undo_cmd = [12], cmd_elevated = False\<rparr>], app_cmd := [3], app_id := [55],
     app_working_dir := [47], app_exit_timeout := 5, app_encoder_preset_override := 2\<rparr>"

definition some_settings :: launch_settings where
  "some_settings = \<lparr>ls_width = 1, ls_height = 1, ls_fps = 1, ls_enable_hdr = False, ls_gcmap = 0,
     ls_host_audio = False, ls_enable_sops = False, ls_surround_info = 196610, ls_surround_params = []\<rparr>"

definition idle_proc :: proc_state where
  "idle_proc = proc_new nvenc_config_new (-1) Map.empty [game]"

lemma idle_ok: "proc_ok idle_proc" "\<not> g_nv_preset_overridden idle_proc"
  unfolding idle_proc_def by (rule proc_new_ok) (simp add: proc_new_def)

lemma find_game: "find_app (pr_apps idle_proc) 7 = Some game"
  by (simp add: find_app_def idle_proc_def proc_new_def game_def no_app_def int_text_def decimal_text.simps)

lemmas example_defs = quiet_os_def failing_os_def slow_os_def some_settings_def

lemma idle_terminate: "terminate o' idle_proc = (Returned (), idle_proc\<lparr>pr_app_id := -1\<rparr>)"
  by (simp add: terminate_def idle_proc_def proc_new_def terminate_process_group_def stop_compositor_def
      restore_preset_def no_app_def Let_def)

lemma game_selected:
  "pr_app (select_app 7 game some_settings s) = game" "pr_prep_it (select_app 7 game some_settings s) = 0"
  by (simp_all add: select_app_frame)

definition game_log :: "proc_event list" where
  "game_log = [Do_run \<lparr>do_cmd = [1], undo_cmd = [11], cmd_elevated = False\<rparr> [47],
     Passed \<lparr>do_cmd = [1], undo_cmd = [11], cmd_elevated = False\<rparr>,
     Do_run \<lparr>do_cmd = [2], undo_cmd = [12], cmd_elevated = False\<rparr> [47],
     Passed \<lparr>do_cmd = [2], undo_cmd = [12], cmd_elevated = False\<rparr>, Launched [3] [47]]"

lemma quiet_launch:
  "execute quiet_os 7 some_settings idle_proc =
    (Returned 0, (select_app 7 game some_settings (idle_proc\<lparr>pr_app_id := -1\<rparr>))
       \<lparr>pr_prep_it := 2, pr_log := game_log, pr_process := True, pr_process_group := True\<rparr>)"
proof -
  let ?s = "select_app 7 game some_settings (idle_proc\<lparr>pr_app_id := -1\<rparr>)"
  have "guarded_launch quiet_os ?s = (True, ?s\<lparr>pr_prep_it := 2, pr_log := game_log, pr_process := True, pr_process_group := True\<rparr>)"
    by (simp add: guarded_launch_def select_app_frame game_def no_app_def quiet_os_def log_event_def
        working_dir_def launch_command_def start_compositor_def game_log_def idle_proc_def proc_new_def Let_def)
  with find_game show ?thesis by (simp add: execute_def idle_terminate)
qed

text \<open>An exception leaves \<open>terminate\<close> only when a wait fails.\<close>

lemma undo_commands_finishes:
  assumes "\<forall>log c. os_wait o' log c \<noteq> None"
  shows "fst (undo_commands o' n s)"
proof (induction n arbitrary: s)
  case (Suc n)
  define cmd where "cmd = app_prep_cmds (pr_app s) ! n"
  let ?log = "pr_log (log_event (Undo_run cmd (working_dir o' s (undo_cmd cmd))) s)"
  obtain ret where "os_wait o' ?log (undo_cmd cmd) = Some ret" using assms by blast
  then show ?case by (simp add: Let_def Suc flip: cmd_def)
qed simp

lemma terminate_returns:
  assumes "\<forall>log c. os_wait o' log c \<noteq> None"
  shows "\<exists>s'. terminate o' s = (Returned (), s')"
proof -
  obtain t where "undo_commands o' (pr_prep_it (end_process o' s)) (end_process o' s) = (True, t)"
    using undo_commands_finishes [of o', OF assms] by (metis prod.collapse)
  then show ?thesis by (simp add: terminate_alt)
qed

lemma quiet_run:
  "proc_run [(quiet_os, Op_execute 7 some_settings)] idle_proc =
    (select_app 7 game some_settings (idle_proc\<lparr>pr_app_id := -1\<rparr>))
       \<lparr>pr_prep_it := 2, pr_log := game_log, pr_process := True, pr_process_group := True\<rparr>"
  by (simp add: proc_run_def quiet_launch)


lemma quiet_end:
  "\<exists>s. terminate quiet_os (proc_run [(quiet_os, Op_execute 7 some_settings)] idle_proc) = (Returned (), s)"
  by (rule terminate_returns) (simp add: quiet_os_def)

lemma encoder_settings_restored_witness:
  "cfg_nv_preset (proc_run [(quiet_os, Op_execute 7 some_settings)] idle_proc) = 2 \<and>
   cfg_nv (snd (terminate quiet_os (proc_run [(quiet_os, Op_execute 7 some_settings)] idle_proc))) = nvenc_config_new"
proof -
  obtain s where s: "terminate quiet_os (proc_run [(quiet_os, Op_execute 7 some_settings)] idle_proc) = (Returned (), s)"
    using quiet_end by blast
  from encoder_settings_restored [OF s [unfolded idle_proc_def]] s show ?thesis
    by (simp add: quiet_run select_app_def override_preset_def game_def no_app_def Let_def)
qed

lemma failing_waits: "\<forall>log c. os_wait failing_os log c \<noteq> None"
  by (simp add: failing_os_def)

lemma failing_launch:
  "execute failing_os 7 some_settings idle_proc = (Returned (-1), snd (execute failing_os 7 some_settings idle_proc)) \<and>
   do_commands failing_os (app_prep_cmds game) (select_app 7 game some_settings (idle_proc\<lparr>pr_app_id := -1\<rparr>)) =
    (False, (select_app 7 game some_settings (idle_proc\<lparr>pr_app_id := -1\<rparr>))
       \<lparr>pr_prep_it := 1, pr_log := take 3 game_log\<rparr>) \<and>
   fst (terminate failing_os ((select_app 7 game some_settings (idle_proc\<lparr>pr_app_id := -1\<rparr>))
       \<lparr>pr_prep_it := 1, pr_log := take 3 game_log\<rparr>)) = Returned ()"
proof -
  let ?s = "select_app 7 game some_settings (idle_proc\<lparr>pr_app_id := -1\<rparr>)"
  let ?u = "?s\<lparr>pr_prep_it := 1, pr_log := take 3 game_log\<rparr>"
  have d: "do_commands failing_os (app_prep_cmds game) ?s = (False, ?u)"
    by (simp add: select_app_def override_preset_def game_def no_app_def failing_os_def quiet_os_def log_event_def
        working_dir_def game_log_def idle_proc_def proc_new_def Let_def)
  obtain v where v: "terminate failing_os ?u = (Returned (), v)"
    using terminate_returns [of failing_os ?u] failing_waits by blast
  from d v find_game have "fst (execute failing_os 7 some_settings idle_proc) = Returned (-1)"
    by (simp add: execute_def idle_terminate guarded_launch_def game_selected)
  with d v show ?thesis by (simp add: prod_eq_iff)
qed


lemma failing_command_not_undone_witness:
  "\<exists>k < 2. undo_runs (pr_log (snd (execute failing_os 7 some_settings idle_proc))) =
     filter (\<lambda>c. undo_cmd c \<noteq> []) (rev (take k (app_prep_cmds game)))"
proof -
  let ?u = "(select_app 7 game some_settings (idle_proc\<lparr>pr_app_id := -1\<rparr>))\<lparr>pr_prep_it := 1, pr_log := take 3 game_log\<rparr>"
  obtain v where v: "terminate failing_os ?u = (Returned (), v)"
    using failing_launch by (metis prod.collapse)
  have l: "length (app_prep_cmds game) = 2" and n: "undo_runs (take 3 game_log) = []"
    by (simp_all add: game_def game_log_def no_app_def)
  from failing_command_not_undone [OF idle_terminate find_game _ v idle_ok(1)] failing_launch
  have e: "execute failing_os 7 some_settings idle_proc = (Returned (-1), v)"
    "\<exists>k < length (app_prep_cmds game). undo_runs (pr_log v) =
      undo_runs (pr_log ?u) @ filter (\<lambda>c. undo_cmd c \<noteq> []) (rev (take k (app_prep_cmds game)))"
    by blast+
  then show ?thesis unfolding l by (simp add: n)
qed

lemma refresh_loses_running_app_witness:
  "undo_runs (pr_log (snd (terminate quiet_os (refresh (Some (Map.empty, [game]))
     (proc_run [(quiet_os, Op_execute 7 some_settings)] idle_proc))))) = [] \<and>
   pr_prep_it (proc_run [(quiet_os, Op_execute 7 some_settings)] idle_proc) = 2"
proof -
  let ?s = "proc_run [(quiet_os, Op_execute 7 some_settings)] idle_proc"
  obtain r v where v: "terminate quiet_os (refresh (Some (Map.empty, [game])) ?s) = (r, v)" by fastforce
  have "undo_runs (pr_log ?s) = []" unfolding quiet_run by (simp add: game_log_def)
  with refresh_loses_running_app [OF v] v show ?thesis by (simp add: quiet_run)
qed

lemma terminate_group_bounded_witness:
  "Group_terminated \<in> set (pr_log (terminate_process_group slow_os (idle_proc\<lparr>pr_process_group := True\<rparr>)))"
proof -
  have "pr_process_group (idle_proc\<lparr>pr_process_group := True\<rparr>)"
    "os_group_running slow_os (pr_log (idle_proc\<lparr>pr_process_group := True\<rparr>))"
    by (simp_all add: slow_os_def quiet_os_def idle_proc_def proc_new_def)
  from terminate_group_bounded [OF this] show ?thesis by auto
qed

lemma terminated_not_running_witness:
  "fst (running quiet_os (idle_proc\<lparr>pr_app_id := -1\<rparr>)) = Returned 0"
proof -
  have "os_idle_exit_code quiet_os \<noteq> 0" by (simp add: quiet_os_def)
  from terminated_not_running [OF idle_terminate this] show ?thesis by simp
qed

text \<open>The layout of an earlier client stays in the environment when that of a new one is unknown.\<close>

theorem audio_configuration_stale:
  assumes "audio_configuration (ls_surround_info ls) = None"
  shows "stream_env ident a ls env (ascii ''SUNSHINE_CLIENT_AUDIO_CONFIGURATION'') =
    env (ascii ''SUNSHINE_CLIENT_AUDIO_CONFIGURATION'')"
  by (simp add: stream_env_def assms ascii_inj)

lemma audio_configuration_stale_witness:
  "stream_env 7 game (some_settings\<lparr>ls_surround_info := 4\<rparr>) [ascii ''SUNSHINE_CLIENT_AUDIO_CONFIGURATION'' \<mapsto> [1]]
     (ascii ''SUNSHINE_CLIENT_AUDIO_CONFIGURATION'') = Some [1]"
proof -
  have "audio_configuration (ls_surround_info (some_settings\<lparr>ls_surround_info := 4\<rparr>)) = None"
    by (simp add: audio_configuration_def some_settings_def take_bit_eq_mod)
  from audio_configuration_stale [OF this] show ?thesis by simp
qed

text \<open>A bracket without its partner makes the whole file unusable.\<close>

lemma match_from_open: "41 \<notin> set cs \<Longrightarrow> 0 < stack \<Longrightarrow> match_from stack before cs = None"
  by (induction cs arbitrary: stack before) auto

theorem env_val_unmatched:
  assumes "36 \<notin> set plain" and "41 \<notin> set rest"
  shows "parse_env_val env (plain @ 36 # 40 # rest) = None"
proof -
  have "expand_from env (plain @ 36 # 40 # rest) = None"
    using assms(1)
  proof (induction plain)
    case Nil
    then show ?case by (simp add: find_match_def match_from_open [OF assms(2)])
  qed (simp add: expand_plain)
  then show ?thesis by (simp add: parse_env_val_def)
qed

lemma env_val_unmatched_witness: "parse_env_val (\<lambda>_. []) ([65] @ 36 # 40 # [66]) = None"
  by (rule env_val_unmatched) simp_all

text \<open>A variable in brackets is replaced by its value.\<close>

lemma match_from_name:
  "40 \<notin> set name \<Longrightarrow> 41 \<notin> set name \<Longrightarrow> match_from 1 before (name @ 41 # rest) = Some (before @ name, 41 # rest)"
  by (induction name arbitrary: before) auto

theorem env_val_variable:
  assumes "40 \<notin> set name" and "41 \<notin> set name" and "36 \<notin> set plain"
  shows "parse_env_val env (plain @ 36 # 40 # name @ 41 # rest) =
    map_option (\<lambda>r. plain @ env name @ r) (parse_env_val env rest)"
proof -
  have "expand_from env (plain @ 36 # 40 # name @ 41 # rest) =
      map_option (\<lambda>r. plain @ env name @ r) (expand_from env rest)"
    using assms(3)
  proof (induction plain)
    case Nil
    have "find_match (40 # name @ 41 # rest) = Some (40 # name, 41 # rest)"
      using match_from_name [OF assms(1,2)] by (simp add: find_match_def)
    then show ?case by (simp add: option.map_comp)
  next
    case (Cons c plain)
    then show ?case by (simp add: expand_plain option.map_comp comp_def)
  qed
  then show ?thesis by (simp add: parse_env_val_def)
qed

lemma env_val_variable_witness:
  "parse_env_val (\<lambda>n. if n = [65] then [1, 2] else []) ([66] @ 36 # 40 # [65] @ 41 # [67]) = Some [66, 1, 2, 67]"
proof -
  have "parse_env_val (\<lambda>n. if n = [65] then [1, 2] else []) [67] = Some [67]" by (simp add: parse_env_val_def)
  with env_val_variable [of "[65]" "[66]" "\<lambda>n. if n = [65] then [1, 2] else []" "[67]"] show ?thesis by simp
qed

end
