(* ===== verification/ClientProfiles.thy ===== *)
theory ClientProfiles
  imports NetUtil "HOL-Library.Multiset"
begin

text \<open>
  Profiles of clients (\<^verbatim>\<open>src/client_profiles.cpp\<close>): reading them from the variables of the
  configuration, and overriding and restoring four global settings. Strings are lists of bytes. The
  lemmas show that profiles are valid whatever the file says, that the order of an unordered map does
  not matter, and when the settings of the user come back.
\<close>

section \<open>State\<close>

record profile =
  pf_name :: bytes
  pf_max_bitrate :: int
  pf_hevc_mode :: int
  pf_av1_mode :: int
  pf_latency_mode :: bytes

definition profile_new :: profile where
  "profile_new = \<lparr>pf_name = [], pf_max_bitrate = 0, pf_hevc_mode = 0, pf_av1_mode = 0, pf_latency_mode = []\<rparr>"

text \<open>The global settings that a profile may override.\<close>

record settings =
  se_max_bitrate :: int
  se_hevc_mode :: int
  se_av1_mode :: int
  se_latency_mode :: bytes

record undo_t =
  un_active :: bool
  un_settings :: settings

record profiles_state =
  ps_profiles :: "bytes \<rightharpoonup> profile"
  ps_undo :: undo_t
  ps_config :: settings

definition BITRATE_MAX_KBPS :: int where
  "BITRATE_MAX_KBPS = 1000000"

definition profiles_new :: "settings \<Rightarrow> profiles_state" where
  "profiles_new conf = \<lparr>ps_profiles = Map.empty, ps_undo = \<lparr>un_active = False,
     un_settings = \<lparr>se_max_bitrate = 0, se_hevc_mode = 0, se_av1_mode = 0, se_latency_mode = []\<rparr>\<rparr>,
     ps_config = conf\<rparr>"

section \<open>Applying and resetting\<close>

definition find_profile :: "bytes \<Rightarrow> profiles_state \<Rightarrow> profile option" where
  "find_profile client_name s = (if client_name = [] then None else ps_profiles s client_name)"

text \<open>The fields of a profile that are set and valid.\<close>

definition override_settings :: "profile \<Rightarrow> settings \<Rightarrow> settings" where
  "override_settings p conf =
    (let conf = (if 0 < pf_max_bitrate p \<and> pf_max_bitrate p \<le> BITRATE_MAX_KBPS
                 then conf\<lparr>se_max_bitrate := pf_max_bitrate p\<rparr> else conf);
         conf = (if 0 < pf_hevc_mode p \<and> pf_hevc_mode p \<le> 3
                 then conf\<lparr>se_hevc_mode := pf_hevc_mode p\<rparr> else conf);
         conf = (if 0 < pf_av1_mode p \<and> pf_av1_mode p \<le> 3
                 then conf\<lparr>se_av1_mode := pf_av1_mode p\<rparr> else conf) in
     if pf_latency_mode p = ascii ''safe'' \<or> pf_latency_mode p = ascii ''aggressive''
     then conf\<lparr>se_latency_mode := pf_latency_mode p\<rparr> else conf)"

definition apply_profile :: "bytes \<Rightarrow> profiles_state \<Rightarrow> profiles_state" where
  "apply_profile client_name s =
    (if client_name = [] then s
     else case ps_profiles s client_name of
       None \<Rightarrow> s
     | Some p \<Rightarrow>
         s\<lparr>ps_undo := \<lparr>un_active = True, un_settings = ps_config s\<rparr>,
           ps_config := override_settings p (ps_config s)\<rparr>)"

definition reset_profile :: "profiles_state \<Rightarrow> profiles_state" where
  "reset_profile s =
    (if \<not> un_active (ps_undo s) then s
     else s\<lparr>ps_config := un_settings (ps_undo s), ps_undo := (ps_undo s)\<lparr>un_active := False\<rparr>\<rparr>)"

section \<open>Reading the profiles\<close>

text \<open>
  \<^verbatim>\<open>std::stoi\<close>: leading white space, an optional sign, and as many digits as there are; the rest of the
  text is ignored. \<open>None\<close> is one of its exceptions (no digit, or a value that is no \<^verbatim>\<open>int\<close>).
\<close>

definition is_space :: "u8 \<Rightarrow> bool" where
  "is_space c \<longleftrightarrow> c = 32 \<or> 9 \<le> c \<and> c \<le> 13"

definition is_digit :: "u8 \<Rightarrow> bool" where
  "is_digit c \<longleftrightarrow> 48 \<le> c \<and> c \<le> 57"

definition stoi :: "bytes \<Rightarrow> int option" where
  "stoi str =
    (let body = dropWhile is_space str;
         negative = (body \<noteq> [] \<and> hd body = 45);
         unsigned = (if body \<noteq> [] \<and> (hd body = 45 \<or> hd body = 43) then tl body else body);
         digits = takeWhile is_digit unsigned in
     if digits = [] then None
     else case decimal_digits 0 digits of
       None \<Rightarrow> None
     | Some n \<Rightarrow>
         let v = (if negative then - int n else int n) in
         if - (2 ^ 31) \<le> v \<and> v < 2 ^ 31 then Some v else None)"

datatype field = Max_bitrate | Hevc_mode | Av1_mode | Latency_mode

definition field_names :: "(bytes \<times> field) list" where
  "field_names = [(ascii ''max_bitrate'', Max_bitrate), (ascii ''hevc_mode'', Hevc_mode),
     (ascii ''av1_mode'', Av1_mode), (ascii ''latency_mode'', Latency_mode)]"

definition profile_prefix :: bytes where
  "profile_prefix = ascii ''client_profile_''"

text \<open>The name and the field of a key: the first suffix that fits, with an underscore before it.\<close>

definition ends_with_field :: "bytes \<Rightarrow> bytes \<Rightarrow> bool" where
  "ends_with_field rest candidate \<longleftrightarrow>
    length candidate + 1 < length rest \<and> drop (length rest - length candidate) rest = candidate \<and>
    rest ! (length rest - length candidate - 1) = 95"

definition split_key :: "bytes \<Rightarrow> (bytes \<times> field) option" where
  "split_key key =
    (if \<not> prefix profile_prefix key then None
     else
       let rest = drop (length profile_prefix) key in
       case find (\<lambda>(candidate, f). ends_with_field rest candidate) field_names of
         None \<Rightarrow> None
       | Some (candidate, f) \<Rightarrow>
           let name = take (length rest - length candidate - 1) rest in
           if name = [] then None else Some (name, f))"

text \<open>A value out of its range leaves the field as it is.\<close>

definition set_field :: "field \<Rightarrow> bytes \<Rightarrow> profile \<Rightarrow> profile" where
  "set_field f val p =
    (case f of
       Max_bitrate \<Rightarrow>
         (case stoi val of
            Some v \<Rightarrow> if v < 0 \<or> BITRATE_MAX_KBPS < v then p else p\<lparr>pf_max_bitrate := v\<rparr> | None \<Rightarrow> p)
     | Hevc_mode \<Rightarrow>
         (case stoi val of Some v \<Rightarrow> if v < 0 \<or> 3 < v then p else p\<lparr>pf_hevc_mode := v\<rparr> | None \<Rightarrow> p)
     | Av1_mode \<Rightarrow>
         (case stoi val of Some v \<Rightarrow> if v < 0 \<or> 3 < v then p else p\<lparr>pf_av1_mode := v\<rparr> | None \<Rightarrow> p)
     | Latency_mode \<Rightarrow>
         if val \<noteq> ascii ''safe'' \<and> val \<noteq> ascii ''aggressive'' then p else p\<lparr>pf_latency_mode := val\<rparr>)"

definition load_key :: "bytes \<times> bytes \<Rightarrow> (bytes \<rightharpoonup> profile) \<Rightarrow> (bytes \<rightharpoonup> profile)" where
  "load_key kv building =
    (case split_key (fst kv) of
       None \<Rightarrow> building
     | Some (name, f) \<Rightarrow>
         let p = (case building name of Some p \<Rightarrow> p | None \<Rightarrow> profile_new) in
         building(name \<mapsto> set_field f (snd kv) (p\<lparr>pf_name := name\<rparr>)))"

text \<open>The variables in the order in which the map is walked.\<close>

definition load_from_config :: "(bytes \<times> bytes) list \<Rightarrow> profiles_state \<Rightarrow> profiles_state" where
  "load_from_config vars s = s\<lparr>ps_profiles := fold load_key vars Map.empty\<rparr>"

section \<open>The profiles read are valid\<close>

definition valid_profile :: "bytes \<Rightarrow> profile \<Rightarrow> bool" where
  "valid_profile name p \<longleftrightarrow> pf_name p = name \<and> 0 \<le> pf_max_bitrate p \<and> pf_max_bitrate p \<le> BITRATE_MAX_KBPS \<and>
     pf_hevc_mode p \<in> {0..3} \<and> pf_av1_mode p \<in> {0..3} \<and>
     pf_latency_mode p \<in> {[], ascii ''safe'', ascii ''aggressive''}"

lemma valid_set_field: "valid_profile name p \<Longrightarrow> valid_profile name (set_field f val p)"
  by (cases f) (auto simp: valid_profile_def set_field_def split: option.split)

lemma valid_rename: "valid_profile n p \<Longrightarrow> valid_profile name (p\<lparr>pf_name := name\<rparr>)"
  by (simp add: valid_profile_def)

lemma valid_load_key:
  assumes "\<And>n p. m n = Some p \<Longrightarrow> valid_profile n p" and "load_key kv m n = Some p"
  shows "valid_profile n p"
proof -
  have new: "valid_profile [] profile_new" by (simp add: valid_profile_def profile_new_def BITRATE_MAX_KBPS_def)
  show ?thesis
  proof (cases "split_key (fst kv)")
    case None
    with assms show ?thesis by (simp add: load_key_def)
  next
    case (Some nf)
    obtain k f where nf: "nf = (k, f)" by fastforce
    define q where "q = (case m k of Some p \<Rightarrow> p | None \<Rightarrow> profile_new)"
    have "valid_profile k (set_field f (snd kv) (q\<lparr>pf_name := k\<rparr>))"
      using assms(1) [of k] new by (intro valid_set_field) (cases "m k", simp_all add: q_def valid_rename [OF new] valid_rename [OF assms(1)])
    with assms Some show ?thesis by (auto simp: load_key_def nf q_def split: if_splits)
  qed
qed

lemma valid_load:
  "(\<And>n p. m n = Some p \<Longrightarrow> valid_profile n p) \<Longrightarrow> fold load_key vars m n = Some p \<Longrightarrow> valid_profile n p"
proof (induction vars arbitrary: m)
  case (Cons kv vars)
  then show ?case using valid_load_key [of m kv] by (metis fold_simps(2))
qed simp


section \<open>The order of the keys\<close>

lemma split_key_prefix: "split_key key = Some (name, f) \<Longrightarrow>
   \<exists>c. (c, f) \<in> set field_names \<and> key = profile_prefix @ name @ 95 # c"
proof -
  assume a: "split_key key = Some (name, f)"
  then obtain rest where key: "key = profile_prefix @ rest"
    by (auto simp: split_key_def prefix_def split: if_splits)
  from a obtain c where c: "find (\<lambda>(c, f). ends_with_field rest c) field_names = Some (c, f)"
    and name: "name = take (length rest - length c - 1) rest"
    by (auto simp: split_key_def key Let_def split: if_splits option.splits)
  from c have fits: "ends_with_field rest c" and mem: "(c, f) \<in> set field_names"
    by (auto simp: find_Some_iff in_set_conv_nth)
  let ?k = "length rest - length c - 1"
  from fits have k: "?k < length rest" and "length rest - length c = Suc ?k"
    by (auto simp: ends_with_field_def)
  then have "rest = take ?k rest @ rest ! ?k # drop (length rest - length c) rest"
    using id_take_nth_drop [OF k] by simp
  with fits name have "rest = name @ 95 # c" by (simp add: ends_with_field_def)
  with mem key show ?thesis by blast
qed

lemma field_names_inj: "(c, f) \<in> set field_names \<Longrightarrow> (d, f) \<in> set field_names \<Longrightarrow> c = d"
  by (auto simp: field_names_def)

lemma split_key_inj:
  assumes "split_key k = Some (name, f)" and "split_key l = Some (name, f)"
  shows "k = l"
  using split_key_prefix [OF assms(1)] split_key_prefix [OF assms(2)] field_names_inj by blast

lemma set_field_commute: "f \<noteq> g \<Longrightarrow> set_field f v (set_field g w p) = set_field g w (set_field f v p)"
  by (cases f; cases g) (auto simp: set_field_def split: option.split)

lemma set_field_name: "(set_field f v p)\<lparr>pf_name := n\<rparr> = set_field f v (p\<lparr>pf_name := n\<rparr>)"
  by (cases f) (auto simp: set_field_def split: option.split)

lemma load_key_commute:
  assumes "fst x \<noteq> fst y"
  shows "load_key x (load_key y m) = load_key y (load_key x m)"
proof (cases "split_key (fst x)")
  case None
  then show ?thesis by (simp add: load_key_def)
next
  case x: (Some nf)
  show ?thesis
  proof (cases "split_key (fst y)")
    case None
    then show ?thesis by (simp add: load_key_def)
  next
    case y: (Some ng)
    obtain n f where nf: "nf = (n, f)" by fastforce
    obtain n' g where ng: "ng = (n', g)" by fastforce
    from split_key_inj x y assms nf ng have "n \<noteq> n' \<or> f \<noteq> g" by metis
    then show ?thesis
    proof
      assume "n \<noteq> n'"
      then show ?thesis by (simp add: load_key_def x y nf ng fun_upd_twist)
    next
      assume "f \<noteq> g"
      then show ?thesis
        by (cases "n = n'") (simp_all add: load_key_def x y nf ng fun_upd_twist set_field_name set_field_commute)
    qed
  qed
qed

text \<open>The order in which the unordered map of variables is walked does not matter: two orders of
  the same variables give the same profiles.\<close>

theorem load_order_irrelevant:
  assumes "distinct (map fst vars)" and "mset vars = mset vars'"
  shows "load_from_config vars s = load_from_config vars' s"
proof -
  have "load_key x \<circ> load_key y = load_key y \<circ> load_key x" if "x \<in> set vars" "y \<in> set vars" for x y
  proof (cases "fst x = fst y")
    case True
    with assms(1) that have "x = y" by (metis eq_key_imp_eq_value prod.collapse)
    then show ?thesis by simp
  qed (auto simp: load_key_commute)
  from fold_multiset_equiv [OF this assms(2)] show ?thesis by (simp add: load_from_config_def)
qed

section \<open>Applying and resetting\<close>

text \<open>A profile is taken back by \<open>reset\<close>: applied on top of nothing and reset, it leaves the
  settings as they were, and nothing to undo.\<close>

theorem profile_reset_restores:
  assumes "\<not> un_active (ps_undo s)"
  shows "ps_config (reset_profile (apply_profile name s)) = ps_config s \<and>
    \<not> un_active (ps_undo (reset_profile (apply_profile name s)))"
  using assms by (simp add: reset_profile_def apply_profile_def split: option.split)

text \<open>Applying a profile while another is in force loses the settings of the user: \<open>apply\<close>
  overwrites the copy with values that are already overridden, and \<open>reset\<close> brings those back.\<close>

theorem profile_applied_twice_leaks:
  assumes "ps_profiles s a = Some p" and "ps_profiles s b = Some q" and "a \<noteq> []" and "b \<noteq> []"
  shows "ps_config (reset_profile (reset_profile (apply_profile b (apply_profile a s)))) =
    override_settings p (ps_config s)"
  using assms by (simp add: reset_profile_def apply_profile_def)

definition tv_profile :: profile where
  "tv_profile = profile_new\<lparr>pf_max_bitrate := 30000\<rparr>"

definition tv_state :: profiles_state where
  "tv_state = (profiles_new \<lparr>se_max_bitrate = 0, se_hevc_mode = 0, se_av1_mode = 0, se_latency_mode = []\<rparr>)
     \<lparr>ps_profiles := [[84] \<mapsto> tv_profile, [80] \<mapsto> profile_new]\<rparr>"

lemma profile_reset_restores_witness:
  "ps_config (apply_profile [84] tv_state) \<noteq> ps_config tv_state \<and>
   ps_config (reset_profile (apply_profile [84] tv_state)) = ps_config tv_state"
proof -
  have "\<not> un_active (ps_undo tv_state)" by (simp add: tv_state_def profiles_new_def)
  from profile_reset_restores [OF this, of "[84]"] show ?thesis
    by (simp add: tv_state_def tv_profile_def profile_new_def profiles_new_def apply_profile_def
        override_settings_def BITRATE_MAX_KBPS_def Let_def ascii_def)
qed

lemma profile_applied_twice_leaks_witness:
  "se_max_bitrate (ps_config (reset_profile (reset_profile (apply_profile [80] (apply_profile [84] tv_state))))) = 30000 \<and>
   se_max_bitrate (ps_config tv_state) = 0"
proof -
  have "ps_profiles tv_state [84] = Some tv_profile" "ps_profiles tv_state [80] = Some profile_new"
    by (simp_all add: tv_state_def)
  from profile_applied_twice_leaks [OF this] show ?thesis
    by (simp add: tv_profile_def profile_new_def override_settings_def BITRATE_MAX_KBPS_def Let_def
        tv_state_def profiles_new_def ascii_def)
qed


lemma load_order_irrelevant_witness:
  "load_from_config [(profile_prefix @ 84 # ascii ''_hevc_mode'', [50]), (profile_prefix @ 84 # ascii ''_av1_mode'', [49])] tv_state =
   load_from_config [(profile_prefix @ 84 # ascii ''_av1_mode'', [49]), (profile_prefix @ 84 # ascii ''_hevc_mode'', [50])] tv_state"
  by (rule load_order_irrelevant) (simp_all add: ascii_inj)

end
