(* ===== verification/Pairing.thy ===== *)
theory Pairing
  imports EventQueue NetUtil
begin

text \<open>
  Pairing and authorisation of clients in \<^verbatim>\<open>src/nvhttp.cpp\<close> and the certificate chain of
  \<^verbatim>\<open>src/crypto.cpp\<close>: the four phases of the handshake as they act on a pairing session, the \<open>/pair\<close>
  request and the PIN entry that drive them, the list of authorised devices with its file, and the
  check of a client's certificate. Hash, cipher, signatures and certificates are OpenSSL's: parameters;
  a certificate is the bytes of its DER form, and its text is what the client sent. Random bytes and
  identifiers are arguments of the steps that draw them.
\<close>

datatype PAIR_PHASE = PHASE_NONE | GETSERVERCERT | CLIENTCHALLENGE | SERVERCHALLENGERESP | CLIENTPAIRINGSECRET

record pair_session =
  ps_uniqueID :: bytes
  ps_cert :: bytes
  ps_name :: bytes
  ps_cipher_key :: "bytes option"
  ps_clienthash :: bytes
  ps_serversecret :: bytes
  ps_serverchallenge :: bytes
  ps_response :: "nat option"
  ps_salt :: bytes
  ps_last_phase :: PAIR_PHASE

definition pair_session_new :: pair_session where
  "pair_session_new = \<lparr>ps_uniqueID = [], ps_cert = [], ps_name = [], ps_cipher_key = None,
     ps_clienthash = [], ps_serversecret = [], ps_serverchallenge = [], ps_response = None,
     ps_salt = [], ps_last_phase = PHASE_NONE\<rparr>"

datatype verify_code = VerifyOk | VerifyTryNext | VerifyError

record pair_crypto =
  pc_hash :: "bytes \<Rightarrow> bytes"
  pc_ecb_decrypt :: "bytes \<Rightarrow> bytes \<Rightarrow> bytes"
  pc_ecb_encrypt :: "bytes \<Rightarrow> bytes \<Rightarrow> bytes"
  pc_x509 :: "bytes \<Rightarrow> bytes option"
  pc_pem :: "bytes \<Rightarrow> bytes"
  pc_signature :: "bytes \<Rightarrow> bytes"
  pc_sign256 :: "bytes \<Rightarrow> bytes"
  pc_verify256 :: "bytes \<Rightarrow> bytes \<Rightarrow> bytes \<Rightarrow> bool"
  pc_servercert :: bytes
  pc_server_signature :: bytes
  pc_verify_cert :: "bytes option \<Rightarrow> bytes \<Rightarrow> verify_code"

text \<open>What the reply tree says: \<open>root.paired\<close>, the status code and the data of the phase.\<close>

record pair_reply =
  pr_paired :: "nat option"
  pr_status :: nat
  pr_data :: bytes

section \<open>The phases\<close>

text \<open>A phase gives its reply and the session, unless it was removed.\<close>

type_synonym phase_outcome = "pair_reply \<times> pair_session option"

definition fail_pair :: phase_outcome where
  "fail_pair = (\<lparr>pr_paired = Some 0, pr_status = 400, pr_data = []\<rparr>, None)"

definition gen_aes_key :: "pair_crypto \<Rightarrow> bytes \<Rightarrow> bytes \<Rightarrow> bytes" where
  "gen_aes_key pc salt pin = take 16 (pc_hash pc (salt @ pin))"

definition getservercert :: "pair_crypto \<Rightarrow> bytes \<Rightarrow> pair_session \<Rightarrow> phase_outcome" where
  "getservercert pc pin sess =
    (if ps_last_phase sess \<noteq> PHASE_NONE then fail_pair
     else
       let sess = sess\<lparr>ps_last_phase := GETSERVERCERT\<rparr> in
       if length (ps_salt sess) < 32 then fail_pair
       else case from_hex 16 (take 32 (ps_salt sess)) True of
         None \<Rightarrow> fail_pair
       | Some salt \<Rightarrow>
           (\<lparr>pr_paired = Some 1, pr_status = 200, pr_data = hex_vec (pc_servercert pc) True\<rparr>,
            Some (sess\<lparr>ps_cipher_key := Some (gen_aes_key pc salt pin)\<rparr>)))"

definition clientchallenge ::
    "pair_crypto \<Rightarrow> bytes \<Rightarrow> bytes \<Rightarrow> bytes \<Rightarrow> pair_session \<Rightarrow> phase_outcome" where
  "clientchallenge pc challenge serversecret serverchallenge sess =
    (if ps_last_phase sess \<noteq> GETSERVERCERT then fail_pair
     else
       let sess = sess\<lparr>ps_last_phase := CLIENTCHALLENGE\<rparr> in
       case ps_cipher_key sess of
         None \<Rightarrow> fail_pair
       | Some key \<Rightarrow>
           let decrypted = pc_ecb_decrypt pc key challenge @ pc_server_signature pc @ serversecret;
               plaintext = pc_hash pc decrypted @ serverchallenge;
               encrypted = pc_ecb_encrypt pc key plaintext in
           (\<lparr>pr_paired = Some 1, pr_status = 200, pr_data = hex_vec encrypted True\<rparr>,
            Some (sess\<lparr>ps_serversecret := serversecret, ps_serverchallenge := serverchallenge\<rparr>)))"

definition serverchallengeresp :: "pair_crypto \<Rightarrow> bytes \<Rightarrow> pair_session \<Rightarrow> phase_outcome" where
  "serverchallengeresp pc encrypted_response sess =
    (if ps_last_phase sess \<noteq> CLIENTCHALLENGE then fail_pair
     else
       let sess = sess\<lparr>ps_last_phase := SERVERCHALLENGERESP\<rparr> in
       case ps_cipher_key sess of
         None \<Rightarrow> fail_pair
       | Some key \<Rightarrow>
           if ps_serversecret sess = [] then fail_pair
           else
             (\<lparr>pr_paired = Some 1, pr_status = 200,
               pr_data = hex_vec (ps_serversecret sess @ pc_sign256 pc (ps_serversecret sess)) True\<rparr>,
              Some (sess\<lparr>ps_clienthash := pc_ecb_decrypt pc key encrypted_response\<rparr>)))"

text \<open>The last phase also gives the certificate to authorise; the session is always removed.\<close>

definition clientpairingsecret ::
    "pair_crypto \<Rightarrow> bytes \<Rightarrow> pair_session \<Rightarrow> pair_reply \<times> (bytes \<times> bytes) option" where
  "clientpairingsecret pc client_pairing_secret sess =
    (if ps_last_phase sess \<noteq> SERVERCHALLENGERESP then (fst fail_pair, None)
     else if length client_pairing_secret \<le> 16 then (fst fail_pair, None)
     else
       let secret = take 16 client_pairing_secret; sign = drop 16 client_pairing_secret in
       case pc_x509 pc (ps_cert sess) of
         None \<Rightarrow> (fst fail_pair, None)
       | Some x509 \<Rightarrow>
           let hash = pc_hash pc (ps_serverchallenge sess @ pc_signature pc x509 @ secret);
               same_hash = (length hash = length (ps_clienthash sess) \<and> hash = ps_clienthash sess);
               verify = pc_verify256 pc x509 secret sign in
           if same_hash \<and> verify
           then (\<lparr>pr_paired = Some 1, pr_status = 200, pr_data = []\<rparr>, Some (ps_cert sess, x509))
           else (\<lparr>pr_paired = Some 0, pr_status = 200, pr_data = []\<rparr>, None))"

section \<open>Authorised devices\<close>

record named_cert =
  nc_name :: bytes
  nc_uuid :: bytes
  nc_cert :: bytes
  nc_enabled :: bool

text \<open>
  The state of the server. \<open>map_id_sess\<close> is an unordered map: its order here stands for the order
  the hash table happens to have. \<open>pw_file\<close> is the state file's list of devices, \<open>pw_replies\<close> what
  was written to held responses, \<open>pw_pins\<close> the PINs that were tried.
\<close>

record pair_world =
  pw_map_id_sess :: "(bytes \<times> pair_session) list"
  pw_named_devices :: "named_cert list"
  pw_add_cert :: "bytes queue_t"
  pw_cert_chain :: "bytes option list"
  pw_last_verified_client_cert :: bytes
  pw_file :: "named_cert list option"
  pw_replies :: "(nat \<times> pair_reply) list"
  pw_pins :: "bytes list"

definition pair_world_new :: pair_world where
  "pair_world_new = \<lparr>pw_map_id_sess = [], pw_named_devices = [], pw_add_cert = queue_new 30 clear_all,
     pw_cert_chain = [], pw_last_verified_client_cert = [], pw_file = None, pw_replies = [], pw_pins = []\<rparr>"

text \<open>\<open>save_state\<close>; \<open>ok\<close> is whether the file can be read and written.\<close>

definition save_state :: "bool \<Rightarrow> pair_world \<Rightarrow> pair_world" where
  "save_state ok w = (if ok then w\<lparr>pw_file := Some (pw_named_devices w)\<rparr> else w)"

text \<open>\<open>load_state\<close> (without the import of the old format); a certificate that does not parse is
  the null pointer, added to the chain as an empty store.\<close>

definition load_state :: "pair_crypto \<Rightarrow> bool \<Rightarrow> pair_world \<Rightarrow> pair_world" where
  "load_state pc ok w =
    (if \<not> ok then w
     else case pw_file w of
       None \<Rightarrow> w
     | Some devices \<Rightarrow>
         w\<lparr>pw_cert_chain := map (\<lambda>d. pc_x509 pc (nc_cert d)) devices,
           pw_named_devices := devices\<rparr>)"

definition add_authorized_client ::
    "bool \<Rightarrow> bool \<Rightarrow> bytes \<Rightarrow> bytes \<Rightarrow> bytes \<Rightarrow> pair_world \<Rightarrow> pair_world" where
  "add_authorized_client fresh_state ok uuid name cert w =
    (let w = w\<lparr>pw_named_devices := pw_named_devices w @
                 [\<lparr>nc_name = name, nc_uuid = uuid, nc_cert = cert, nc_enabled = True\<rparr>]\<rparr> in
     if fresh_state then w else save_state ok w)"

definition erase_all_clients :: "bool \<Rightarrow> pair_world \<Rightarrow> pair_world" where
  "erase_all_clients ok w = save_state ok (w\<lparr>pw_named_devices := [], pw_cert_chain := []\<rparr>)"

definition unpair_client :: "pair_crypto \<Rightarrow> bool \<Rightarrow> bytes \<Rightarrow> pair_world \<Rightarrow> bool \<times> pair_world" where
  "unpair_client pc ok uuid w =
    (list_ex (\<lambda>d. nc_uuid d = uuid) (pw_named_devices w),
     load_state pc ok (save_state ok
       (w\<lparr>pw_named_devices := filter (\<lambda>d. nc_uuid d \<noteq> uuid) (pw_named_devices w)\<rparr>)))"

definition set_client_enabled :: "bool \<Rightarrow> bytes \<Rightarrow> bool \<Rightarrow> pair_world \<Rightarrow> bool \<times> pair_world" where
  "set_client_enabled ok uuid enabled w =
    (case find_index (\<lambda>d. nc_uuid d = uuid) (pw_named_devices w) of
       None \<Rightarrow> (False, w)
     | Some k \<Rightarrow>
         (True, save_state ok (w\<lparr>pw_named_devices :=
            (pw_named_devices w)[k := (pw_named_devices w ! k)\<lparr>nc_enabled := enabled\<rparr>]\<rparr>)))"

definition get_cert_by_uuid :: "bytes \<Rightarrow> pair_world \<Rightarrow> bytes" where
  "get_cert_by_uuid uuid w =
    (case find (\<lambda>d. nc_uuid d = uuid) (pw_named_devices w) of None \<Rightarrow> [] | Some d \<Rightarrow> nc_cert d)"

definition is_client_enabled :: "bytes \<Rightarrow> pair_world \<Rightarrow> bool" where
  "is_client_enabled cert_pem w =
    (case find (\<lambda>d. nc_cert d = cert_pem) (pw_named_devices w) of None \<Rightarrow> True | Some d \<Rightarrow> nc_enabled d)"

text \<open>\<open>cert_chain_t::verify\<close>: the stores are tried in turn; an error other than the two expected ones
  ends the search. An empty chain verifies nothing.\<close>

fun cert_chain_verify :: "pair_crypto \<Rightarrow> bytes option list \<Rightarrow> bytes \<Rightarrow> bool" where
  "cert_chain_verify pc [] cert = False"
| "cert_chain_verify pc (store # stores) cert =
    (case pc_verify_cert pc store cert of
       VerifyOk \<Rightarrow> True
     | VerifyTryNext \<Rightarrow> cert_chain_verify pc stores cert
     | VerifyError \<Rightarrow> False)"

text \<open>\<open>https_server.verify\<close>, for the certificate of the connection, if it has one.\<close>

definition add_pending_certs :: "pair_world \<Rightarrow> pair_world" where
  "add_pending_certs w =
    (if queue_peek (pw_add_cert w)
     then w\<lparr>pw_cert_chain := pw_cert_chain w @ map Some (q_queue (pw_add_cert w)),
            pw_add_cert := (pw_add_cert w)\<lparr>q_queue := []\<rparr>\<rparr>
     else w)"

definition verify_client :: "pair_crypto \<Rightarrow> bytes option \<Rightarrow> pair_world \<Rightarrow> bool \<times> pair_world" where
  "verify_client pc peer w =
    (case peer of
       None \<Rightarrow> (False, w)
     | Some x509 \<Rightarrow>
         let w = add_pending_certs w in
         if \<not> cert_chain_verify pc (pw_cert_chain w) x509 then (False, w)
         else if \<not> is_client_enabled (pc_pem pc x509) w then (False, w)
         else (True, w\<lparr>pw_last_verified_client_cert := pc_pem pc x509\<rparr>))"

section \<open>The requests\<close>

text \<open>The arguments of a request are a lookup (the first value of a name); the random bytes and the
  identifier the step may draw come with it.\<close>

record 'a pair_config =
  pcfg_crypto :: pair_crypto
  pcfg_ip :: "'a ip_lib"
  pcfg_trusted_subnet_auto_pairing :: bool
  pcfg_trusted_subnets :: bytes
  pcfg_pin_stdin :: bool
  pcfg_fresh_state :: bool

record pair_request =
  rq_args :: "bytes \<Rightarrow> bytes option"
  rq_response :: nat
  rq_client_ip :: bytes
  rq_stdin_pin :: bytes
  rq_serversecret :: bytes
  rq_serverchallenge :: bytes
  rq_uuid :: bytes
  rq_save_ok :: bool

datatype pair_result = PairReply pair_reply | PairHeld | PairThrows

definition sess_find :: "bytes \<Rightarrow> pair_world \<Rightarrow> pair_session option" where
  "sess_find k w = map_of (pw_map_id_sess w) k"

definition sess_erase :: "bytes \<Rightarrow> pair_world \<Rightarrow> pair_world" where
  "sess_erase k w = w\<lparr>pw_map_id_sess := filter (\<lambda>e. fst e \<noteq> k) (pw_map_id_sess w)\<rparr>"

definition sess_put :: "bytes \<Rightarrow> pair_session \<Rightarrow> pair_world \<Rightarrow> pair_world" where
  "sess_put k s w = (sess_erase k w)\<lparr>pw_map_id_sess := pw_map_id_sess (sess_erase k w) @ [(k, s)]\<rparr>"

definition apply_phase :: "bytes \<Rightarrow> phase_outcome \<Rightarrow> pair_world \<Rightarrow> pair_result \<times> pair_world" where
  "apply_phase k r w =
    (PairReply (fst r), (case snd r of None \<Rightarrow> sess_erase k w | Some s \<Rightarrow> sess_put k s w))"

definition reply_error :: "nat \<Rightarrow> pair_result" where
  "reply_error status = PairReply \<lparr>pr_paired = None, pr_status = status, pr_data = []\<rparr>"

text \<open>A new session, or the one of an earlier attempt with its pairing state reset.\<close>

definition open_pair_session :: "bytes \<Rightarrow> bytes \<Rightarrow> pair_world \<Rightarrow> pair_session" where
  "open_pair_session uniqID cert w =
    (case sess_find uniqID w of
       None \<Rightarrow> pair_session_new\<lparr>ps_uniqueID := uniqID, ps_cert := cert\<rparr>
     | Some s \<Rightarrow> s\<lparr>ps_last_phase := PHASE_NONE, ps_cipher_key := None, ps_clienthash := [],
         ps_serversecret := [], ps_serverchallenge := [], ps_response := None, ps_salt := [],
         ps_name := []\<rparr>)"

text \<open>\<open>phrase=getservercert\<close>. The salt is read after the session is in the map.\<close>

definition pair_getservercert ::
    "'a pair_config \<Rightarrow> pair_request \<Rightarrow> bytes \<Rightarrow> pair_world \<Rightarrow> pair_result \<times> pair_world" where
  "pair_getservercert cfg rq uniqID w =
    (case rq_args rq (ascii ''clientcert'') of
       None \<Rightarrow> (PairThrows, w)
     | Some cert_hex \<Rightarrow>
         let sess = open_pair_session uniqID (from_hex_vec cert_hex True) w; w = sess_put uniqID sess w in
         case rq_args rq (ascii ''salt'') of
           None \<Rightarrow> (PairThrows, w)
         | Some salt \<Rightarrow>
             let sess = sess\<lparr>ps_salt := salt\<rparr>; w = sess_put uniqID sess w in
             if pcfg_trusted_subnet_auto_pairing cfg \<and>
                is_trusted_subnet (pcfg_ip cfg) (rq_client_ip rq) (pcfg_trusted_subnets cfg)
             then apply_phase uniqID
                    (getservercert (pcfg_crypto cfg) (ascii ''0000'') (sess\<lparr>ps_name := ascii ''auto-paired''\<rparr>))
                    (w\<lparr>pw_pins := pw_pins w @ [ascii ''0000'']\<rparr>)
             else if pcfg_pin_stdin cfg
             then apply_phase uniqID (getservercert (pcfg_crypto cfg) (rq_stdin_pin rq) sess)
                    (w\<lparr>pw_pins := pw_pins w @ [rq_stdin_pin rq]\<rparr>)
             else (PairHeld, sess_put uniqID (sess\<lparr>ps_response := Some (rq_response rq)\<rparr>) w))"

definition pair_secret ::
    "'a pair_config \<Rightarrow> pair_request \<Rightarrow> bytes \<Rightarrow> bytes \<Rightarrow> pair_session \<Rightarrow> pair_world \<Rightarrow> pair_result \<times> pair_world" where
  "pair_secret cfg rq uniqID secret sess w =
    (let (reply, authorized) = clientpairingsecret (pcfg_crypto cfg) secret sess;
         w = (case authorized of
                None \<Rightarrow> w
              | Some (cert, x509) \<Rightarrow>
                  add_authorized_client (pcfg_fresh_state cfg) (rq_save_ok rq) (rq_uuid rq) (ps_name sess) cert
                    (w\<lparr>pw_add_cert := queue_raise x509 (pw_add_cert w)\<rparr>)) in
     (PairReply reply, sess_erase uniqID w))"

definition pair_handler ::
    "'a pair_config \<Rightarrow> pair_request \<Rightarrow> pair_world \<Rightarrow> pair_result \<times> pair_world" where
  "pair_handler cfg rq w =
    (case rq_args rq (ascii ''uniqueid'') of
       None \<Rightarrow> (reply_error 400, w)
     | Some uniqID \<Rightarrow>
         if rq_args rq (ascii ''phrase'') = Some (ascii ''getservercert'') then pair_getservercert cfg rq uniqID w
         else if rq_args rq (ascii ''phrase'') = Some (ascii ''pairchallenge'')
         then (PairReply \<lparr>pr_paired = Some 1, pr_status = 200, pr_data = []\<rparr>, w)
         else case sess_find uniqID w of
           None \<Rightarrow> (reply_error 400, w)
         | Some sess \<Rightarrow>
             (case rq_args rq (ascii ''clientchallenge'') of
                Some h \<Rightarrow> apply_phase uniqID (clientchallenge (pcfg_crypto cfg) (from_hex_vec h True)
                            (rq_serversecret rq) (rq_serverchallenge rq) sess) w
              | None \<Rightarrow>
             (case rq_args rq (ascii ''serverchallengeresp'') of
                Some h \<Rightarrow> apply_phase uniqID
                            (serverchallengeresp (pcfg_crypto cfg) (from_hex_vec h True) sess) w
              | None \<Rightarrow>
             (case rq_args rq (ascii ''clientpairingsecret'') of
                Some h \<Rightarrow> pair_secret cfg rq uniqID (from_hex_vec h True) sess w
              | None \<Rightarrow> (reply_error 404, w)))))"

text \<open>
  The PIN the user enters: \<open>pick\<close> is the session the hash table happens to have first. It is taken out
  of the map while the phase runs.
\<close>

definition pin_entry ::
    "'a pair_config \<Rightarrow> nat \<Rightarrow> bytes \<Rightarrow> bytes \<Rightarrow> pair_world \<Rightarrow> bool \<times> pair_world" where
  "pin_entry cfg pick pin name w =
    (if pw_map_id_sess w = [] then (False, w)
     else if length pin \<noteq> 4 then (False, w)
     else if \<not> list_all (\<lambda>c. 48 \<le> c \<and> c \<le> 57) pin then (False, w)
     else
       let (k, sess) = pw_map_id_sess w ! (pick mod length (pw_map_id_sess w));
           w = sess_erase k (w\<lparr>pw_pins := pw_pins w @ [pin]\<rparr>);
           (reply, result) = getservercert (pcfg_crypto cfg) pin sess in
       case result of
         None \<Rightarrow> (False, w)
       | Some sess \<Rightarrow>
           let sess = sess\<lparr>ps_name := name\<rparr> in
           case ps_response sess of
             None \<Rightarrow> (False, sess_put k sess w)
           | Some r \<Rightarrow>
               (True, (sess_put k (sess\<lparr>ps_response := None\<rparr>) w)
                  \<lparr>pw_replies := pw_replies w @ [(r, reply)]\<rparr>))"

text \<open>What can happen to the server.\<close>

datatype pair_op =
    OpPair pair_request
  | OpPin nat bytes bytes
  | OpVerify "bytes option"
  | OpUnpair bool bytes
  | OpEraseAll bool
  | OpSetEnabled bool bytes bool

definition pair_step :: "'a pair_config \<Rightarrow> pair_op \<Rightarrow> pair_world \<Rightarrow> pair_world" where
  "pair_step cfg op w =
    (case op of
       OpPair rq \<Rightarrow> snd (pair_handler cfg rq w)
     | OpPin pick pin name \<Rightarrow> snd (pin_entry cfg pick pin name w)
     | OpVerify peer \<Rightarrow> snd (verify_client (pcfg_crypto cfg) peer w)
     | OpUnpair ok uuid \<Rightarrow> snd (unpair_client (pcfg_crypto cfg) ok uuid w)
     | OpEraseAll ok \<Rightarrow> erase_all_clients ok w
     | OpSetEnabled ok uuid e \<Rightarrow> snd (set_client_enabled ok uuid e w))"

definition pair_run :: "'a pair_config \<Rightarrow> pair_op list \<Rightarrow> pair_world" where
  "pair_run cfg ops = fold (pair_step cfg) ops pair_world_new"

section \<open>Who is authorised\<close>

text \<open>
  A certificate is proven by a PIN that was tried and a challenge the server drew: under the key made
  of a salt and the PIN, something decrypts to the hash of the challenge, the certificate's signature
  and a secret, and the certificate's key signed that secret.
\<close>

definition proven :: "pair_crypto \<Rightarrow> bytes set \<Rightarrow> bytes set \<Rightarrow> bytes \<Rightarrow> bool" where
  "proven pc pins chals x \<longleftrightarrow> (\<exists>salt r secret sign. \<exists>pin \<in> pins. \<exists>chal \<in> chals.
     pc_hash pc (chal @ pc_signature pc x @ secret) = pc_ecb_decrypt pc (gen_aes_key pc salt pin) r \<and>
     pc_verify256 pc x secret sign)"

definition key_ok :: "pair_crypto \<Rightarrow> bytes set \<Rightarrow> bytes \<Rightarrow> bool" where
  "key_ok pc pins key \<longleftrightarrow> (\<exists>salt. \<exists>pin \<in> pins. key = gen_aes_key pc salt pin)"

definition sess_ok :: "pair_crypto \<Rightarrow> bytes set \<Rightarrow> bytes set \<Rightarrow> pair_session \<Rightarrow> bool" where
  "sess_ok pc pins chals s \<longleftrightarrow>
     (\<forall>key. ps_cipher_key s = Some key \<longrightarrow> key_ok pc pins key) \<and>
     (ps_last_phase s \<in> {CLIENTCHALLENGE, SERVERCHALLENGERESP} \<longrightarrow> ps_serverchallenge s \<in> chals) \<and>
     (ps_last_phase s = SERVERCHALLENGERESP \<longrightarrow>
       (\<exists>key r. ps_cipher_key s = Some key \<and> ps_clienthash s = pc_ecb_decrypt pc key r))"

definition cert_ok :: "pair_crypto \<Rightarrow> bytes set \<Rightarrow> bytes set \<Rightarrow> bytes \<Rightarrow> bool" where
  "cert_ok pc pins chals cert \<longleftrightarrow> (\<exists>x. pc_x509 pc cert = Some x \<and> proven pc pins chals x)"

definition store_ok :: "pair_crypto \<Rightarrow> bytes set \<Rightarrow> bytes set \<Rightarrow> bytes option \<Rightarrow> bool" where
  "store_ok pc pins chals c \<longleftrightarrow> (\<exists>x. c = Some x \<and> proven pc pins chals x)"

definition pair_inv :: "pair_crypto \<Rightarrow> bytes set \<Rightarrow> pair_world \<Rightarrow> bool" where
  "pair_inv pc chals w \<longleftrightarrow>
     (\<forall>s \<in> snd ` set (pw_map_id_sess w). sess_ok pc (set (pw_pins w)) chals s) \<and>
     (\<forall>d \<in> set (pw_named_devices w). cert_ok pc (set (pw_pins w)) chals (nc_cert d)) \<and>
     (\<forall>d \<in> set (case pw_file w of None \<Rightarrow> [] | Some ds \<Rightarrow> ds). cert_ok pc (set (pw_pins w)) chals (nc_cert d)) \<and>
     (\<forall>c \<in> set (pw_cert_chain w). store_ok pc (set (pw_pins w)) chals c) \<and>
     (\<forall>x \<in> set (q_queue (pw_add_cert w)). proven pc (set (pw_pins w)) chals x)"

lemma proven_mono: "proven pc pins chals x \<Longrightarrow> pins \<subseteq> pins' \<Longrightarrow> chals \<subseteq> chals' \<Longrightarrow> proven pc pins' chals' x"
  unfolding proven_def by blast

lemma sess_ok_mono:
  "sess_ok pc pins chals s \<Longrightarrow> pins \<subseteq> pins' \<Longrightarrow> chals \<subseteq> chals' \<Longrightarrow> sess_ok pc pins' chals' s"
  unfolding sess_ok_def key_ok_def by blast

lemma cert_ok_mono:
  "cert_ok pc pins chals c \<Longrightarrow> pins \<subseteq> pins' \<Longrightarrow> chals \<subseteq> chals' \<Longrightarrow> cert_ok pc pins' chals' c"
  unfolding cert_ok_def using proven_mono by blast

lemma store_ok_mono:
  "store_ok pc pins chals c \<Longrightarrow> pins \<subseteq> pins' \<Longrightarrow> chals \<subseteq> chals' \<Longrightarrow> store_ok pc pins' chals' c"
  unfolding store_ok_def using proven_mono by blast

lemma pair_inv_chals: "pair_inv pc chals w \<Longrightarrow> chals \<subseteq> chals' \<Longrightarrow> pair_inv pc chals' w"
  unfolding pair_inv_def by (auto intro: sess_ok_mono cert_ok_mono store_ok_mono proven_mono)

lemma pair_inv_pin: "pair_inv pc chals w \<Longrightarrow> pair_inv pc chals (w\<lparr>pw_pins := pw_pins w @ [pin]\<rparr>)"
  unfolding pair_inv_def by (auto intro: sess_ok_mono cert_ok_mono store_ok_mono proven_mono)

lemma sess_erase_inv: "pair_inv pc chals w \<Longrightarrow> pair_inv pc chals (sess_erase k w)"
  unfolding pair_inv_def sess_erase_def by auto

lemma sess_put_inv:
  "pair_inv pc chals w \<Longrightarrow> sess_ok pc (set (pw_pins w)) chals s \<Longrightarrow> pair_inv pc chals (sess_put k s w)"
  unfolding pair_inv_def sess_put_def sess_erase_def by auto

lemma sess_erase_simps [simp]: "pw_pins (sess_erase k w) = pw_pins w" "pw_pins (sess_put k s w) = pw_pins w"
  by (simp_all add: sess_erase_def sess_put_def)

lemma sess_find_ok: "pair_inv pc chals w \<Longrightarrow> sess_find k w = Some s \<Longrightarrow> sess_ok pc (set (pw_pins w)) chals s"
  unfolding pair_inv_def sess_find_def by (auto dest!: map_of_SomeD)

lemma apply_phase_inv:
  assumes "pair_inv pc chals w" and "\<forall>s. snd r = Some s \<longrightarrow> sess_ok pc (set (pw_pins w)) chals s"
  shows "pair_inv pc chals (snd (apply_phase k r w))"
  using assms by (auto simp: apply_phase_def intro: sess_erase_inv sess_put_inv split: option.splits)

lemma getservercert_ok:
  "snd (getservercert pc pin s) = Some t \<Longrightarrow> pin \<in> pins \<Longrightarrow> sess_ok pc pins chals t"
  by (auto simp: getservercert_def fail_pair_def sess_ok_def key_ok_def Let_def split: if_splits option.splits)
    blast

lemma clientchallenge_ok:
  "snd (clientchallenge pc c sec chal s) = Some t \<Longrightarrow> sess_ok pc pins chals s \<Longrightarrow> chal \<in> chals \<Longrightarrow>
   sess_ok pc pins chals t"
  by (auto simp: clientchallenge_def fail_pair_def sess_ok_def Let_def split: if_splits option.splits)

lemma serverchallengeresp_ok:
  "snd (serverchallengeresp pc e s) = Some t \<Longrightarrow> sess_ok pc pins chals s \<Longrightarrow> sess_ok pc pins chals t"
  by (auto simp: serverchallengeresp_def fail_pair_def sess_ok_def Let_def split: if_splits option.splits)

lemma clientpairingsecret_ok:
  assumes "snd (clientpairingsecret pc c s) = Some (cert, x)" and "sess_ok pc pins chals s"
  shows "pc_x509 pc cert = Some x \<and> proven pc pins chals x"
proof -
  from assms(1) have ph: "ps_last_phase s = SERVERCHALLENGERESP" "cert = ps_cert s" "pc_x509 pc cert = Some x"
    and h: "pc_hash pc (ps_serverchallenge s @ pc_signature pc x @ take 16 c) = ps_clienthash s"
    and v: "pc_verify256 pc x (take 16 c) (drop 16 c)"
    by (auto simp: clientpairingsecret_def fail_pair_def Let_def split: if_splits option.splits)
  from assms(2) ph obtain salt pin r where "pin \<in> pins" "ps_serverchallenge s \<in> chals"
    "ps_clienthash s = pc_ecb_decrypt pc (gen_aes_key pc salt pin) r"
    unfolding sess_ok_def key_ok_def by blast
  then show ?thesis using ph h v unfolding proven_def by metis
qed

lemma save_state_inv: "pair_inv pc chals w \<Longrightarrow> pair_inv pc chals (save_state ok w)"
  unfolding pair_inv_def save_state_def by auto

lemma authorize_inv:
  assumes "pair_inv pc chals w" and "pc_x509 pc cert = Some x" and "proven pc (set (pw_pins w)) chals x"
  shows "pair_inv pc chals (add_authorized_client fs ok uuid name cert
    (w\<lparr>pw_add_cert := queue_raise x (pw_add_cert w)\<rparr>))"
proof -
  have "set (tl xs) \<subseteq> set xs" for xs :: "bytes list" by (cases xs) auto
  then have "set (q_queue (queue_raise x q)) \<subseteq> insert x (set (q_queue q))" for q
    by (auto simp: queue_raise_def queue_overflow_def split: queue_overflow_e.splits)
  then have "pair_inv pc chals (w\<lparr>pw_add_cert := queue_raise x (pw_add_cert w),
      pw_named_devices := pw_named_devices w @
        [\<lparr>nc_name = name, nc_uuid = uuid, nc_cert = cert, nc_enabled = True\<rparr>]\<rparr>)"
    using assms unfolding pair_inv_def cert_ok_def by fastforce
  then show ?thesis
    using save_state_inv by (auto simp: add_authorized_client_def Let_def)
qed

lemma authorize_pins [simp]: "pw_pins (add_authorized_client fs ok uuid name cert w) = pw_pins w"
  by (simp add: add_authorized_client_def save_state_def Let_def)

lemma open_pair_session_ok: "pair_inv pc chals w \<Longrightarrow> sess_ok pc pins chals (open_pair_session k c w)"
  by (simp add: open_pair_session_def sess_ok_def pair_session_new_def split: option.splits)

lemma sess_ok_other [simp]:
  "sess_ok pc pins chals (s\<lparr>ps_salt := a\<rparr>) = sess_ok pc pins chals s"
  "sess_ok pc pins chals (s\<lparr>ps_name := n\<rparr>) = sess_ok pc pins chals s"
  "sess_ok pc pins chals (s\<lparr>ps_response := rsp\<rparr>) = sess_ok pc pins chals s"
  by (simp_all add: sess_ok_def)

lemma pair_getservercert_inv:
  assumes inv: "pair_inv (pcfg_crypto cfg) chals w"
  shows "pair_inv (pcfg_crypto cfg) chals (snd (pair_getservercert cfg rq k w))"
proof -
  let ?pc = "pcfg_crypto cfg"
  have opened: "pair_inv ?pc chals (sess_put k (open_pair_session k c w) w)" for c
    by (rule sess_put_inv [OF inv open_pair_session_ok [OF inv]])
  have salted: "pair_inv ?pc chals (sess_put k ((open_pair_session k c w)\<lparr>ps_salt := a\<rparr>)
      (sess_put k (open_pair_session k c w) w))" for c a
    by (rule sess_put_inv [OF opened]) (simp add: open_pair_session_ok [OF inv])
  have held: "pair_inv ?pc chals (sess_put k ((open_pair_session k c w)\<lparr>ps_salt := a, ps_response := rsp\<rparr>)
      (sess_put k ((open_pair_session k c w)\<lparr>ps_salt := a\<rparr>) (sess_put k (open_pair_session k c w) w)))" for c a rsp
    by (rule sess_put_inv [OF salted]) (simp add: open_pair_session_ok [OF inv])
  have phase: "pair_inv ?pc chals (snd (apply_phase k (getservercert ?pc pin s) (v\<lparr>pw_pins := ps @ [pin]\<rparr>)))"
    if "pair_inv ?pc chals v" "ps = pw_pins v" for pin s v ps
    unfolding that(2) by (rule apply_phase_inv [OF pair_inv_pin [OF that(1)]]) (auto intro: getservercert_ok)
  show ?thesis
    unfolding pair_getservercert_def Let_def
    by (auto intro: inv opened salted held phase split: option.split)
qed

lemma pair_secret_inv:
  assumes inv: "pair_inv (pcfg_crypto cfg) chals w" and ok: "sess_ok (pcfg_crypto cfg) (set (pw_pins w)) chals sess"
  shows "pair_inv (pcfg_crypto cfg) chals (snd (pair_secret cfg rq k secret sess w))"
proof (cases "snd (clientpairingsecret (pcfg_crypto cfg) secret sess)")
  case None
  then show ?thesis using inv by (simp add: pair_secret_def split_beta Let_def sess_erase_inv)
next
  case (Some a)
  obtain cert x where a: "a = (cert, x)" by fastforce
  have "pc_x509 (pcfg_crypto cfg) cert = Some x \<and> proven (pcfg_crypto cfg) (set (pw_pins w)) chals x"
    using clientpairingsecret_ok [OF _ ok] Some a by simp
  then show ?thesis
    using Some a authorize_inv [OF inv] by (simp add: pair_secret_def split_beta Let_def sess_erase_inv)
qed

lemma pair_handler_inv:
  assumes inv: "pair_inv (pcfg_crypto cfg) chals w" and "rq_serverchallenge rq \<in> chals"
  shows "pair_inv (pcfg_crypto cfg) chals (snd (pair_handler cfg rq w))"
proof -
  let ?pc = "pcfg_crypto cfg"
  have cc: "pair_inv ?pc chals (snd (apply_phase k (clientchallenge ?pc h sec (rq_serverchallenge rq) s) w))"
    if "sess_find k w = Some s" for k h sec s
    by (rule apply_phase_inv [OF inv])
      (use clientchallenge_ok [OF _ sess_find_ok [OF inv that] assms(2)] in blast)
  have sc: "pair_inv ?pc chals (snd (apply_phase k (serverchallengeresp ?pc h s) w))"
    if "sess_find k w = Some s" for k h s
    by (rule apply_phase_inv [OF inv])
      (use serverchallengeresp_ok [OF _ sess_find_ok [OF inv that]] in blast)
  have sec: "pair_inv ?pc chals (snd (pair_secret cfg rq k h s w))" if "sess_find k w = Some s" for k h s
    by (rule pair_secret_inv [OF inv sess_find_ok [OF inv that]])
  show ?thesis
    unfolding pair_handler_def
    by (auto intro: inv cc sc sec pair_getservercert_inv [OF inv] split: option.split)
qed

lemma pin_entry_inv:
  assumes inv: "pair_inv (pcfg_crypto cfg) chals w"
  shows "pair_inv (pcfg_crypto cfg) chals (snd (pin_entry cfg pick pin name w))"
proof -
  let ?pc = "pcfg_crypto cfg"
  obtain k sess where ks: "pw_map_id_sess w ! (pick mod length (pw_map_id_sess w)) = (k, sess)" by fastforce
  let ?w = "sess_erase k (w\<lparr>pw_pins := pw_pins w @ [pin]\<rparr>)"
  have w: "pair_inv ?pc chals ?w" by (rule sess_erase_inv [OF pair_inv_pin [OF inv]])
  have ok: "sess_ok ?pc (set (pw_pins ?w)) chals t" if "snd (getservercert ?pc pin sess) = Some t" for t
    by (rule getservercert_ok [OF that]) simp
  have put: "pair_inv ?pc chals (sess_put k (t\<lparr>ps_name := n\<rparr>) ?w)"
    "pair_inv ?pc chals (sess_put k (t\<lparr>ps_name := n, ps_response := None\<rparr>) ?w)"
    if "snd (getservercert ?pc pin sess) = Some t" for t n
    by (rule sess_put_inv [OF w]; simp add: ok [OF that, simplified])+
  have rep: "pair_inv ?pc chals (v\<lparr>pw_replies := rs\<rparr>) = pair_inv ?pc chals v" for v rs
    by (simp add: pair_inv_def)
  show ?thesis
    unfolding pin_entry_def ks
    by (auto simp: split_beta Let_def rep intro: inv w put split: option.split)
qed

lemma add_pending_inv: "pair_inv pc chals w \<Longrightarrow> pair_inv pc chals (add_pending_certs w)"
  by (auto simp: add_pending_certs_def pair_inv_def store_ok_def)

lemma verify_client_inv:
  assumes "pair_inv pc chals w"
  shows "pair_inv pc chals (snd (verify_client pc peer w))"
proof -
  have "pair_inv pc chals (add_pending_certs w)" using assms by (rule add_pending_inv)
  then show ?thesis
    using assms by (auto simp: verify_client_def Let_def pair_inv_def split: option.split)
qed

lemma load_state_inv: "pair_inv pc chals w \<Longrightarrow> pair_inv pc chals (load_state pc ok w)"
  by (auto simp: load_state_def pair_inv_def cert_ok_def store_ok_def split: option.split)

lemma unpair_inv: "pair_inv pc chals w \<Longrightarrow> pair_inv pc chals (snd (unpair_client pc ok uuid w))"
  unfolding unpair_client_def
  by (auto intro!: load_state_inv save_state_inv) (auto simp: pair_inv_def)

lemma erase_all_inv: "pair_inv pc chals w \<Longrightarrow> pair_inv pc chals (erase_all_clients ok w)"
  unfolding erase_all_clients_def by (rule save_state_inv) (auto simp: pair_inv_def)

lemma set_enabled_inv:
  assumes "pair_inv pc chals w"
  shows "pair_inv pc chals (snd (set_client_enabled ok uuid e w))"
proof (cases "find_index (\<lambda>d. nc_uuid d = uuid) (pw_named_devices w)")
  case None
  then show ?thesis using assms by (simp add: set_client_enabled_def)
next
  case (Some k)
  let ?d = "(pw_named_devices w ! k)\<lparr>nc_enabled := e\<rparr>"
  have "k < length (pw_named_devices w)" using Some by (simp add: find_index_Some)
  then have "cert_ok pc (set (pw_pins w)) chals (nc_cert ?d)"
    using assms by (simp add: pair_inv_def)
  then have "pair_inv pc chals (w\<lparr>pw_named_devices := (pw_named_devices w)[k := ?d]\<rparr>)"
    using assms by (auto simp: pair_inv_def dest!: set_update_subset_insert [THEN subsetD])
  then show ?thesis using Some by (simp add: set_client_enabled_def save_state_inv)
qed

text \<open>The challenges the server drew in a run.\<close>

definition drawn :: "pair_op list \<Rightarrow> bytes set" where
  "drawn ops = {rq_serverchallenge rq | rq. OpPair rq \<in> set ops}"

lemma pair_step_inv:
  assumes "pair_inv (pcfg_crypto cfg) (drawn ops) w"
  shows "pair_inv (pcfg_crypto cfg) (drawn (ops @ [op])) (pair_step cfg op w)"
proof -
  have inv: "pair_inv (pcfg_crypto cfg) (drawn (ops @ [op])) w"
    by (rule pair_inv_chals [OF assms]) (auto simp: drawn_def)
  show ?thesis
  proof (cases op)
    case (OpPair rq)
    then have "rq_serverchallenge rq \<in> drawn (ops @ [op])" by (auto simp: drawn_def)
    then show ?thesis using pair_handler_inv [OF inv] OpPair by (simp add: pair_step_def)
  qed (use inv in \<open>simp_all add: pair_step_def pin_entry_inv verify_client_inv unpair_inv erase_all_inv
        set_enabled_inv\<close>)
qed

lemma pair_run_inv: "pair_inv (pcfg_crypto cfg) (drawn ops) (pair_run cfg ops)"
proof (induction ops rule: rev_induct)
  case Nil
  then show ?case by (simp add: pair_inv_def pair_run_def pair_world_new_def queue_new_def)
next
  case (snoc op ops)
  then show ?case using pair_step_inv by (simp add: pair_run_def)
qed

lemma cert_chain_verify_Some:
  "cert_chain_verify pc cs x \<Longrightarrow> \<exists>c \<in> set cs. pc_verify_cert pc c x = VerifyOk"
  by (induction cs) (auto split: verify_code.splits)

section \<open>Properties\<close>

text \<open>C15: Whatever requests, PIN entries and changes of the device list happen: a connection is let in
  only if its certificate verifies against one that was proven, with a PIN that was tried on this
  host and a challenge this host drew, to belong to a client that knew the PIN and the
  certificate's private key. No order of the pairing phases gets around this.\<close>

theorem only_paired_clients_connect:
  assumes "fst (verify_client (pcfg_crypto cfg) (Some x) (pair_run cfg ops))"
  shows "\<exists>c. pc_verify_cert (pcfg_crypto cfg) (Some c) x = VerifyOk \<and>
    proven (pcfg_crypto cfg) (set (pw_pins (pair_run cfg ops))) (drawn ops) c"
proof -
  let ?pc = "pcfg_crypto cfg" and ?w = "pair_run cfg ops"
  have "pair_inv ?pc (drawn ops) (add_pending_certs ?w)"
    by (rule add_pending_inv [OF pair_run_inv])
  moreover have "pw_pins (add_pending_certs ?w) = pw_pins ?w" by (simp add: add_pending_certs_def)
  moreover have "cert_chain_verify ?pc (pw_cert_chain (add_pending_certs ?w)) x"
    using assms by (auto simp: verify_client_def Let_def split: if_splits)
  ultimately show ?thesis using cert_chain_verify_Some by (fastforce simp: pair_inv_def store_ok_def)
qed

text \<open>A toy cryptography and one client that pairs, for the witnesses.\<close>

definition demo_crypto :: pair_crypto where
  "demo_crypto = \<lparr>pc_hash = (\<lambda>b. b), pc_ecb_decrypt = (\<lambda>k b. b), pc_ecb_encrypt = (\<lambda>k b. b),
     pc_x509 = Some, pc_pem = (\<lambda>x. x @ [10]), pc_signature = (\<lambda>x. [5]), pc_sign256 = (\<lambda>b. [6]),
     pc_verify256 = (\<lambda>x secret sign. sign = [8]), pc_servercert = [1], pc_server_signature = [2],
     pc_verify_cert = (\<lambda>c x. if c = Some x then VerifyOk else VerifyTryNext)\<rparr>"

definition demo_pair_config :: "unit pair_config" where
  "demo_pair_config = \<lparr>pcfg_crypto = demo_crypto,
     pcfg_ip = \<lparr>ip_make_address = (\<lambda>b. None), ip_normalize = (\<lambda>a. a), ip_is_v4 = (\<lambda>a. True),
       ip_v4_hosts = (\<lambda>b a. None), ip_v6_hosts = (\<lambda>b a. None)\<rparr>,
     pcfg_trusted_subnet_auto_pairing = False, pcfg_trusted_subnets = [], pcfg_pin_stdin = False,
     pcfg_fresh_state = False\<rparr>"

definition demo_request :: "(bytes \<times> bytes) list \<Rightarrow> pair_op" where
  "demo_request args = OpPair \<lparr>rq_args = map_of ((ascii ''uniqueid'', [7]) # args), rq_response = 1,
     rq_client_ip = [], rq_stdin_pin = [], rq_serversecret = [3], rq_serverchallenge = [4],
     rq_uuid = [9], rq_save_ok = True\<rparr>"

definition demo_pairing :: "pair_op list" where
  "demo_pairing =
     [demo_request [(ascii ''phrase'', ascii ''getservercert''), (ascii ''clientcert'', ascii ''63''),
        (ascii ''salt'', replicate 32 48)],
      OpPin 0 (ascii ''1234'') [],
      demo_request [(ascii ''clientchallenge'', ascii ''00'')],
      demo_request [(ascii ''serverchallengeresp'', hex_vec ([4, 5] @ replicate 16 1) True)],
      demo_request [(ascii ''clientpairingsecret'', hex_vec (replicate 16 1 @ [8]) True)]]"

theorem only_paired_clients_connect_witness:
  "\<exists>c. pc_verify_cert demo_crypto (Some c) [99] = VerifyOk \<and>
    proven demo_crypto (set (pw_pins (pair_run demo_pair_config demo_pairing))) (drawn demo_pairing) c"
proof -
  have pc: "pcfg_crypto demo_pair_config = demo_crypto" by (simp add: demo_pair_config_def)
  have "fst (verify_client demo_crypto (Some [99]) (pair_run demo_pair_config demo_pairing))" by code_simp
  then show ?thesis
    by (rule only_paired_clients_connect [of demo_pair_config "[99]" demo_pairing, unfolded pc])
qed

text \<open>A client that finished pairing but did not connect yet stays authorised when all clients are
  erased: its certificate still waits in the queue of new certificates, the next connection adds it
  to the chain, and a certificate that belongs to no device counts as enabled.\<close>

theorem erased_client_still_connects:
  assumes "x \<in> set (q_queue (pw_add_cert w))" and "q_continue (pw_add_cert w)"
    and "\<forall>c. pc_verify_cert pc c x = (if c = Some x then VerifyOk else VerifyTryNext)"
  shows "fst (verify_client pc (Some x) (erase_all_clients ok w))"
proof -
  have chain: "Some x \<in> set cs \<Longrightarrow> cert_chain_verify pc cs x" for cs
    using assms(3) by (induction cs) auto
  have "pw_add_cert (erase_all_clients ok w) = pw_add_cert w" "pw_named_devices (erase_all_clients ok w) = []"
    by (simp_all add: erase_all_clients_def save_state_def)
  then show ?thesis
    using assms(1,2) chain
    by (auto simp: verify_client_def Let_def add_pending_certs_def queue_peek_def is_client_enabled_def)
qed

theorem erased_client_still_connects_witness:
  "fst (verify_client demo_crypto (Some [99])
     (erase_all_clients True (pair_run demo_pair_config demo_pairing)))"
proof (rule erased_client_still_connects)
  show "[99] \<in> set (q_queue (pw_add_cert (pair_run demo_pair_config demo_pairing)))"
    "q_continue (pw_add_cert (pair_run demo_pair_config demo_pairing))"
    by code_simp+
qed (simp add: demo_crypto_def)

lemma find_update:
  assumes "k < length ds" and "distinct (map nc_cert ds)"
  shows "find (\<lambda>d. nc_cert d = c) (ds[k := (ds ! k)\<lparr>nc_enabled := e\<rparr>]) =
    (if nc_cert (ds ! k) = c then Some ((ds ! k)\<lparr>nc_enabled := e\<rparr>)
     else find (\<lambda>d. nc_cert d = c) ds)"
  using assms
proof (induction ds arbitrary: k)
  case (Cons d ds)
  show ?case
  proof (cases k)
    case 0
    then show ?thesis by simp
  next
    case (Suc j)
    then have "ds ! j \<in> set ds" using Cons.prems by simp
    then have "nc_cert (ds ! j) \<in> nc_cert ` set ds" by (rule imageI)
    then have "nc_cert (ds ! j) \<noteq> nc_cert d" using Cons.prems by auto
    then show ?thesis using Cons Suc by auto
  qed
qed simp

text \<open>Disabling a client goes by the text of its certificate. Among devices with distinct
  identifiers and certificates, disabling device \<open>d\<close> shuts out a client whose certificate the chain
  accepts exactly when the text stored at pairing (which the client chose) is character for
  character the text OpenSSL writes for the certificate; otherwise the client keeps its access.\<close>

theorem disabling_goes_by_text:
  assumes "k < length (pw_named_devices w)" and "distinct (map nc_uuid (pw_named_devices w))"
    and "distinct (map nc_cert (pw_named_devices w))"
    and "cert_chain_verify pc (pw_cert_chain (add_pending_certs w)) x"
    and "is_client_enabled (pc_pem pc x) w"
  shows "fst (verify_client pc (Some x)
      (snd (set_client_enabled ok (nc_uuid (pw_named_devices w ! k)) False w))) \<longleftrightarrow>
    nc_cert (pw_named_devices w ! k) \<noteq> pc_pem pc x"
proof -
  let ?ds = "pw_named_devices w"
  have "find_index (\<lambda>d. nc_uuid d = nc_uuid (?ds ! k)) ?ds = Some k"
    unfolding find_index_Some using assms(1,2) by (auto simp: distinct_conv_nth)
  then have set: "snd (set_client_enabled ok (nc_uuid (?ds ! k)) False w) =
      save_state ok (w\<lparr>pw_named_devices := ?ds[k := (?ds ! k)\<lparr>nc_enabled := False\<rparr>]\<rparr>)"
    by (simp add: set_client_enabled_def)
  have "pw_cert_chain (add_pending_certs (save_state ok (w\<lparr>pw_named_devices := ds\<rparr>))) =
      pw_cert_chain (add_pending_certs w)"
    "pw_named_devices (add_pending_certs (save_state ok (w\<lparr>pw_named_devices := ds\<rparr>))) = ds" for ds
    by (simp_all add: add_pending_certs_def save_state_def)
  then show ?thesis
    using assms(4,5) find_update [OF assms(1,3), of "pc_pem pc x" False]
    by (simp add: set verify_client_def Let_def is_client_enabled_def)
qed

theorem disabling_goes_by_text_witness:
  "fst (verify_client demo_crypto (Some [99]) (snd (set_client_enabled True [9] False
     (pair_run demo_pair_config demo_pairing))))"
proof -
  let ?w = "pair_run demo_pair_config demo_pairing"
  have d: "pw_named_devices ?w = [\<lparr>nc_name = [], nc_uuid = [9], nc_cert = [99], nc_enabled = True\<rparr>]"
    by code_simp
  have "fst (verify_client demo_crypto (Some [99])
      (snd (set_client_enabled True (nc_uuid (pw_named_devices ?w ! 0)) False ?w))) \<longleftrightarrow>
    nc_cert (pw_named_devices ?w ! 0) \<noteq> pc_pem demo_crypto [99]"
  proof (rule disabling_goes_by_text)
    show "cert_chain_verify demo_crypto (pw_cert_chain (add_pending_certs ?w)) [99]"
      "is_client_enabled (pc_pem demo_crypto [99]) ?w"
      by code_simp+
  qed (simp_all add: d)
  then show ?thesis by (simp add: d demo_crypto_def)
qed

end
