(* ===== verification/RtspMessage.thy ===== *)
theory RtspMessage
  imports NetUtil
begin

text \<open>
  RTSP messages in \<^verbatim>\<open>src/rtsp.cpp\<close>: the announce payload, the assembly of a request from the reads of
  a connection (plain text and encrypted), and the encrypted responses. The parser and the printer of
  RTSP messages belong to the protocol library and AES-GCM to OpenSSL: parameters. What a read
  delivered is an argument of the step that handles it.
\<close>

section \<open>The announce payload\<close>

record announce_payload =
  an_client :: bytes
  an_attributes :: "bytes \<rightharpoonup> bytes"

definition is_eol :: "u8 \<Rightarrow> bool" where
  "is_eol c \<longleftrightarrow> c = 13 \<or> c = 10"

definition starts_with :: "bytes \<Rightarrow> bytes \<Rightarrow> bool" where
  "starts_with p xs \<longleftrightarrow> take (length p) xs = p"

text \<open>One line; the name and the value of an attribute are on both sides of its first colon, and one
  blank at the end of the value is dropped.\<close>

definition strip_blank :: "bytes \<Rightarrow> bytes" where
  "strip_blank v = (if v \<noteq> [] \<and> last v = 32 then butlast v else v)"

definition parse_announce_line :: "bytes \<Rightarrow> announce_payload \<Rightarrow> announce_payload option" where
  "parse_announce_line line parsed =
    (if starts_with (ascii ''s='') line then Some (parsed\<lparr>an_client := drop 2 line\<rparr>)
     else if starts_with (ascii ''a='') line
     then (case find_index (\<lambda>c. c = 58) line of
             None \<Rightarrow> None
           | Some separator \<Rightarrow>
               Some (parsed\<lparr>an_attributes := emplace (take (separator - 2) (drop 2 line))
                 (strip_blank (drop (separator + 1) line)) (an_attributes parsed)\<rparr>))
     else Some parsed)"

lemma next_line_shorter:
  "payload \<noteq> [] \<Longrightarrow> length (dropWhile is_eol (dropWhile (\<lambda>c. \<not> is_eol c) payload)) < length payload"
  using length_dropWhile_le [of is_eol "dropWhile (\<lambda>c. \<not> is_eol c) payload"]
    length_dropWhile_le [of "\<lambda>c. \<not> is_eol c" "tl payload"] length_dropWhile_le [of is_eol "tl payload"]
  by (cases payload) auto

function parse_announce_loop :: "bytes \<Rightarrow> announce_payload \<Rightarrow> announce_payload option" where
  "parse_announce_loop payload parsed =
    (if payload = [] then Some parsed
     else
       case parse_announce_line (takeWhile (\<lambda>c. \<not> is_eol c) payload) parsed of
         None \<Rightarrow> None
       | Some parsed' \<Rightarrow>
           parse_announce_loop (dropWhile is_eol (dropWhile (\<lambda>c. \<not> is_eol c) payload)) parsed')"
  by pat_completeness auto

termination
  by (relation "measure (\<lambda>(payload, parsed). length payload)") (auto simp: next_line_shorter)

declare parse_announce_loop.simps [simp del]

definition parse_announce_payload :: "bytes \<Rightarrow> announce_payload option" where
  "parse_announce_payload payload =
    parse_announce_loop payload \<lparr>an_client = [], an_attributes = Map.empty\<rparr>"

section \<open>Requests\<close>

record rtsp_message =
  msg_command :: bytes
  msg_target :: bytes
  msg_seq :: int
  msg_options :: "(bytes \<times> bytes) list"
  msg_payload :: bytes

text \<open>The protocol library and the cipher of the session, if it has one.\<close>

record rtsp_lib =
  rl_parse :: "bytes \<Rightarrow> rtsp_message option"
  rl_decrypt :: "bytes \<Rightarrow> bytes \<Rightarrow> bytes \<Rightarrow> bytes option"
  rl_encrypt :: "bytes \<Rightarrow> bytes \<Rightarrow> bytes \<times> bytes"

definition crlfcrlf :: bytes where
  "crlfcrlf = [13, 10, 13, 10]"

text \<open>\<open>std::search\<close>: the first place a pattern occurs.\<close>

fun search :: "bytes \<Rightarrow> bytes \<Rightarrow> nat option" where
  "search pat [] = (if pat = [] then Some 0 else None)"
| "search pat (x # xs) = (if starts_with pat (x # xs) then Some 0 else map_option Suc (search pat xs))"

definition parse_rtsp_message_safe :: "rtsp_lib \<Rightarrow> bytes \<Rightarrow> rtsp_message option" where
  "parse_rtsp_message_safe lib data =
    (if length data < 4 then None
     else if search crlfcrlf data = None then None
     else rl_parse lib data)"

text \<open>
  What a connection waits for. \<open>msg_buf\<close> has 2048 bytes; the argument is the part that was received.
  \<open>AwaitPayload\<close> knows where the header ended (\<open>crlf\<close>). \<open>BadRequest\<close> answers 400 and closes.
\<close>

definition msg_buf_size :: nat where
  "msg_buf_size = 2048"

datatype rtsp_socket =
    AwaitHeader bytes
  | AwaitPayload bytes nat
  | AwaitEncryptedHeader
  | AwaitEncryptedMessage bytes
  | Handled rtsp_message
  | BadRequest
  | SockClosed

definition socket_read :: "bool \<Rightarrow> bytes \<Rightarrow> rtsp_socket" where
  "socket_read encrypted buf =
    (if length buf = msg_buf_size \<or> encrypted \<and> msg_buf_size \<le> length buf + 24 then BadRequest
     else if encrypted then AwaitEncryptedHeader
     else AwaitHeader buf)"

definition read_plaintext_payload :: "nat \<Rightarrow> bytes \<Rightarrow> rtsp_socket" where
  "read_plaintext_payload crlf buf =
    (if length buf = msg_buf_size then BadRequest else AwaitPayload buf crlf)"

definition content_length :: "rtsp_message \<Rightarrow> int" where
  "content_length req =
    (case find (\<lambda>opt. fst opt = ascii ''Content-length'') (msg_options req) of
       None \<Rightarrow> 0
     | Some opt \<Rightarrow>
         let number = dropWhile (\<lambda>c. \<not> (48 \<le> c \<and> c \<le> 57)) (snd opt) in
         if number = [] then 0
         else case parse_integer (- (2 ^ 31)) (2 ^ 31 - 1) number of
             None \<Rightarrow> 0
           | Some v \<Rightarrow> if 0 \<le> v then v else 0)"

definition handle_plaintext_payload :: "rtsp_lib \<Rightarrow> nat \<Rightarrow> bytes \<Rightarrow> rtsp_socket" where
  "handle_plaintext_payload lib crlf buf =
    (case parse_rtsp_message_safe lib buf of
       None \<Rightarrow> BadRequest
     | Some req \<Rightarrow>
         if content_length req \<le> int (length buf) - int crlf then Handled req
         else read_plaintext_payload crlf buf)"

text \<open>\<open>std::max(begin - 4, begin)\<close> is \<open>begin\<close>: the terminator is searched in the new bytes only.\<close>

definition handle_read_plaintext :: "rtsp_lib \<Rightarrow> bytes \<Rightarrow> bytes \<Rightarrow> rtsp_socket" where
  "handle_read_plaintext lib buf got =
    (case search crlfcrlf got of
       None \<Rightarrow> socket_read False (buf @ got)
     | Some it \<Rightarrow> handle_plaintext_payload lib (length buf + it + 4) (buf @ got))"

section \<open>Encrypted requests\<close>

definition encrypted_bit :: u32 where
  "encrypted_bit = 0x80000000"

definition header_is_encrypted :: "bytes \<Rightarrow> bool" where
  "header_is_encrypted header \<longleftrightarrow> (of_be_bytes (take 4 header) :: u32) AND encrypted_bit \<noteq> 0"

definition header_payload_length :: "bytes \<Rightarrow> u32" where
  "header_payload_length header = of_be_bytes (take 4 header) AND NOT encrypted_bit"

definition rtsp_iv :: "u8 \<Rightarrow> u32 \<Rightarrow> bytes" where
  "rtsp_iv from_side seq = (le_bytes 4 seq @ replicate 8 0)[10 := from_side, 11 := 0x52]"

definition handle_read_encrypted_header :: "bool \<Rightarrow> bytes \<Rightarrow> rtsp_socket" where
  "handle_read_encrypted_header ec got =
    (if ec \<or> length got < 24 then BadRequest
     else if \<not> header_is_encrypted got then BadRequest
     else if msg_buf_size \<le> 24 + unat (header_payload_length got) then BadRequest
     else AwaitEncryptedMessage got)"

definition handle_read_encrypted_message :: "rtsp_lib \<Rightarrow> bool \<Rightarrow> bytes \<Rightarrow> bytes \<Rightarrow> rtsp_socket" where
  "handle_read_encrypted_message lib ec header got =
    (if ec \<or> length got < unat (header_payload_length header) then BadRequest
     else
       let seq = of_be_bytes (take 4 (drop 4 header)); iv = rtsp_iv 0x43 seq in
       case rl_decrypt lib iv (take 16 (drop 8 header)) got of
         None \<Rightarrow> BadRequest
       | Some plaintext \<Rightarrow>
           (case parse_rtsp_message_safe lib plaintext of
              None \<Rightarrow> BadRequest
            | Some req \<Rightarrow> Handled req))"

text \<open>
  A read that ended: with an error or not, and the bytes it brought. \<open>async_read_some\<close> brings at most
  as many bytes as there is room for; \<open>async_read\<close> brings what it was asked for unless it fails.
\<close>

definition rtsp_socket_step :: "rtsp_lib \<Rightarrow> bool \<times> bytes \<Rightarrow> rtsp_socket \<Rightarrow> rtsp_socket" where
  "rtsp_socket_step lib r sock =
    (case sock of
       AwaitHeader buf \<Rightarrow>
         if fst r then SockClosed
         else handle_read_plaintext lib buf (take (msg_buf_size - length buf) (snd r))
     | AwaitPayload buf crlf \<Rightarrow>
         if fst r then SockClosed
         else handle_plaintext_payload lib crlf (buf @ take (msg_buf_size - length buf) (snd r))
     | AwaitEncryptedHeader \<Rightarrow> handle_read_encrypted_header (fst r) (take 24 (snd r))
     | AwaitEncryptedMessage header \<Rightarrow>
         handle_read_encrypted_message lib (fst r) header
           (take (unat (header_payload_length header)) (snd r))
     | _ \<Rightarrow> sock)"

definition rtsp_reads :: "rtsp_lib \<Rightarrow> (bool \<times> bytes) list \<Rightarrow> rtsp_socket \<Rightarrow> rtsp_socket" where
  "rtsp_reads lib rs sock = fold (rtsp_socket_step lib) rs sock"

section \<open>Responses\<close>

text \<open>
  \<open>respond\<close>: the serialized header and the payload, encrypted when the session has a cipher; the value
  is what is sent and the counter of the session.
\<close>

definition respond_bytes :: "rtsp_lib \<Rightarrow> bool \<Rightarrow> bytes \<Rightarrow> bytes \<Rightarrow> u32 \<Rightarrow> bytes list \<times> u32" where
  "respond_bytes lib encrypted raw_resp payload rtsp_iv_counter =
    (if encrypted then
       (let counter = rtsp_iv_counter + 1; iv = rtsp_iv 0x48 counter;
            message = raw_resp @ payload;
            (tag, cipher) = rl_encrypt lib iv message in
        ([be_bytes 4 (encrypted_bit + of_nat (length message)) @ be_bytes 4 counter @ tag @ cipher], counter))
     else ([raw_resp, payload], rtsp_iv_counter))"

text \<open>
  \<open>send\<close>: each call of the socket sends some bytes or fails; the value is what was sent and whether
  all of it was, \<open>None\<close> when the calls the environment answers are used up.
\<close>

fun rtsp_send :: "nat option list \<Rightarrow> bytes \<Rightarrow> bytes \<Rightarrow> (bytes \<times> bool) option" where
  "rtsp_send calls sent [] = Some (sent, True)"
| "rtsp_send [] sent sv = None"
| "rtsp_send (None # calls) sent sv = Some (sent, False)"
| "rtsp_send (Some n # calls) sent sv = rtsp_send calls (sent @ take n sv) (drop n sv)"

section \<open>Facts\<close>

lemma starts_with_append [simp]: "starts_with p (p @ xs)"
  by (simp add: starts_with_def)

lemma starts_with_more: "starts_with p xs \<Longrightarrow> starts_with p (xs @ ys)"
  by (auto simp: starts_with_def)
    (metis append_take_drop_id length_append length_take min_def nat_le_linear take_all take_append diff_is_0_eq' take0 append_Nil2)

lemma search_first: "search pat xs = Some i \<Longrightarrow> starts_with pat (drop i xs) \<and> i + length pat \<le> length xs"
proof (induction xs arbitrary: i)
  case (Cons x xs)
  show ?case
  proof (cases "starts_with pat (x # xs)")
    case True
    then have "length (take (length pat) (x # xs)) = length pat" by (simp add: starts_with_def)
    then show ?thesis using True Cons.prems by simp
  next
    case False
    then show ?thesis using Cons by auto
  qed
qed (simp add: starts_with_def split: if_splits)

lemma search_append: "search pat xs = Some i \<Longrightarrow> search pat (xs @ ys) = Some i"
proof (induction xs arbitrary: i)
  case Nil
  then show ?case by (cases ys) (auto simp: starts_with_def split: if_splits)
next
  case (Cons x xs)
  show ?case
  proof (cases "starts_with pat (x # xs)")
    case True
    then show ?thesis using Cons.prems starts_with_more [OF True, of ys] by simp
  next
    case False
    then obtain j where j: "search pat xs = Some j" "i = Suc j" using Cons.prems by auto
    have "\<not> starts_with pat (x # xs @ ys)"
    proof
      assume a: "starts_with pat (x # xs @ ys)"
      have "j + length pat \<le> length xs" using search_first [OF j(1)] by simp
      then have "take (length pat) (x # xs @ ys) = take (length pat) (x # xs)"
        by (metis append_Cons le_SucI length_Cons take_append diff_is_0_eq' take0 append_Nil2 add_leD2)
      then show False using a False by (simp add: starts_with_def)
    qed
    then show ?thesis using Cons.IH [OF j(1)] j(2) by simp
  qed
qed

lemma search_skip:
  "search pat (a @ xs) = Some (length a + i) \<Longrightarrow> search pat xs = Some i"
proof (induction a)
  case (Cons x a)
  then show ?case by (auto split: if_splits)
qed simp

lemma search_None_prefix: "search pat (xs @ ys) = None \<Longrightarrow> search pat xs = None"
  using search_append [of pat xs _ ys] by (cases "search pat xs") auto

lemma search_prefix_None:
  "search pat (xs @ ys) = Some i \<Longrightarrow> length xs < i + length pat \<Longrightarrow> search pat xs = None"
proof (cases "search pat xs")
  case (Some j)
  assume "search pat (xs @ ys) = Some i" "length xs < i + length pat"
  then show ?thesis using search_append [OF Some, of ys] search_first [OF Some] by simp
qed

lemma search_None_suffix: "search pat (xs @ ys) = None \<Longrightarrow> search pat ys = None"
  by (induction xs) (auto split: if_splits)

text \<open>The announce text of a client: its name and its attributes, a line each.\<close>

definition announce_line :: "bytes \<times> bytes \<Rightarrow> bytes" where
  "announce_line a = ascii ''a='' @ fst a @ [58] @ snd a @ [32]"

definition announce_text :: "bytes \<Rightarrow> (bytes \<times> bytes) list \<Rightarrow> bytes" where
  "announce_text client attrs =
    concat (map (\<lambda>l. l @ [13, 10]) ((ascii ''s='' @ client) # map announce_line attrs))"

definition one_line :: "bytes \<Rightarrow> bool" where
  "one_line xs \<longleftrightarrow> list_all (\<lambda>c. \<not> is_eol c) xs"

lemma one_line_simps [simp]: "one_line []" "one_line (x # xs) = (\<not> is_eol x \<and> one_line xs)"
  "one_line (xs @ ys) = (one_line xs \<and> one_line ys)"
  by (simp_all add: one_line_def)

lemma eol_simps [simp]: "is_eol 13" "is_eol 10" "\<not> is_eol 58" "\<not> is_eol 32" "\<not> is_eol 97" "\<not> is_eol 115" "\<not> is_eol 61"
  by (simp_all add: is_eol_def)

lemma parse_announce_step:
  assumes "one_line l" and "l \<noteq> []" and "rest = [] \<or> \<not> is_eol (hd rest)"
  shows "parse_announce_loop (l @ 13 # 10 # rest) p =
    (case parse_announce_line l p of None \<Rightarrow> None | Some q \<Rightarrow> parse_announce_loop rest q)"
proof -
  have l: "\<forall>x \<in> set l. \<not> is_eol x" using assms(1) by (simp add: one_line_def list_all_iff)
  then have "takeWhile (\<lambda>c. \<not> is_eol c) (l @ 13 # 10 # rest) = l"
    "dropWhile (\<lambda>c. \<not> is_eol c) (l @ 13 # 10 # rest) = 13 # 10 # rest"
    by (simp_all add: takeWhile_append2 dropWhile_append2)
  moreover have "dropWhile is_eol rest = rest" using assms(3) by (cases rest) auto
  ultimately show ?thesis using assms(2) by (subst parse_announce_loop.simps) (simp split: option.split)
qed

lemma find_index_first: "\<forall>x \<in> set xs. \<not> P x \<Longrightarrow> P y \<Longrightarrow> find_index P (xs @ y # ys) = Some (length xs)"
  by (induction xs) auto

lemma parse_announce_attribute:
  assumes "58 \<notin> set n"
  shows "parse_announce_line (announce_line (n, v)) p =
    Some (p\<lparr>an_attributes := emplace n v (an_attributes p)\<rparr>)"
proof -
  have "ascii ''a='' = [97, 61]" "ascii ''s='' = [115, 61]" by code_simp+
  moreover have "find_index (\<lambda>c. c = 58) (97 # 61 # n @ 58 # v @ [32]) = Some (length (97 # 61 # n))"
    using find_index_first [of "97 # 61 # n" "\<lambda>c. c = 58" 58] assms by auto
  ultimately show ?thesis
    by (simp add: parse_announce_line_def announce_line_def starts_with_def strip_blank_def)
qed

lemma parse_announce_attributes:
  assumes "list_all (\<lambda>(n, v). one_line n \<and> one_line v \<and> 58 \<notin> set n) attrs"
  shows "parse_announce_loop (concat (map (\<lambda>l. l @ [13, 10]) (map announce_line attrs))) p =
    Some (p\<lparr>an_attributes := map_of attrs ++ an_attributes p\<rparr>)"
  using assms
proof (induction attrs arbitrary: p)
  case Nil
  then show ?case by (simp add: parse_announce_loop.simps)
next
  case (Cons a attrs)
  obtain n v where a: "a = (n, v)" by fastforce
  have s: "ascii ''a='' = [97, 61]" by code_simp
  let ?rest = "concat (map (\<lambda>l. l @ [13, 10]) (map announce_line attrs))"
  have rest: "?rest = [] \<or> \<not> is_eol (hd ?rest)"
    by (cases attrs) (simp_all add: announce_line_def s)
  have l: "one_line (announce_line a)" "announce_line a \<noteq> []"
    using Cons.prems by (simp_all add: announce_line_def s a)
  have "map_of attrs ++ emplace n v m = map_of (a # attrs) ++ m" for m
    by (rule ext) (auto simp: emplace_def a map_add_def split: option.split)
  then show ?case
    using Cons parse_announce_step [OF l rest, of p] parse_announce_attribute [of n v p]
    by (simp add: a fun_upd_def)
qed

lemma parse_announce_text:
  assumes "one_line client"
    and "list_all (\<lambda>(n, v). one_line n \<and> one_line v \<and> 58 \<notin> set n) attrs"
  shows "parse_announce_payload (announce_text client attrs) =
    Some \<lparr>an_client = client, an_attributes = map_of attrs\<rparr>"
proof -
  have s: "ascii ''a='' = [97, 61]" "ascii ''s='' = [115, 61]" by code_simp+
  let ?rest = "concat (map (\<lambda>l. l @ [13, 10]) (map announce_line attrs))"
  have rest: "?rest = [] \<or> \<not> is_eol (hd ?rest)"
    by (cases attrs) (simp_all add: announce_line_def s)
  have l: "one_line (ascii ''s='' @ client)" "ascii ''s='' @ client \<noteq> []"
    using assms(1) by (simp_all add: s)
  have "parse_announce_line (ascii ''s='' @ client) p = Some (p\<lparr>an_client := client\<rparr>)" for p
    by (simp add: parse_announce_line_def starts_with_def s)
  then show ?thesis
    using parse_announce_step [OF l rest] parse_announce_attributes [OF assms(2)]
    by (simp add: parse_announce_payload_def announce_text_def)
qed

text \<open>C21: What a client prints, the parser reads: an announce of a name and attributes, whose texts are
  single lines and whose names have no colon, gives the name and the first value of each attribute.\<close>

theorem announce_roundtrip:
  assumes "one_line client"
    and "list_all (\<lambda>(n, v). one_line n \<and> one_line v \<and> 58 \<notin> set n) attrs"
  shows "parse_announce_payload (announce_text client attrs) =
    Some \<lparr>an_client = client, an_attributes = map_of attrs\<rparr>"
  using assms by (rule parse_announce_text)

theorem announce_roundtrip_witness:
  "parse_announce_payload (announce_text (ascii ''Moonlight'')
     [(ascii ''x-nv-video[0].maxFPS'', ascii ''60''), (ascii ''x-nv-video[0].packetSize'', [])]) =
   Some \<lparr>an_client = ascii ''Moonlight'', an_attributes =
     map_of [(ascii ''x-nv-video[0].maxFPS'', ascii ''60''), (ascii ''x-nv-video[0].packetSize'', [])]\<rparr>"
  by (rule announce_roundtrip) code_simp+

section \<open>Assembly\<close>

lemma content_wait:
  assumes "parse_rtsp_message_safe lib buf = Some m" and "int (length buf) - int crlf < content_length m"
    and "length buf \<noteq> msg_buf_size"
  shows "handle_plaintext_payload lib crlf buf = AwaitPayload buf crlf"
  using assms by (simp add: handle_plaintext_payload_def read_plaintext_payload_def)

lemma content_there:
  assumes "parse_rtsp_message_safe lib buf = Some m" and "content_length m \<le> int (length buf) - int crlf"
  shows "handle_plaintext_payload lib crlf buf = Handled m"
  using assms by (simp add: handle_plaintext_payload_def)

text \<open>The parser finds the same length of the payload however much of the payload is there.\<close>

definition parses_request :: "rtsp_lib \<Rightarrow> bytes \<Rightarrow> bytes \<Rightarrow> bool" where
  "parses_request lib head body \<longleftrightarrow> search crlfcrlf (head @ crlfcrlf) = Some (length head) \<and>
     (\<forall>n \<le> length body. \<exists>m. rl_parse lib (head @ crlfcrlf @ take n body) = Some m \<and>
       content_length m = int (length body))"

lemma parses_prefix:
  assumes "parses_request lib head body" and "n \<le> length body"
  obtains m where "parse_rtsp_message_safe lib (head @ crlfcrlf @ take n body) = Some m"
    "rl_parse lib (head @ crlfcrlf @ take n body) = Some m" "content_length m = int (length body)"
proof -
  obtain m where m: "rl_parse lib (head @ crlfcrlf @ take n body) = Some m" "content_length m = int (length body)"
    using assms unfolding parses_request_def by blast
  have "search crlfcrlf (head @ crlfcrlf @ take n body) = Some (length head)"
    using search_append [of crlfcrlf "head @ crlfcrlf" "length head" "take n body"] assms(1)
    by (simp add: parses_request_def)
  moreover have "4 \<le> length (head @ crlfcrlf @ take n body)" by (simp add: crlfcrlf_def)
  ultimately show thesis using that m by (simp add: parse_rtsp_message_safe_def)
qed

lemma payload_reads:
  assumes p: "parses_request lib head body" and "length (head @ crlfcrlf @ body) \<le> msg_buf_size"
    and "[] \<notin> set cs" and "pre @ concat cs = body" and "cs \<noteq> []"
  shows "rtsp_reads lib (map (Pair False) cs) (AwaitPayload (head @ crlfcrlf @ pre) (length head + 4)) =
    Handled (the (rl_parse lib (head @ crlfcrlf @ body)))"
  using assms(2-5)
proof (induction cs arbitrary: pre)
  case (Cons c cs)
  have four: "length crlfcrlf = 4" by (simp add: crlfcrlf_def)
  have body: "body = pre @ c @ concat cs" using Cons.prems(3) by simp
  have room: "take (msg_buf_size - length (head @ crlfcrlf @ pre)) c = c"
    using Cons.prems(1) by (simp add: body)
  let ?buf = "head @ crlfcrlf @ pre @ c"
  have pre: "take (length (pre @ c)) body = pre @ c" by (simp add: body)
  obtain m where m: "parse_rtsp_message_safe lib ?buf = Some m" "rl_parse lib ?buf = Some m"
    "content_length m = int (length body)"
    using parses_prefix [OF p, of "length (pre @ c)"] unfolding pre by (auto simp: body)
  show ?case
  proof (cases "cs = []")
    case True
    then have "handle_plaintext_payload lib (length head + 4) ?buf = Handled m"
      by (intro content_there [OF m(1)]) (simp add: m(3) body four)
    then show ?thesis using m(2) True room body by (simp add: rtsp_reads_def rtsp_socket_step_def)
  next
    case False
    then have "concat cs \<noteq> []" using Cons.prems(2) by (cases cs) auto
    then have "length (pre @ c) < length body" by (simp add: body)
    then have "handle_plaintext_payload lib (length head + 4) ?buf = AwaitPayload ?buf (length head + 4)"
      using Cons.prems(1) by (intro content_wait [OF m(1)]) (simp_all add: m(3) four)
    then show ?thesis
      using Cons.IH [of "pre @ c"] Cons.prems False room
      by (simp add: rtsp_reads_def rtsp_socket_step_def)
  qed
qed simp


lemma search_terminator:
  assumes p: "parses_request lib head body" and "pre @ c = head @ crlfcrlf @ x" and "length pre \<le> length head"
  shows "search crlfcrlf c = Some (length head - length pre)"
proof -
  have "search crlfcrlf (head @ crlfcrlf @ x) = Some (length head)"
    using p search_append [of crlfcrlf "head @ crlfcrlf" "length head" x] by (simp add: parses_request_def)
  then have "search crlfcrlf (pre @ c) = Some (length pre + (length head - length pre))"
    using assms(2,3) by simp
  then show ?thesis by (rule search_skip)
qed

text \<open>Reads that end before the terminator does leave the connection waiting for the header.\<close>

lemma header_reads:
  assumes "\<forall>c \<in> set cs. search crlfcrlf c = None" and "length (pre @ concat cs) < msg_buf_size"
  shows "rtsp_reads lib (map (Pair False) cs) (AwaitHeader pre) = AwaitHeader (pre @ concat cs)"
  using assms
proof (induction cs arbitrary: pre)
  case (Cons c cs)
  then have "handle_read_plaintext lib pre c = AwaitHeader (pre @ c)"
    by (simp add: handle_read_plaintext_def socket_read_def)
  then show ?case using Cons by (simp add: rtsp_reads_def rtsp_socket_step_def)
qed (simp add: rtsp_reads_def)

lemma pieces_None:
  "search crlfcrlf (concat cs) = None \<Longrightarrow> \<forall>c \<in> set cs. search crlfcrlf c = None"
  by (induction cs) (auto dest: search_None_prefix search_None_suffix)

lemma rtsp_reads_append: "rtsp_reads lib (rs @ qs) s = rtsp_reads lib qs (rtsp_reads lib rs s)"
  by (simp add: rtsp_reads_def)

lemma rtsp_reads_Cons: "rtsp_reads lib (r # rs) s = rtsp_reads lib rs (rtsp_socket_step lib r s)"
  by (simp add: rtsp_reads_def)

lemma request_pieces:
  assumes p: "parses_request lib head body" and len: "length (head @ crlfcrlf @ body) \<le> msg_buf_size"
    and "[] \<notin> set (as @ c # bs)" and cat: "concat (as @ c # bs) = head @ crlfcrlf @ body"
    and "length (concat as) \<le> length head" and "length head + 4 \<le> length (concat as @ c)"
  shows "rtsp_reads lib (map (Pair False) (as @ c # bs)) (AwaitHeader []) =
    Handled (the (rl_parse lib (head @ crlfcrlf @ body)))"
proof -
  have four: "length crlfcrlf = 4" by (simp add: crlfcrlf_def)
  define x where "x = drop (length head + 4) (concat as @ c)"
  have whole: "(concat as @ c) @ concat bs = (head @ crlfcrlf) @ body" using cat by simp
  then have "take (length head + 4) (concat as @ c) = head @ crlfcrlf"
    using assms(6) four by (metis append_eq_conv_conj length_append take_append diff_is_0_eq take0 append_Nil2)
  then have ac: "concat as @ c = head @ crlfcrlf @ x"
    unfolding x_def by (metis append_assoc append_take_drop_id)
  then have body: "x @ concat bs = body" using whole by simp
  have found: "search crlfcrlf c = Some (length head - length (concat as))"
    by (rule search_terminator [OF p ac assms(5)])
  have "search crlfcrlf (concat as) = None"
    using search_prefix_None [of crlfcrlf "concat as" c "length head"] assms(5) four
      search_append [of crlfcrlf "head @ crlfcrlf" "length head" x] p ac
    by (simp add: parses_request_def)
  then have waiting: "rtsp_reads lib (map (Pair False) as) (AwaitHeader []) = AwaitHeader (concat as)"
    using header_reads [OF pieces_None, of as "[]" lib] assms(5) len four by simp
  have "length (concat as @ c) \<le> msg_buf_size" using len whole by (metis append_assoc le_trans length_append le_add1)
  then have "take (msg_buf_size - length (concat as)) c = c" by simp
  then have step: "rtsp_socket_step lib (False, c) (AwaitHeader (concat as)) =
      handle_plaintext_payload lib (length head + 4) (head @ crlfcrlf @ x)"
    using found assms(5) ac by (simp add: rtsp_socket_step_def handle_read_plaintext_def)
  have xb: "take (length x) body = x" using body by (metis append_eq_conv_conj)
  obtain m where m: "parse_rtsp_message_safe lib (head @ crlfcrlf @ x) = Some m"
    "rl_parse lib (head @ crlfcrlf @ x) = Some m" "content_length m = int (length body)"
    using parses_prefix [OF p, of "length x"] unfolding xb by (auto simp flip: body)
  show ?thesis
  proof (cases "bs = []")
    case True
    then have "handle_plaintext_payload lib (length head + 4) (head @ crlfcrlf @ x) = Handled m"
      using body by (intro content_there [OF m(1)]) (simp add: m(3) four)
    then show ?thesis using True waiting step m(2) body
      by (simp add: rtsp_reads_append rtsp_reads_Cons) (simp add: rtsp_reads_def)
  next
    case False
    then have "concat bs \<noteq> []" using assms(3) by (cases bs) auto
    then have "length x < length body" using body by (metis length_append length_greater_0_conv less_add_same_cancel1)
    then have "handle_plaintext_payload lib (length head + 4) (head @ crlfcrlf @ x) =
        AwaitPayload (head @ crlfcrlf @ x) (length head + 4)"
      using len by (intro content_wait [OF m(1)]) (simp_all add: m(3) four)
    then show ?thesis
      using waiting step payload_reads [OF p len _ body False] assms(3)
      by (simp add: rtsp_reads_append rtsp_reads_Cons)
  qed
qed

section \<open>Encryption\<close>

text \<open>What the client accepts as a response: the mirror image of the request handling.\<close>

definition client_read_response :: "rtsp_lib \<Rightarrow> bytes \<Rightarrow> (u32 \<times> bytes) option" where
  "client_read_response lib pkt =
    (let header = take 24 pkt; seq = of_be_bytes (take 4 (drop 4 header)) in
     if length pkt < 24 \<or> \<not> header_is_encrypted header \<or>
        length pkt \<noteq> 24 + unat (header_payload_length header) then None
     else map_option (Pair seq)
       (rl_decrypt lib (rtsp_iv 0x48 seq) (take 16 (drop 8 header)) (drop 24 pkt)))"

definition rtsp_gcm_ok :: "rtsp_lib \<Rightarrow> bool" where
  "rtsp_gcm_ok lib \<longleftrightarrow> (\<forall>iv p. case rl_encrypt lib iv p of (tag, c) \<Rightarrow>
     length tag = 16 \<and> length c = length p \<and> rl_decrypt lib iv tag c = Some p)"

lemma encrypted_header:
  assumes "n < 2 ^ 31"
  shows "header_is_encrypted (be_bytes 4 (encrypted_bit + of_nat n) @ rest)"
    "header_payload_length (be_bytes 4 (encrypted_bit + of_nat n) @ rest) = of_nat n"
proof -
  have "take_bit 31 (of_nat n :: u32) = of_nat n"
    using assms by (simp add: take_bit_of_nat take_bit_nat_eq_self flip: of_nat_take_bit)
  then have no: "\<not> bit (of_nat n :: u32) i" if "31 \<le> i" for i
    using that by (metis bit_take_bit_iff not_le)
  have b: "bit (encrypted_bit :: u32) i \<longleftrightarrow> i = 31" for i
  proof -
    have "encrypted_bit = push_bit 31 (1 :: u32)" by (simp add: encrypted_bit_def)
    then show ?thesis unfolding \<open>encrypted_bit = push_bit 31 1\<close> bit_push_bit_iff bit_1_iff by auto
  qed
  have "encrypted_bit AND of_nat n = (0 :: u32)"
    by (rule bit_word_eqI) (auto simp: bit_and_iff b no)
  then have sum: "encrypted_bit + of_nat n = encrypted_bit OR (of_nat n :: u32)"
    by (simp add: disjunctive_add_eq_or)
  have first4: "(of_be_bytes (take 4 (be_bytes 4 (encrypted_bit + of_nat n) @ rest)) :: u32) =
      encrypted_bit OR of_nat n"
    by (simp add: of_be_bytes_be_bytes flip: sum)
  have "bit ((encrypted_bit OR of_nat n) AND encrypted_bit :: u32) 31"
    by (simp add: bit_and_iff bit_or_iff b)
  then show "header_is_encrypted (be_bytes 4 (encrypted_bit + of_nat n) @ rest)"
    unfolding header_is_encrypted_def first4 by force
  show "header_payload_length (be_bytes 4 (encrypted_bit + of_nat n) @ rest) = of_nat n"
    unfolding header_payload_length_def first4
    by (rule bit_word_eqI) (auto simp: bit_and_iff bit_or_iff bit_not_iff b no)
qed

text \<open>C20: An encrypted response reads first4: the client finds the next number in the header, takes the
  IV from it and decrypts exactly the header and the payload the host wrote.\<close>

theorem encrypted_response_readable:
  assumes "rtsp_gcm_ok lib" and "length (raw @ payload) < 2 ^ 31"
  shows "case respond_bytes lib True raw payload n of (pkts, n') \<Rightarrow>
    n' = n + 1 \<and> client_read_response lib (concat pkts) = Some (n + 1, raw @ payload)"
proof -
  let ?m = "raw @ payload" and ?iv = "rtsp_iv 0x48 (n + 1)"
  obtain tag c where e: "rl_encrypt lib ?iv ?m = (tag, c)" by fastforce
  then have t: "length tag = 16" "length c = length ?m" "rl_decrypt lib ?iv tag c = Some ?m"
    using assms(1) unfolding rtsp_gcm_ok_def by (metis (mono_tags, lifting) case_prod_conv)+
  let ?hd = "be_bytes 4 (encrypted_bit + of_nat (length ?m) :: u32) @ be_bytes 4 (n + 1) @ tag"
  have hd: "take 24 (?hd @ c) = ?hd" "drop 24 (?hd @ c) = c" using t(1) by simp_all
  have "unat (of_nat k :: u32) = k" if "k < 2 ^ 31" for k
    using that by (simp add: unsigned_of_nat take_bit_nat_eq_self)
  from this [OF assms(2)] have "unat (of_nat (length ?m) :: u32) = length ?m" .
  then have len: "unat (header_payload_length ?hd) = length ?m" "header_is_encrypted ?hd"
    using encrypted_header [OF assms(2), of "be_bytes 4 (n + 1) @ tag"] by simp_all
  have seq: "(of_be_bytes (take 4 (drop 4 ?hd)) :: u32) = n + 1" "take 16 (drop 8 ?hd) = tag"
    using t(1) by (simp_all add: of_be_bytes_be_bytes)
  have total: "length (?hd @ c) = 24 + length ?m" using t by simp
  have "client_read_response lib (?hd @ c) = Some (n + 1, ?m)"
    unfolding client_read_response_def Let_def hd seq
    using t(3) len total by simp
  then show ?thesis by (simp add: respond_bytes_def Let_def e)
qed

text \<open>A toy cipher and parser for the witnesses.\<close>

definition demo_rtsp_lib :: rtsp_lib where
  "demo_rtsp_lib = \<lparr>rl_parse = (\<lambda>d. Some \<lparr>msg_command = ascii ''ANNOUNCE'', msg_target = [], msg_seq = 1,
       msg_options = [(ascii ''Content-length'', ascii ''3'')], msg_payload = []\<rparr>),
     rl_decrypt = (\<lambda>iv tag c. Some c), rl_encrypt = (\<lambda>iv p. (replicate 16 0, p))\<rparr>"

theorem encrypted_response_readable_witness:
  "case respond_bytes demo_rtsp_lib True [1, 2] [3] 0xffffffff of (pkts, n') \<Rightarrow>
    n' = 0xffffffff + 1 \<and>
    client_read_response demo_rtsp_lib (concat pkts) = Some (0xffffffff + 1, [1, 2] @ [3])"
  by (rule encrypted_response_readable) (simp_all add: rtsp_gcm_ok_def demo_rtsp_lib_def)

text \<open>C18: A session with a key hands on only requests that were authenticated: the header has the
  encryption bit, the message fits the buffer and decrypts under the IV of its number, and the plain
  text has the end of a header before it reaches the parser.\<close>

theorem encrypted_request_authentic:
  assumes "rtsp_reads lib rs AwaitEncryptedHeader = Handled req"
  shows "\<exists>header c plaintext. length header = 24 \<and> header_is_encrypted header \<and>
    length c = unat (header_payload_length header) \<and> length header + length c < msg_buf_size \<and>
    rl_decrypt lib (rtsp_iv 0x43 (of_be_bytes (take 4 (drop 4 header)))) (take 16 (drop 8 header)) c =
      Some plaintext \<and>
    search crlfcrlf plaintext \<noteq> None \<and> rl_parse lib plaintext = Some req"
proof -
  define ok where "ok s = (case s of
      AwaitEncryptedHeader \<Rightarrow> True
    | AwaitEncryptedMessage h \<Rightarrow> length h = 24 \<and> header_is_encrypted h \<and>
        24 + unat (header_payload_length h) < msg_buf_size
    | BadRequest \<Rightarrow> True
    | Handled req \<Rightarrow> \<exists>header c plaintext. length header = 24 \<and> header_is_encrypted header \<and>
        length c = unat (header_payload_length header) \<and> length header + length c < msg_buf_size \<and>
        rl_decrypt lib (rtsp_iv 0x43 (of_be_bytes (take 4 (drop 4 header)))) (take 16 (drop 8 header)) c =
          Some plaintext \<and>
        search crlfcrlf plaintext \<noteq> None \<and> rl_parse lib plaintext = Some req
    | _ \<Rightarrow> False)" for s
  have head: "ok (handle_read_encrypted_header ec (take 24 g))" for ec g
    by (auto simp: handle_read_encrypted_header_def ok_def)
  have msg: "ok (handle_read_encrypted_message lib ec h (take (unat (header_payload_length h)) g))"
    if "ok (AwaitEncryptedMessage h)" for ec g h
  proof -
    have "ok (Handled m)"
      if "\<not> length (take (unat (header_payload_length h)) g) < unat (header_payload_length h)"
        "rl_decrypt lib (rtsp_iv 0x43 (of_be_bytes (take 4 (drop 4 h)))) (take 16 (drop 8 h))
           (take (unat (header_payload_length h)) g) = Some p"
        "parse_rtsp_message_safe lib p = Some m" for p m
    proof -
      have "search crlfcrlf p \<noteq> None" "rl_parse lib p = Some m"
        using that(3) by (auto simp: parse_rtsp_message_safe_def split: if_splits)
      then show ?thesis
        unfolding ok_def rtsp_socket.case
        using that(1,2) \<open>ok (AwaitEncryptedMessage h)\<close>
        by (intro exI [of _ h] exI [of _ "take (unat (header_payload_length h)) g"] exI [of _ p])
          (simp add: ok_def)
    qed
    moreover have "ok BadRequest" by (simp add: ok_def)
    ultimately show ?thesis
      by (auto simp: handle_read_encrypted_message_def Let_def split: option.splits)
  qed
  have step: "ok (rtsp_socket_step lib r s)" if "ok s" for r s
    using that head msg by (cases s) (simp_all add: rtsp_socket_step_def, simp_all add: ok_def)
  have "ok s \<Longrightarrow> ok (rtsp_reads lib rs s)" for s
    by (induction rs arbitrary: s) (simp_all add: rtsp_reads_def step)
  from this [of AwaitEncryptedHeader] assms show ?thesis by (simp add: ok_def)
qed

text \<open>A plain request of any pieces, as long as one of them holds the whole blank line after the
  header, is handed to the command handler once its last byte is there, as the message the parser
  makes of the whole request.\<close>

theorem plain_request_handled:
  assumes "parses_request lib head body" and "length (head @ crlfcrlf @ body) \<le> msg_buf_size"
    and "[] \<notin> set (as @ c # bs)" and "concat (as @ c # bs) = head @ crlfcrlf @ body"
    and "length (concat as) \<le> length head" and "length head + 4 \<le> length (concat as @ c)"
  shows "rtsp_reads lib (map (Pair False) (as @ c # bs)) (AwaitHeader []) =
    Handled (the (rl_parse lib (head @ crlfcrlf @ body)))"
  using assms by (rule request_pieces)

definition demo_head :: bytes where
  "demo_head = [65, 66, 67]"

lemma demo_parses: "parses_request demo_rtsp_lib demo_head ([97, 98, 99])"
proof -
  have s: "search crlfcrlf (demo_head @ crlfcrlf) = Some (length demo_head)" "length ([97, 98, 99]) = 3"
    by code_simp+
  have "content_length \<lparr>msg_command = ascii ''ANNOUNCE'', msg_target = [], msg_seq = 1,
       msg_options = [(ascii ''Content-length'', ascii ''3'')], msg_payload = []\<rparr> = 3"
    by code_simp
  then show ?thesis using s by (simp add: parses_request_def demo_rtsp_lib_def)
qed

theorem plain_request_handled_witness:
  "rtsp_reads demo_rtsp_lib (map (Pair False) ([take 1 demo_head] @ (drop 1 demo_head @ crlfcrlf) #
      [[97, 98], [99]])) (AwaitHeader []) =
    Handled (the (rl_parse demo_rtsp_lib (demo_head @ crlfcrlf @ [97, 98, 99])))"
  by (rule plain_request_handled [OF demo_parses])
    (simp_all add: demo_head_def crlfcrlf_def msg_buf_size_def)

text \<open>A request whose blank line is cut by the end of a read is never recognised: each read is
  searched on its own, so the connection keeps waiting for the header although the buffer holds the
  whole request, which in one read is handled.\<close>

theorem split_terminator_unseen:
  assumes "parses_request lib head body" and "0 < k" and "k < 4"
    and "search crlfcrlf (drop k crlfcrlf @ body) = None"
    and "length (head @ crlfcrlf @ body) < msg_buf_size"
  shows "rtsp_reads lib (map (Pair False) [head @ take k crlfcrlf, drop k crlfcrlf @ body]) (AwaitHeader []) =
      AwaitHeader (head @ crlfcrlf @ body) \<and>
    rtsp_reads lib [(False, head @ crlfcrlf @ body)] (AwaitHeader []) =
      Handled (the (rl_parse lib (head @ crlfcrlf @ body)))"
proof
  have four: "length crlfcrlf = 4" by (simp add: crlfcrlf_def)
  have join: "(head @ take k crlfcrlf) @ drop k crlfcrlf @ body = head @ crlfcrlf @ body"
    by (metis append_assoc append_take_drop_id)
  have "search crlfcrlf (head @ take k crlfcrlf @ drop k crlfcrlf) = Some (length head)"
    using assms(1) unfolding append_take_drop_id parses_request_def by (rule conjunct1)
  then have "search crlfcrlf (head @ take k crlfcrlf) = None"
    unfolding append_assoc [symmetric] by (rule search_prefix_None) (use assms(3) four in simp)
  then have none: "\<forall>c \<in> set [head @ take k crlfcrlf, drop k crlfcrlf @ body]. search crlfcrlf c = None"
    using assms(4) by simp
  have cat: "[] @ concat [head @ take k crlfcrlf, drop k crlfcrlf @ body] = head @ crlfcrlf @ body"
    using join by simp
  show "rtsp_reads lib (map (Pair False) [head @ take k crlfcrlf, drop k crlfcrlf @ body])
      (AwaitHeader []) = AwaitHeader (head @ crlfcrlf @ body)"
    by (rule header_reads [OF none, of "[]" lib, unfolded cat, OF assms(5)])
  have "head @ crlfcrlf @ body \<noteq> []" by (simp add: crlfcrlf_def)
  then show "rtsp_reads lib [(False, head @ crlfcrlf @ body)] (AwaitHeader []) =
      Handled (the (rl_parse lib (head @ crlfcrlf @ body)))"
    using request_pieces [OF assms(1), of "[]" "head @ crlfcrlf @ body" "[]"] assms(5) four by simp
qed

theorem split_terminator_unseen_witness:
  "rtsp_reads demo_rtsp_lib (map (Pair False) [demo_head @ take 2 crlfcrlf, drop 2 crlfcrlf @ [97, 98, 99]])
      (AwaitHeader []) = AwaitHeader (demo_head @ crlfcrlf @ [97, 98, 99]) \<and>
    rtsp_reads demo_rtsp_lib [(False, demo_head @ crlfcrlf @ [97, 98, 99])] (AwaitHeader []) =
      Handled (the (rl_parse demo_rtsp_lib (demo_head @ crlfcrlf @ [97, 98, 99])))"
  by (rule split_terminator_unseen [OF demo_parses])
    (simp_all add: demo_head_def crlfcrlf_def msg_buf_size_def starts_with_def)

theorem encrypted_request_authentic_witness:
  "\<exists>req. rtsp_reads demo_rtsp_lib [(False, be_bytes 4 (0x80000004 :: u32) @ replicate 20 0), (False, crlfcrlf)]
      AwaitEncryptedHeader = Handled req \<and>
    (\<exists>header c plaintext. length header = 24 \<and> header_is_encrypted header \<and>
      length c = unat (header_payload_length header) \<and> length header + length c < msg_buf_size \<and>
      rl_decrypt demo_rtsp_lib (rtsp_iv 0x43 (of_be_bytes (take 4 (drop 4 header)))) (take 16 (drop 8 header)) c =
        Some plaintext \<and>
      search crlfcrlf plaintext \<noteq> None \<and> rl_parse demo_rtsp_lib plaintext = Some req)"
proof -
  let ?rs = "[(False, be_bytes 4 (0x80000004 :: u32) @ replicate 20 0), (False, crlfcrlf)]"
  have "case rtsp_reads demo_rtsp_lib ?rs AwaitEncryptedHeader of Handled req \<Rightarrow> True | _ \<Rightarrow> False"
    by code_simp
  then obtain req where "rtsp_reads demo_rtsp_lib ?rs AwaitEncryptedHeader = Handled req"
    by (auto split: rtsp_socket.splits)
  then show ?thesis using encrypted_request_authentic by blast
qed

end
