(* ===== verification/StreamConfig.thy ===== *)
theory StreamConfig
  imports RtspMessage "HOL-Library.Signed_Division"
begin

text \<open>
  From the announce of a client to the configuration of its streams: \<open>cmd_announce\<close> of
  \<^verbatim>\<open>src/rtsp.cpp\<close> up to the allocation of the session, and what the encoders make of the result
  (\<open>sanitize_config\<close> of \<^verbatim>\<open>src/video.cpp\<close>, \<open>sanitize_audio_config\<close>, \<open>map_stream\<close>, \<open>stream_configs\<close> and
  \<open>apply_surround_params\<close> of \<^verbatim>\<open>src/audio.cpp\<close>). Values the code keeps in an \<open>int\<close> are \<open>int\<close> here, in
  the range of 32 bits because the parser checks it. The two floating point formulas, the protocol
  library's flags and the configuration of the host are parameters.
\<close>

section \<open>The configuration\<close>

record stream_params =
  sp_channelCount :: int
  sp_streams :: int
  sp_coupledStreams :: int
  sp_mapping :: "u8 list"

text \<open>\<open>customStreamParams\<close> is \<open>None\<close> until it is assigned.\<close>

record audio_config =
  ac_packetDuration :: int
  ac_channels :: int
  ac_mask :: int
  ac_custom :: "stream_params option"
  ac_high_quality :: bool
  ac_host_audio :: bool
  ac_custom_surround :: bool
  ac_continuous :: bool

record monitor_config =
  vc_width :: int
  vc_height :: int
  vc_framerate :: int
  vc_framerateX100 :: int
  vc_bitrate :: int
  vc_slicesPerFrame :: int
  vc_numRefFrames :: int
  vc_encoderCscMode :: int
  vc_videoFormat :: int
  vc_dynamicRange :: int
  vc_chromaSamplingType :: int
  vc_enableIntraRefresh :: int

record stream_config =
  sc_audio :: audio_config
  sc_monitor :: monitor_config
  sc_packetsize :: int
  sc_minRequiredFecPackets :: int
  sc_mlFeatureFlags :: int
  sc_controlProtocolType :: int
  sc_audioQosType :: int
  sc_videoQosType :: int
  sc_encryptionFlagsEnabled :: u32

text \<open>What the announce reads from elsewhere: flags of the protocol library, settings of the host, the
  active codecs, the encryption mode of the client's network, and the two formulas in floating point.\<close>

record announce_env =
  ae_SS_ENC_VIDEO :: u32
  ae_SS_ENC_AUDIO :: u32
  ae_packetsize :: int
  ae_fec_percentage :: int
  ae_active_hevc_mode :: int
  ae_active_av1_mode :: int
  ae_encryption_mode :: int
  ae_fps_differs :: "int \<Rightarrow> int \<Rightarrow> bool"
  ae_without_fec :: "int \<Rightarrow> int \<Rightarrow> int"

abbreviation (input) "ENCRYPTION_MODE_NEVER \<equiv> 0 :: int"
abbreviation (input) "ENCRYPTION_MODE_MANDATORY \<equiv> 2 :: int"
abbreviation (input) "PACKETSIZE_MIN \<equiv> 200 :: int"
abbreviation (input) "PACKETSIZE_MAX \<equiv> 65535 :: int"

section \<open>The arguments\<close>

definition announce_defaults :: "(string \<times> string) list" where
  "announce_defaults =
    [(''x-nv-video[0].encoderCscMode'', ''0''),
     (''x-nv-vqos[0].bitStreamFormat'', ''0''),
     (''x-nv-video[0].dynamicRangeMode'', ''0''),
     (''x-nv-aqos.packetDuration'', ''5''),
     (''x-nv-general.useReliableUdp'', ''1''),
     (''x-nv-vqos[0].fec.minRequiredFecPackets'', ''0''),
     (''x-nv-general.featureFlags'', ''135''),
     (''x-ml-general.featureFlags'', ''0''),
     (''x-nv-vqos[0].qosTrafficType'', ''5''),
     (''x-nv-aqos.qosTrafficType'', ''4''),
     (''x-ml-video.configuredBitrateKbps'', ''0''),
     (''x-ss-general.encryptionEnabled'', ''0''),
     (''x-ss-video[0].chromaSamplingType'', ''0''),
     (''x-ss-video[0].intraRefresh'', ''0''),
     (''x-nv-video[0].clientRefreshRateX100'', ''0'')]"

definition fill_defaults :: "(bytes \<rightharpoonup> bytes) \<Rightarrow> (bytes \<rightharpoonup> bytes)" where
  "fill_defaults args = fold (\<lambda>(n, v). emplace (ascii n) (ascii v)) announce_defaults args"

text \<open>A missing name and a value that is no integer of the type both throw, which is caught: 400.\<close>

definition int_arg :: "(bytes \<rightharpoonup> bytes) \<Rightarrow> string \<Rightarrow> int option" where
  "int_arg args name = Option.bind (args (ascii name)) (parse_integer (- (2 ^ 31)) (2 ^ 31 - 1))"

definition int64_arg :: "(bytes \<rightharpoonup> bytes) \<Rightarrow> string \<Rightarrow> int option" where
  "int64_arg args name = Option.bind (args (ascii name)) parse_int64"

definition uint32_arg :: "(bytes \<rightharpoonup> bytes) \<Rightarrow> string \<Rightarrow> u32 option" where
  "uint32_arg args name =
    map_option of_int (Option.bind (args (ascii name)) (parse_integer 0 (2 ^ 32 - 1)))"

definition limit_packetsize :: "int \<Rightarrow> int \<Rightarrow> int" where
  "limit_packetsize limit packetsize =
    (if limit \<noteq> 0 \<and> limit < packetsize
     then if limit < PACKETSIZE_MIN \<or> PACKETSIZE_MAX < limit then packetsize else limit
     else packetsize)"

definition check_framerateX100 :: "announce_env \<Rightarrow> int \<Rightarrow> int \<Rightarrow> int" where
  "check_framerateX100 env framerateX100 framerate =
    (if 0 < framerateX100 \<and> ae_fps_differs env framerateX100 framerate then 0 else framerateX100)"

text \<open>The audio part, in the order of the code; then the stream; then the monitor with the bitrate the
  client configured.\<close>

definition parse_audio_args :: "(bytes \<rightharpoonup> bytes) \<Rightarrow> bool \<Rightarrow> audio_config option" where
  "parse_audio_args args host_audio =
    Option.bind (int_arg args ''x-nv-audio.surround.numChannels'') (\<lambda>channels.
    Option.bind (int_arg args ''x-nv-audio.surround.channelMask'') (\<lambda>channelMask.
    Option.bind (int_arg args ''x-nv-aqos.packetDuration'') (\<lambda>packetDuration.
    Option.bind (int_arg args ''x-nv-audio.surround.AudioQuality'') (\<lambda>quality.
    Some \<lparr>ac_packetDuration = packetDuration, ac_channels = channels, ac_mask = channelMask,
      ac_custom = None, ac_high_quality = (quality \<noteq> 0), ac_host_audio = host_audio,
      ac_custom_surround = False, ac_continuous = False\<rparr>))))"

definition parse_monitor_args :: "announce_env \<Rightarrow> (bytes \<rightharpoonup> bytes) \<Rightarrow> (monitor_config \<times> int) option" where
  "parse_monitor_args env args =
    Option.bind (int_arg args ''x-nv-video[0].clientViewportHt'') (\<lambda>height.
    Option.bind (int_arg args ''x-nv-video[0].clientViewportWd'') (\<lambda>width.
    Option.bind (int_arg args ''x-nv-video[0].maxFPS'') (\<lambda>framerate.
    Option.bind (int_arg args ''x-nv-video[0].clientRefreshRateX100'') (\<lambda>framerateX100.
    Option.bind (int_arg args ''x-nv-vqos[0].bw.maximumBitrateKbps'') (\<lambda>bitrate.
    Option.bind (int_arg args ''x-nv-video[0].videoEncoderSlicesPerFrame'') (\<lambda>slicesPerFrame.
    Option.bind (int_arg args ''x-nv-video[0].maxNumReferenceFrames'') (\<lambda>numRefFrames.
    Option.bind (int_arg args ''x-nv-video[0].encoderCscMode'') (\<lambda>encoderCscMode.
    Option.bind (int_arg args ''x-nv-vqos[0].bitStreamFormat'') (\<lambda>videoFormat.
    Option.bind (int_arg args ''x-nv-video[0].dynamicRangeMode'') (\<lambda>dynamicRange.
    Option.bind (int_arg args ''x-ss-video[0].chromaSamplingType'') (\<lambda>chromaSamplingType.
    Option.bind (int_arg args ''x-ss-video[0].intraRefresh'') (\<lambda>enableIntraRefresh.
    Option.bind (int64_arg args ''x-ml-video.configuredBitrateKbps'') (\<lambda>configuredBitrateKbps.
    Some (\<lparr>vc_width = width, vc_height = height, vc_framerate = framerate,
        vc_framerateX100 = check_framerateX100 env framerateX100 framerate, vc_bitrate = bitrate,
        vc_slicesPerFrame = slicesPerFrame, vc_numRefFrames = numRefFrames,
        vc_encoderCscMode = encoderCscMode, vc_videoFormat = videoFormat, vc_dynamicRange = dynamicRange,
        vc_chromaSamplingType = chromaSamplingType, vc_enableIntraRefresh = enableIntraRefresh\<rparr>,
      configuredBitrateKbps))))))))))))))"

definition parse_announce_args ::
    "announce_env \<Rightarrow> (bytes \<rightharpoonup> bytes) \<Rightarrow> bool \<Rightarrow> (stream_config \<times> int) option" where
  "parse_announce_args env args host_audio =
    Option.bind (parse_audio_args args host_audio) (\<lambda>audio.
    Option.bind (int_arg args ''x-nv-general.useReliableUdp'') (\<lambda>controlProtocolType.
    Option.bind (int_arg args ''x-nv-video[0].packetSize'') (\<lambda>packetsize.
    Option.bind (int_arg args ''x-nv-vqos[0].fec.minRequiredFecPackets'') (\<lambda>minRequiredFecPackets.
    Option.bind (int_arg args ''x-ml-general.featureFlags'') (\<lambda>mlFeatureFlags.
    Option.bind (int_arg args ''x-nv-aqos.qosTrafficType'') (\<lambda>audioQosType.
    Option.bind (int_arg args ''x-nv-vqos[0].qosTrafficType'') (\<lambda>videoQosType.
    Option.bind (uint32_arg args ''x-ss-general.encryptionEnabled'') (\<lambda>encryptionFlags.
    Option.bind (int_arg args ''x-nv-general.featureFlags'') (\<lambda>nvFeatureFlags.
    Option.bind (parse_monitor_args env args) (\<lambda>(monitor, configuredBitrateKbps).
    Some (\<lparr>sc_audio = audio, sc_monitor = monitor,
        sc_packetsize = limit_packetsize (ae_packetsize env) packetsize,
        sc_minRequiredFecPackets = minRequiredFecPackets, sc_mlFeatureFlags = mlFeatureFlags,
        sc_controlProtocolType = controlProtocolType, sc_audioQosType = audioQosType,
        sc_videoQosType = videoQosType,
        sc_encryptionFlagsEnabled =
          (if bit nvFeatureFlags 5 then encryptionFlags OR ae_SS_ENC_AUDIO env else encryptionFlags)\<rparr>,
      configuredBitrateKbps)))))))))))"

section \<open>Audio quality and layout\<close>

definition contains :: "bytes \<Rightarrow> bytes \<Rightarrow> bool" where
  "contains pat xs \<longleftrightarrow> search pat xs \<noteq> None"

text \<open>Stereo: the quality is told by the \<open>Host\<close> options of the request; the last one counts.\<close>

definition stereo_quality :: "(bytes \<times> bytes) list \<Rightarrow> bool \<Rightarrow> bool" where
  "stereo_quality options high_quality =
    fold (\<lambda>(name, content) q. if name = ascii ''Host'' then \<not> contains (ascii ''0.0.0.0'') content else q)
      options high_quality"

text \<open>The mapping of a custom layout is copied up to the first channel that does not exist.\<close>

fun custom_mapping :: "u8 \<Rightarrow> bytes \<Rightarrow> u8 list \<times> bool" where
  "custom_mapping c [] = ([], True)"
| "custom_mapping c (d # ds) =
    (if c \<le> d - 48 then ([d - 48], False)
     else (let (ms, valid) = custom_mapping c ds in ((d - 48) # ms, valid)))"

definition custom_layout :: "bytes \<Rightarrow> audio_config \<Rightarrow> audio_config" where
  "custom_layout surround_params a =
    (let c = surround_params ! 0 - 48; n = surround_params ! 1 - 48; m = surround_params ! 2 - 48 in
     if (c = 6 \<or> c = 8) \<and> int (unat c) = ac_channels a \<and> unat n + unat m = unat c \<and>
        length surround_params = unat c + 3
     then
       (let (ms, valid) = custom_mapping c (drop 3 surround_params) in
        a\<lparr>ac_custom := Some \<lparr>sp_channelCount = int (unat c), sp_streams = int (unat n),
            sp_coupledStreams = int (unat m), sp_mapping = ms\<rparr>,
          ac_custom_surround := valid\<rparr>)
     else a\<lparr>ac_custom_surround := False\<rparr>)"

definition audio_layout :: "bytes \<Rightarrow> bool \<Rightarrow> (bytes \<times> bytes) list \<Rightarrow> audio_config \<Rightarrow> audio_config" where
  "audio_layout surround_params continuous options a =
    (let a = (if ac_channels a = 2
              then a\<lparr>ac_high_quality := stereo_quality options (ac_high_quality a)\<rparr>
              else if 3 < length surround_params then custom_layout surround_params a
              else a) in
     if continuous then a\<lparr>ac_continuous := True\<rparr> else a)"

section \<open>The bitrate\<close>

text \<open>
  The bitrate the client configured, less FEC, audio and overhead; \<open>None\<close> when a signed product or
  difference leaves its type. The division of C++ truncates.
\<close>

definition audio_bitrate :: "audio_config \<Rightarrow> int" where
  "audio_bitrate a = (if ac_high_quality a then 256 else 96) * ac_channels a"

definition reduce_bitrate :: "int \<Rightarrow> int \<Rightarrow> int \<Rightarrow> int" where
  "reduce_bitrate amount parts kbps = kbps - min amount (kbps sdiv parts)"

definition int_range :: "nat \<Rightarrow> int \<Rightarrow> bool" where
  "int_range n x \<longleftrightarrow> - (2 ^ (n - 1)) \<le> x \<and> x < 2 ^ (n - 1)"

definition final_bitrate :: "announce_env \<Rightarrow> audio_config \<Rightarrow> int \<Rightarrow> int option" where
  "final_bitrate env a configured =
    (let without_fec = (if ae_fec_percentage env \<le> 80
           then ae_without_fec env configured (ae_fec_percentage env) else configured);
         without_audio = reduce_bitrate (audio_bitrate a) 5 without_fec;
         video = reduce_bitrate 500 10 without_audio in
     if int_range 32 (audio_bitrate a) \<and> int_range 64 without_audio \<and> int_range 64 video
     then Some (sint (of_int video :: u32)) else None)"

section \<open>The announce\<close>

text \<open>\<open>AnnounceReply\<close> is a refusal with its status, \<open>AnnounceUndefined\<close> a signed overflow; otherwise a
  session is allocated with the configuration.\<close>

datatype announce_result = AnnounceReply nat | AnnounceUndefined | AnnounceConfig stream_config

definition encryption_complies :: "announce_env \<Rightarrow> u32 \<Rightarrow> bool" where
  "encryption_complies env flags \<longleftrightarrow>
     \<not> (ae_encryption_mode env = ENCRYPTION_MODE_MANDATORY \<and>
        flags AND (ae_SS_ENC_VIDEO env OR ae_SS_ENC_AUDIO env) \<noteq>
          ae_SS_ENC_VIDEO env OR ae_SS_ENC_AUDIO env)"

definition check_announce :: "announce_env \<Rightarrow> stream_config \<Rightarrow> announce_result" where
  "check_announce env config =
    (if vc_videoFormat (sc_monitor config) = 1 \<and> ae_active_hevc_mode env = 1 then AnnounceReply 400
     else if vc_videoFormat (sc_monitor config) = 2 \<and> ae_active_av1_mode env = 1 then AnnounceReply 400
     else if \<not> encryption_complies env (sc_encryptionFlagsEnabled config) then AnnounceReply 403
     else AnnounceConfig config)"

definition negotiate ::
    "announce_env \<Rightarrow> bool \<Rightarrow> bytes \<Rightarrow> bool \<Rightarrow> (bytes \<times> bytes) list \<Rightarrow> bytes \<Rightarrow> announce_result" where
  "negotiate env host_audio surround_params continuous options payload =
    (case parse_announce_payload payload of
       None \<Rightarrow> AnnounceReply 400
     | Some parsed \<Rightarrow>
         (case parse_announce_args env (fill_defaults (an_attributes parsed)) host_audio of
            None \<Rightarrow> AnnounceReply 400
          | Some (config, configuredBitrateKbps) \<Rightarrow>
              let config = config\<lparr>sc_audio := audio_layout surround_params continuous options (sc_audio config)\<rparr> in
              if configuredBitrateKbps = 0 then check_announce env config
              else case final_bitrate env (sc_audio config) configuredBitrateKbps of
                  None \<Rightarrow> AnnounceUndefined
                | Some kbps \<Rightarrow>
                    check_announce env (config\<lparr>sc_monitor := (sc_monitor config)\<lparr>vc_bitrate := kbps\<rparr>\<rparr>)))"

section \<open>What the encoders make of it\<close>

definition clamp :: "int \<Rightarrow> int \<Rightarrow> int \<Rightarrow> int" where
  "clamp lo hi v = (if v < lo then lo else if hi < v then hi else v)"

definition clamp_bitrate :: "int \<Rightarrow> int" where
  "clamp_bitrate = clamp 500 100000"

definition clamp_framerate :: "int \<Rightarrow> int" where
  "clamp_framerate = clamp 10 240"

definition sanitize_config :: "int \<Rightarrow> monitor_config \<Rightarrow> monitor_config" where
  "sanitize_config max_bitrate c =
    (let kbps = clamp_bitrate (vc_bitrate c) in
     c\<lparr>vc_bitrate := (if 0 < max_bitrate then min kbps max_bitrate else kbps),
       vc_framerate := clamp_framerate (vc_framerate c),
       vc_width := clamp 64 7680 (vc_width c),
       vc_height := clamp 64 4320 (vc_height c),
       vc_slicesPerFrame := clamp 1 16 (vc_slicesPerFrame c),
       vc_numRefFrames := clamp 0 4 (vc_numRefFrames c),
       vc_videoFormat := (if vc_videoFormat c < 0 \<or> 2 < vc_videoFormat c then 0 else vc_videoFormat c),
       vc_chromaSamplingType :=
         (if vc_chromaSamplingType c < 0 \<or> 1 < vc_chromaSamplingType c then 0 else vc_chromaSamplingType c),
       vc_dynamicRange :=
         (if vc_dynamicRange c < 0 \<or> 1 < vc_dynamicRange c then 0 else vc_dynamicRange c)\<rparr>)"

definition sanitize_audio_config :: "audio_config \<Rightarrow> audio_config" where
  "sanitize_audio_config c =
    c\<lparr>ac_channels := (if ac_channels c \<noteq> 2 \<and> ac_channels c \<noteq> 6 \<and> ac_channels c \<noteq> 8 then 2 else ac_channels c),
      ac_packetDuration :=
        (if ac_packetDuration c \<le> 0 \<or> 20 < ac_packetDuration c then 5 else ac_packetDuration c)\<rparr>"

record opus_stream_config =
  os_sampleRate :: nat
  os_channelCount :: int
  os_streams :: int
  os_coupledStreams :: int
  os_mapping :: "u8 list"
  os_bitrate :: nat

definition map_stereo :: "u8 list" where "map_stereo = [0, 1]"
definition map_surround51 :: "u8 list" where "map_surround51 = [0, 1, 2, 3, 4, 5]"
definition map_surround71 :: "u8 list" where "map_surround71 = [0, 1, 2, 3, 4, 5, 6, 7]"

definition stream_configs :: "opus_stream_config list" where
  "stream_configs =
    [\<lparr>os_sampleRate = 48000, os_channelCount = 2, os_streams = 1, os_coupledStreams = 1,
       os_mapping = map_stereo, os_bitrate = 96000\<rparr>,
     \<lparr>os_sampleRate = 48000, os_channelCount = 2, os_streams = 1, os_coupledStreams = 1,
       os_mapping = map_stereo, os_bitrate = 512000\<rparr>,
     \<lparr>os_sampleRate = 48000, os_channelCount = 6, os_streams = 4, os_coupledStreams = 2,
       os_mapping = map_surround51, os_bitrate = 256000\<rparr>,
     \<lparr>os_sampleRate = 48000, os_channelCount = 6, os_streams = 6, os_coupledStreams = 0,
       os_mapping = map_surround51, os_bitrate = 1536000\<rparr>,
     \<lparr>os_sampleRate = 48000, os_channelCount = 8, os_streams = 5, os_coupledStreams = 3,
       os_mapping = map_surround71, os_bitrate = 450000\<rparr>,
     \<lparr>os_sampleRate = 48000, os_channelCount = 8, os_streams = 8, os_coupledStreams = 0,
       os_mapping = map_surround71, os_bitrate = 2048000\<rparr>]"

definition map_stream :: "int \<Rightarrow> bool \<Rightarrow> nat" where
  "map_stream channels quality =
    (let shift = (if quality then 1 else 0) in
     if channels = 2 then 0 + shift else if channels = 6 then 2 + shift
     else if channels = 8 then 4 + shift else 0)"

definition apply_surround_params :: "stream_params \<Rightarrow> opus_stream_config \<Rightarrow> opus_stream_config" where
  "apply_surround_params p stream =
    stream\<lparr>os_channelCount := sp_channelCount p, os_streams := sp_streams p,
      os_coupledStreams := sp_coupledStreams p, os_mapping := sp_mapping p\<rparr>"

text \<open>The layout the capture and the encoder of a session use.\<close>

definition opus_stream :: "audio_config \<Rightarrow> opus_stream_config" where
  "opus_stream config =
    (let stream = stream_configs ! map_stream (ac_channels config) (ac_high_quality config) in
     if ac_custom_surround config
     then (case ac_custom config of Some p \<Rightarrow> apply_surround_params p stream | None \<Rightarrow> stream)
     else stream)"

section \<open>Facts\<close>

definition layout_ok :: "audio_config \<Rightarrow> bool" where
  "layout_ok a \<longleftrightarrow> (if ac_custom_surround a then
     (case ac_custom a of None \<Rightarrow> False | Some p \<Rightarrow>
        (ac_channels a = 6 \<or> ac_channels a = 8) \<and> sp_channelCount p = ac_channels a \<and>
        0 \<le> sp_coupledStreams p \<and> 0 \<le> sp_streams p \<and>
        sp_streams p + sp_coupledStreams p = ac_channels a \<and> int (length (sp_mapping p)) = ac_channels a \<and>
        list_all (\<lambda>x. unat x < nat (ac_channels a)) (sp_mapping p)) else True)"

lemma custom_mapping_valid:
  "custom_mapping c ds = (ms, True) \<Longrightarrow> length ms = length ds \<and> list_all (\<lambda>x. x < c) ms"
  by (induction ds arbitrary: ms) (auto split: if_splits prod.splits)

lemma custom_layout_ok: "layout_ok (custom_layout sp a)"
proof -
  let ?c = "sp ! 0 - 48" and ?n = "sp ! 1 - 48" and ?m = "sp ! 2 - 48"
  obtain ms valid where m: "custom_mapping ?c (drop 3 sp) = (ms, valid)" by fastforce
  show ?thesis
  proof (cases "(?c = 6 \<or> ?c = 8) \<and> int (unat ?c) = ac_channels a \<and> unat ?n + unat ?m = unat ?c \<and>
      length sp = unat ?c + 3")
    case True
    have "length ms = unat ?c \<and> list_all (\<lambda>x. unat x < unat ?c) ms" if "valid"
      using custom_mapping_valid [of ?c "drop 3 sp" ms] m that True
      by (auto simp: word_less_nat_alt)
    moreover have "ac_channels a = 6 \<or> ac_channels a = 8" using True by auto
    moreover have "int (unat ?n) + int (unat ?m) = ac_channels a" using True by linarith
    ultimately show ?thesis using True m by (auto simp: custom_layout_def layout_ok_def Let_def)
  next
    case False
    then show ?thesis by (simp only: custom_layout_def Let_def if_False) (simp add: layout_ok_def)
  qed
qed

lemma audio_layout_ok: "\<not> ac_custom_surround a \<Longrightarrow> layout_ok (audio_layout sp cont opts a)"
proof -
  assume a: "\<not> ac_custom_surround a"
  have cont: "layout_ok (b\<lparr>ac_continuous := True\<rparr>) = layout_ok b" for b by (simp add: layout_ok_def split: option.split)
  have "layout_ok (a\<lparr>ac_high_quality := q\<rparr>)" "layout_ok a" for q using a by (simp_all add: layout_ok_def)
  then show ?thesis by (simp add: audio_layout_def Let_def cont custom_layout_ok)
qed

lemma parse_audio_plain: "parse_audio_args args host = Some a \<Longrightarrow> \<not> ac_custom_surround a"
  by (auto simp: parse_audio_args_def bind_Some)

lemma parse_announce_audio:
  "parse_announce_args env args host = Some (config, kbps) \<Longrightarrow> \<not> ac_custom_surround (sc_audio config)"
  by (auto simp: parse_announce_args_def bind_Some dest: parse_audio_plain)

lemma check_announce_config:
  "check_announce env config = AnnounceConfig c \<Longrightarrow> c = config \<and> encryption_complies env (sc_encryptionFlagsEnabled c) \<and>
   (vc_videoFormat (sc_monitor c) = 1 \<longrightarrow> ae_active_hevc_mode env \<noteq> 1) \<and>
   (vc_videoFormat (sc_monitor c) = 2 \<longrightarrow> ae_active_av1_mode env \<noteq> 1)"
  by (auto simp: check_announce_def split: if_splits)

text \<open>What an accepted announce was made of.\<close>

lemma negotiate_config:
  assumes "negotiate env host sp cont opts payload = AnnounceConfig config"
  obtains parsed config0 kbps where "parse_announce_payload payload = Some parsed"
    "parse_announce_args env (fill_defaults (an_attributes parsed)) host = Some (config0, kbps)"
    "sc_audio config = audio_layout sp cont opts (sc_audio config0)"
    "sc_encryptionFlagsEnabled config = sc_encryptionFlagsEnabled config0"
    "sc_packetsize config = sc_packetsize config0"
    "sc_monitor config = (if kbps = 0 then sc_monitor config0
       else (sc_monitor config0)\<lparr>vc_bitrate := the (final_bitrate env (sc_audio config) kbps)\<rparr>)"
    "check_announce env config = AnnounceConfig config"
proof -
  obtain parsed where p: "parse_announce_payload payload = Some parsed"
    using assms by (auto simp: negotiate_def split: option.splits)
  then obtain config0 kbps where
    c: "parse_announce_args env (fill_defaults (an_attributes parsed)) host = Some (config0, kbps)"
    using assms by (auto simp: negotiate_def split: option.splits)
  let ?c = "config0\<lparr>sc_audio := audio_layout sp cont opts (sc_audio config0)\<rparr>"
  show thesis
  proof (cases "kbps = 0")
    case True
    then have "check_announce env ?c = AnnounceConfig config"
      using assms p c by (simp add: negotiate_def)
    then show thesis using that [OF p c] check_announce_config [of env ?c config] True by simp
  next
    case False
    then obtain v where v: "final_bitrate env (sc_audio ?c) kbps = Some v"
      and "check_announce env (?c\<lparr>sc_monitor := (sc_monitor ?c)\<lparr>vc_bitrate := v\<rparr>\<rparr>) = AnnounceConfig config"
      using assms p c by (auto simp: negotiate_def Let_def split: option.splits)
    then show thesis
      using that [OF p c] check_announce_config [of env "?c\<lparr>sc_monitor := (sc_monitor ?c)\<lparr>vc_bitrate := v\<rparr>\<rparr>" config]
        False by simp
  qed
qed

lemma preset_ok:
  "\<exists>st. stream_configs ! map_stream ch q = st \<and> os_streams st + os_coupledStreams st = os_channelCount st \<and>
     0 \<le> os_coupledStreams st \<and> 0 \<le> os_streams st \<and>
     int (length (os_mapping st)) = os_channelCount st \<and>
     list_all (\<lambda>x. unat x < nat (os_channelCount st)) (os_mapping st) \<and>
     (ch = 2 \<or> ch = 6 \<or> ch = 8 \<longrightarrow> os_channelCount st = ch)"
  by (auto simp: map_stream_def stream_configs_def map_stereo_def map_surround51_def map_surround71_def Let_def)

text \<open>Whatever a client announces: when the announce is accepted, the layout the encoder gets from
  it is one Opus can use. The channels are 2, 6 or 8 and those of the configuration, the streams add
  up to the channels, and the mapping names one existing channel for each channel.\<close>

theorem opus_layout_valid:
  assumes "negotiate env host sp cont opts payload = AnnounceConfig config"
  shows "let a = sanitize_audio_config (sc_audio config); st = opus_stream a in
    ac_channels a \<in> {2, 6, 8} \<and> os_channelCount st = ac_channels a \<and>
    0 \<le> os_streams st \<and> 0 \<le> os_coupledStreams st \<and> os_streams st + os_coupledStreams st = os_channelCount st \<and>
    int (length (os_mapping st)) = os_channelCount st \<and>
    list_all (\<lambda>x. unat x < nat (os_channelCount st)) (os_mapping st)"
proof -
  let ?a = "sanitize_audio_config (sc_audio config)"
  from assms have "layout_ok (sc_audio config)"
    by (rule negotiate_config) (use audio_layout_ok parse_announce_audio in metis)
  then have ok: "layout_ok ?a"
    by (auto simp: layout_ok_def sanitize_audio_config_def split: option.splits if_splits)
  have ch: "ac_channels ?a \<in> {2, 6, 8}" by (simp add: sanitize_audio_config_def)
  show ?thesis
  proof (cases "ac_custom_surround ?a")
    case True
    then obtain p where "ac_custom ?a = Some p" using ok by (auto simp: layout_ok_def split: option.splits)
    then show ?thesis
      using ok ch True by (simp add: layout_ok_def opus_stream_def apply_surround_params_def Let_def)
  next
    case False
    then show ?thesis
      using preset_ok [of "ac_channels ?a" "ac_high_quality ?a"] ch
      by (auto simp: opus_stream_def Let_def)
  qed
qed

definition ascii_args :: "(string \<times> string) list \<Rightarrow> (bytes \<rightharpoonup> bytes)" where
  "ascii_args xs = map_of (map (\<lambda>(n, v). (ascii n, ascii v)) xs)"

lemma ascii_args_at: "ascii_args xs (ascii k) = map_option ascii (map_of xs k)"
  by (induction xs) (auto simp: ascii_args_def ascii_inj)

lemma fold_emplace:
  "fold (\<lambda>(n, v). emplace (ascii n) (ascii v)) ys m (ascii k) =
    (case m (ascii k) of None \<Rightarrow> map_option ascii (map_of ys k) | Some v \<Rightarrow> Some v)"
proof (induction ys arbitrary: m)
  case (Cons y ys)
  then show ?case by (cases y) (auto simp: emplace_def ascii_inj split: option.splits)
qed (simp split: option.split)

lemma fill_defaults_at:
  "fill_defaults (ascii_args xs) (ascii k) =
    map_option ascii (case map_of xs k of Some v \<Rightarrow> Some v | None \<Rightarrow> map_of announce_defaults k)"
  unfolding fill_defaults_def fold_emplace ascii_args_at by (simp split: option.split)

definition demo_announce_env :: announce_env where
  "demo_announce_env = \<lparr>ae_SS_ENC_VIDEO = 2, ae_SS_ENC_AUDIO = 4, ae_packetsize = 0, ae_fec_percentage = 20,
     ae_active_hevc_mode = 0, ae_active_av1_mode = 0, ae_encryption_mode = 2,
     ae_fps_differs = (\<lambda>x f. f = 0), ae_without_fec = (\<lambda>b p. b * (100 - p) div 100)\<rparr>"

definition demo_attributes :: "(string \<times> string) list" where
  "demo_attributes =
    [(''x-nv-audio.surround.numChannels'', ''6''), (''x-nv-audio.surround.channelMask'', ''63''),
     (''x-nv-audio.surround.AudioQuality'', ''0''), (''x-nv-video[0].packetSize'', ''1024''),
     (''x-nv-video[0].clientViewportHt'', ''1080''), (''x-nv-video[0].clientViewportWd'', ''1920''),
     (''x-nv-video[0].maxFPS'', ''60''), (''x-nv-vqos[0].bw.maximumBitrateKbps'', ''20000''),
     (''x-nv-video[0].videoEncoderSlicesPerFrame'', ''1''), (''x-nv-video[0].maxNumReferenceFrames'', ''1''),
     (''x-ml-video.configuredBitrateKbps'', ''20000''), (''x-ss-general.encryptionEnabled'', ''7'')]"

text \<open>The announce of a client, in full.\<close>

definition demo_payload :: bytes where
  "demo_payload = announce_text (ascii ''demo'') (map (\<lambda>(n, v). (ascii n, ascii v)) demo_attributes)"

definition demo_config :: stream_config where
  "demo_config = \<lparr>sc_audio = \<lparr>ac_packetDuration = 5, ac_channels = 6, ac_mask = 63,
       ac_custom = Some \<lparr>sp_channelCount = 6, sp_streams = 4, sp_coupledStreams = 2, sp_mapping = [0, 1, 2, 5, 4, 3]\<rparr>,
       ac_high_quality = False, ac_host_audio = False, ac_custom_surround = True, ac_continuous = False\<rparr>,
     sc_monitor = \<lparr>vc_width = 1920, vc_height = 1080, vc_framerate = 60, vc_framerateX100 = 0, vc_bitrate = 14924,
       vc_slicesPerFrame = 1, vc_numRefFrames = 1, vc_encoderCscMode = 0, vc_videoFormat = 0, vc_dynamicRange = 0,
       vc_chromaSamplingType = 0, vc_enableIntraRefresh = 0\<rparr>,
     sc_packetsize = 1024, sc_minRequiredFecPackets = 0, sc_mlFeatureFlags = 0, sc_controlProtocolType = 1,
     sc_audioQosType = 4, sc_videoQosType = 5, sc_encryptionFlagsEnabled = 7\<rparr>"

lemma demo_ints:
  "map (\<lambda>t. parse_integer (- (2 ^ 31)) (2 ^ 31 - 1) (ascii t))
     [''0'', ''1'', ''4'', ''5'', ''6'', ''60'', ''63'', ''135'', ''1024'', ''1080'', ''1920'', ''20000''] =
   map Some [0, 1, 4, 5, 6, 60, 63, 135, 1024, 1080, 1920, 20000]"
  "parse_int64 (ascii ''20000'') = Some 20000" "parse_integer 0 (2 ^ 32 - 1) (ascii ''7'') = Some 7"
  by (simp_all add: parse_int64_def parse_integer_def ascii_def decimal_digit_def Let_def)

lemma demo_parsed:
  "parse_announce_payload demo_payload =
    Some \<lparr>an_client = ascii ''demo'', an_attributes = ascii_args demo_attributes\<rparr>"
  unfolding demo_payload_def ascii_args_def
  by (rule parse_announce_text) code_simp+

lemma demo_negotiated:
  "negotiate demo_announce_env False (ascii ''642012543'') False [] demo_payload = AnnounceConfig demo_config"
proof -
  let ?args = "fill_defaults (ascii_args demo_attributes)"
  have audio: "parse_audio_args ?args False = Some \<lparr>ac_packetDuration = 5, ac_channels = 6, ac_mask = 63,
      ac_custom = None, ac_high_quality = False, ac_host_audio = False, ac_custom_surround = False,
      ac_continuous = False\<rparr>"
    unfolding parse_audio_args_def int_arg_def fill_defaults_at announce_defaults_def demo_attributes_def
    using demo_ints by simp
  have monitor: "parse_monitor_args demo_announce_env ?args = Some ((sc_monitor demo_config)\<lparr>vc_bitrate := 20000\<rparr>, 20000)"
    unfolding parse_monitor_args_def int_arg_def int64_arg_def fill_defaults_at announce_defaults_def demo_attributes_def
    using demo_ints by (simp add: demo_config_def check_framerateX100_def)
  have args: "parse_announce_args demo_announce_env ?args False =
      Some (demo_config\<lparr>sc_monitor := (sc_monitor demo_config)\<lparr>vc_bitrate := 20000\<rparr>,
        sc_audio := \<lparr>ac_packetDuration = 5, ac_channels = 6, ac_mask = 63,
          ac_custom = None, ac_high_quality = False, ac_host_audio = False, ac_custom_surround = False,
          ac_continuous = False\<rparr>\<rparr>, 20000)"
    unfolding parse_announce_args_def audio monitor
    unfolding int_arg_def uint32_arg_def fill_defaults_at
      announce_defaults_def demo_attributes_def
    using demo_ints by (simp add: demo_config_def demo_announce_env_def limit_packetsize_def bit_simps)
  have layout: "audio_layout (ascii ''642012543'') False [] \<lparr>ac_packetDuration = 5, ac_channels = 6, ac_mask = 63,
      ac_custom = None, ac_high_quality = False, ac_host_audio = False, ac_custom_surround = False,
      ac_continuous = False\<rparr> = sc_audio demo_config"
    by code_simp
  have rate: "final_bitrate demo_announce_env (sc_audio demo_config) 20000 = Some 14924" by code_simp
  have "check_announce demo_announce_env demo_config = AnnounceConfig demo_config" by code_simp
  moreover have "demo_config\<lparr>sc_monitor := (sc_monitor demo_config)\<lparr>vc_bitrate := 14924\<rparr>\<rparr> = demo_config"
    by (simp add: demo_config_def)
  ultimately show ?thesis
    by (simp add: negotiate_def demo_parsed args layout rate)
qed

theorem opus_layout_valid_witness:
  "let a = sanitize_audio_config (sc_audio demo_config); st = opus_stream a in
    ac_channels a \<in> {2, 6, 8} \<and> os_channelCount st = ac_channels a \<and>
    0 \<le> os_streams st \<and> 0 \<le> os_coupledStreams st \<and> os_streams st + os_coupledStreams st = os_channelCount st \<and>
    int (length (os_mapping st)) = os_channelCount st \<and>
    list_all (\<lambda>x. unat x < nat (os_channelCount st)) (os_mapping st)"
  by (rule opus_layout_valid [OF demo_negotiated])

lemma sdiv_pos: "0 \<le> x \<Longrightarrow> 0 < k \<Longrightarrow> (x :: int) sdiv k = x div k"
  by (simp add: signed_divide_int_def sgn_if)

lemma reduce_bounds:
  assumes "0 \<le> amount" and "0 \<le> w" and "1 < k"
  shows "0 \<le> reduce_bitrate amount k w" "reduce_bitrate amount k w \<le> w"
    "w - amount \<le> reduce_bitrate amount k w" "(k - 1) * w \<le> k * reduce_bitrate amount k w"
proof -
  have k: "0 < k" using assms(3) by simp
  define q where "q = w div k"
  have q: "0 \<le> q" "k * q \<le> w"
    unfolding q_def using assms(2) k by (simp_all add: pos_imp_zdiv_nonneg_iff minus_mod_eq_mult_div [symmetric])
  have "q \<le> k * q" using q(1) k by (simp add: mult_le_cancel_right1)
  then have qw: "q \<le> w" using q(2) by simp
  have r: "reduce_bitrate amount k w = w - min amount q"
    unfolding reduce_bitrate_def sdiv_pos [OF assms(2) k] q_def by (rule refl)
  show "0 \<le> reduce_bitrate amount k w" "reduce_bitrate amount k w \<le> w" "w - amount \<le> reduce_bitrate amount k w"
    unfolding r using qw assms(1) q(1) by auto
  have "k * min amount q \<le> k * q" using k by (intro mult_left_mono) auto
  then have "k * min amount q \<le> w" using q(2) by simp
  then show "(k - 1) * w \<le> k * reduce_bitrate amount k w"
    unfolding r by (simp add: algebra_simps)
qed

lemma sint_u32: "0 \<le> v \<Longrightarrow> v < 2 ^ 31 \<Longrightarrow> sint (of_int v :: u32) = v"
  by (simp add: signed_of_int signed_take_bit_int_eq_self)

text \<open>The bitrate the encoder gets from a configured one: what is left without FEC loses at most
  a fifth for audio and a tenth of the rest (500 kbps at most) for overhead, so at least 72 percent
  stay and it never exceeds what the client asked for. If the client announces so many channels that
  their audio bitrate has no place in 32 bits, the product overflows instead.\<close>

theorem final_bitrate_bounds:
  assumes "0 \<le> ac_channels a"
    and "w = (if ae_fec_percentage env \<le> 80 then ae_without_fec env configured (ae_fec_percentage env)
      else configured)" and "0 \<le> w" and "w < 2 ^ 31"
  shows "if audio_bitrate a < 2 ^ 31
    then \<exists>v. final_bitrate env a configured = Some v \<and> v \<le> w \<and> 72 * w \<le> 100 * v \<and>
      w - audio_bitrate a - 500 \<le> v
    else final_bitrate env a configured = None"
proof (cases "audio_bitrate a < 2 ^ 31")
  case True
  have a0: "0 \<le> audio_bitrate a" using assms(1) by (simp add: audio_bitrate_def)
  let ?u = "reduce_bitrate (audio_bitrate a) 5 w"
  note u = reduce_bounds [OF a0 assms(3), of 5, simplified]
  note v = reduce_bounds [of 500 ?u 10, simplified, OF u(1)]
  have "int_range 32 (audio_bitrate a)" "int_range 64 ?u" "int_range 64 (reduce_bitrate 500 10 ?u)"
    using True a0 u(1,2) v(1,2) assms(4) by (auto simp: int_range_def)
  moreover have "sint (of_int (reduce_bitrate 500 10 ?u) :: u32) = reduce_bitrate 500 10 ?u"
    by (rule sint_u32) (use u(2) v(1,2) assms(4) in linarith)+
  ultimately have "final_bitrate env a configured = Some (reduce_bitrate 500 10 ?u)"
    by (simp add: final_bitrate_def Let_def flip: assms(2))
  moreover have "reduce_bitrate 500 10 ?u \<le> w" "72 * w \<le> 100 * reduce_bitrate 500 10 ?u"
    "w - audio_bitrate a - 500 \<le> reduce_bitrate 500 10 ?u"
    using u v by linarith+
  ultimately show ?thesis using True by simp
next
  case False
  then show ?thesis by (simp add: final_bitrate_def Let_def int_range_def)
qed

theorem final_bitrate_bounds_witness:
  "if audio_bitrate (sc_audio demo_config) < 2 ^ 31
   then \<exists>v. final_bitrate demo_announce_env (sc_audio demo_config) 20000 = Some v \<and> v \<le> 16000 \<and>
     72 * 16000 \<le> 100 * v \<and> 16000 - audio_bitrate (sc_audio demo_config) - 500 \<le> v
   else final_bitrate demo_announce_env (sc_audio demo_config) 20000 = None"
  by (rule final_bitrate_bounds) (simp_all add: demo_config_def demo_announce_env_def)

text \<open>No code but the tests calls \<open>sanitize_config\<close>; applied twice it does what it does once.\<close>

lemma clamp_idem [simp]: "lo \<le> hi \<Longrightarrow> clamp lo hi (clamp lo hi v) = clamp lo hi v"
  by (simp add: clamp_def)

lemma clamp_bitrate_idem:
  "min (clamp_bitrate (min (clamp_bitrate v) m)) m = min (clamp_bitrate v) m"
  "clamp_bitrate (clamp_bitrate v) = clamp_bitrate v"
  by (auto simp: clamp_bitrate_def clamp_def min_def)

lemma sanitize_idempotent: "sanitize_config m (sanitize_config m c) = sanitize_config m c"
  unfolding sanitize_config_def Let_def
  by (rule monitor_config.equality) (simp_all add: clamp_bitrate_idem clamp_framerate_def)

end
