(* ===== verification/RtspServer.thy ===== *)
theory RtspServer
  imports StreamConfig ControlStream "HOL-Library.Multiset"
begin

text \<open>
  The RTSP server of \<^verbatim>\<open>src/rtsp.cpp\<close>: the pending launch and its timer, accepted connections, the
  commands, and the set of streaming sessions. A launch session is shared by the pending event and
  the connections that saw it, so it is an object of a store and the event holds its number. Starting
  a session (\<open>SessionLife\<close>) and the settings of the host are arguments of the steps.
\<close>

section \<open>State\<close>

record launch_session =
  la_id :: u32
  la_encrypted :: bool
  la_rtsp_iv_counter :: u32
  la_av_ping_payload :: bytes
  la_control_connect_data :: u32
  la_host_audio :: bool
  la_surround_params :: bytes
  la_continuous_audio :: bool
  la_client_name :: bytes
  la_client_cert :: bytes

record stream_slot =
  sl_id :: nat
  sl_config :: stream_config
  sl_state :: state_e
  sl_client_cert :: bytes
  sl_launch_session_id :: u32

text \<open>
  \<open>raised_timer\<close> is armed or not; a wait that expired has its handler in the queue of the io context,
  where neither \<open>cancel\<close> nor \<open>expires_after\<close> reaches it any more (\<open>rs_timer_due\<close>). \<open>rs_connections\<close>
  are the connections with their launch session and what they wait for. \<open>rs_allocated\<close> counts the
  sessions, \<open>rs_joined\<close> and \<open>rs_failed\<close> log those that were stopped and joined and those that did not
  start.
\<close>

record rtsp_server =
  rs_launches :: "nat \<rightharpoonup> launch_session"
  rs_launch_event :: "nat event_t"
  rs_timer_armed :: bool
  rs_timer_due :: nat
  rs_slots :: "stream_slot list"
  rs_allocated :: nat
  rs_joined :: "nat list"
  rs_failed :: "nat list"
  rs_connections :: "(nat \<times> rtsp_socket) list"

definition rtsp_server_new :: rtsp_server where
  "rtsp_server_new = \<lparr>rs_launches = Map.empty, rs_launch_event = event_new, rs_timer_armed = False,
     rs_timer_due = 0, rs_slots = [], rs_allocated = 0, rs_joined = [], rs_failed = [],
     rs_connections = []\<rparr>"

section \<open>The pending launch\<close>

text \<open>\<open>view(0s)\<close> and \<open>pop(0s)\<close> do not wait.\<close>

definition pending_launch :: "rtsp_server \<Rightarrow> nat option" where
  "pending_launch srv =
    (if ev_continue (rs_launch_event srv) then ev_status (rs_launch_event srv) else None)"

definition session_raise :: "nat \<Rightarrow> rtsp_server \<Rightarrow> rtsp_server" where
  "session_raise l srv =
    (if pending_launch srv \<noteq> None then srv
     else srv\<lparr>rs_launch_event := event_raise l (rs_launch_event srv), rs_timer_armed := True\<rparr>)"

definition session_clear :: "u32 \<Rightarrow> rtsp_server \<Rightarrow> rtsp_server" where
  "session_clear launch_session_id srv =
    (case pending_launch srv of
       None \<Rightarrow> srv
     | Some l \<Rightarrow>
         (case rs_launches srv l of
            None \<Rightarrow> srv
          | Some la \<Rightarrow>
              if la_id la \<noteq> launch_session_id then srv
              else srv\<lparr>rs_timer_armed := False, rs_launch_event := snd (event_try_pop (rs_launch_event srv))\<rparr>))"

text \<open>The time of an armed timer passes; later the io context runs the handler.\<close>

definition timer_expires :: "rtsp_server \<Rightarrow> rtsp_server" where
  "timer_expires srv =
    (if rs_timer_armed srv then srv\<lparr>rs_timer_armed := False, rs_timer_due := rs_timer_due srv + 1\<rparr> else srv)"

definition timer_handler :: "rtsp_server \<Rightarrow> rtsp_server" where
  "timer_handler srv =
    (if 0 < rs_timer_due srv
     then srv\<lparr>rs_timer_due := rs_timer_due srv - 1,
              rs_launch_event := snd (event_try_pop (rs_launch_event srv))\<rparr>
     else srv)"

text \<open>A new connection belongs to the pending launch and starts to read; without one it is closed.\<close>

definition handle_accept :: "rtsp_server \<Rightarrow> rtsp_server" where
  "handle_accept srv =
    (case pending_launch srv of
       None \<Rightarrow> srv
     | Some l \<Rightarrow>
         (case rs_launches srv l of
            None \<Rightarrow> srv
          | Some la \<Rightarrow>
              srv\<lparr>rs_connections := rs_connections srv @ [(l, socket_read (la_encrypted la) [])]\<rparr>))"

section \<open>The set of sessions\<close>

definition slots_insert :: "stream_slot \<Rightarrow> rtsp_server \<Rightarrow> rtsp_server" where
  "slots_insert s srv = srv\<lparr>rs_slots := rs_slots srv @ [s]\<rparr>"

text \<open>\<open>remove\<close> erases one session.\<close>

definition slots_remove :: "nat \<Rightarrow> rtsp_server \<Rightarrow> rtsp_server" where
  "slots_remove i srv = srv\<lparr>rs_slots := filter (\<lambda>s. sl_id s \<noteq> i) (rs_slots srv)\<rparr>"

definition stop_join_erase :: "(stream_slot \<Rightarrow> bool) \<Rightarrow> rtsp_server \<Rightarrow> rtsp_server" where
  "stop_join_erase P srv =
    srv\<lparr>rs_joined := rs_joined srv @ map sl_id (filter P (rs_slots srv)),
        rs_slots := filter (\<lambda>s. \<not> P s) (rs_slots srv)\<rparr>"

definition clear_sessions :: "bool \<Rightarrow> rtsp_server \<Rightarrow> rtsp_server" where
  "clear_sessions everything = stop_join_erase (\<lambda>s. everything \<or> sl_state s = STOPPING)"

definition clear_by_cert :: "bytes \<Rightarrow> rtsp_server \<Rightarrow> rtsp_server" where
  "clear_by_cert cert = stop_join_erase (\<lambda>s. sl_client_cert s = cert)"

definition session_count :: "rtsp_server \<Rightarrow> nat \<times> rtsp_server" where
  "session_count srv = (let srv = clear_sessions False srv in (length (rs_slots srv), srv))"

section \<open>Replies\<close>

record rtsp_response =
  re_status :: nat
  re_options :: "(bytes \<times> bytes) list"
  re_seq :: int
  re_payload :: bytes

definition cseq :: "rtsp_message \<Rightarrow> bytes \<times> bytes" where
  "cseq req = (ascii ''CSeq'', int_text (msg_seq req))"

definition reply :: "nat \<Rightarrow> (bytes \<times> bytes) list \<Rightarrow> rtsp_message \<Rightarrow> bytes \<Rightarrow> rtsp_response" where
  "reply status options req payload =
    \<lparr>re_status = status, re_options = options, re_seq = msg_seq req, re_payload = payload\<rparr>"

definition cmd_not_found :: "rtsp_message \<Rightarrow> rtsp_response" where
  "cmd_not_found req = reply 404 [] req []"

definition cmd_option :: "rtsp_message \<Rightarrow> rtsp_response" where
  "cmd_option req = reply 200 [cseq req] req []"

definition cmd_play :: "rtsp_message \<Rightarrow> rtsp_response" where
  "cmd_play req = reply 200 [cseq req] req []"

text \<open>What DESCRIBE reports about the host.\<close>

record describe_env =
  de_SS_ENC_CONTROL_V2 :: u32
  de_SS_ENC_VIDEO :: u32
  de_SS_ENC_AUDIO :: u32
  de_encryption_mode :: int
  de_capabilities :: u32
  de_ref_frames_invalidation :: bool
  de_active_hevc_mode :: int
  de_active_av1_mode :: int

definition encryption_supported :: "describe_env \<Rightarrow> u32" where
  "encryption_supported e = de_SS_ENC_CONTROL_V2 e OR de_SS_ENC_AUDIO e OR
    (if de_encryption_mode e \<noteq> ENCRYPTION_MODE_NEVER then de_SS_ENC_VIDEO e else 0)"

definition encryption_requested :: "describe_env \<Rightarrow> u32" where
  "encryption_requested e = de_SS_ENC_CONTROL_V2 e OR
    (if de_encryption_mode e = ENCRYPTION_MODE_MANDATORY then de_SS_ENC_VIDEO e OR de_SS_ENC_AUDIO e else 0)"

text \<open>The mapping of a layout as advertised: for normal quality surround the channels 3 to 5 are rotated
  to the left.\<close>

definition advertised_mapping :: "nat \<Rightarrow> u8 list" where
  "advertised_mapping x =
    (let m = os_mapping (stream_configs ! x) in
     if x = 2 \<or> x = 4 then m[3 := m ! 4, 4 := m ! 5, 5 := m ! 3] else m)"

definition surround_line :: "nat \<Rightarrow> bytes" where
  "surround_line x =
    (let st = stream_configs ! x in
     ascii ''a=fmtp:97 surround-params='' @ int_text (os_channelCount st) @ int_text (os_streams st) @
       int_text (os_coupledStreams st) @ map (\<lambda>d. d + 48) (advertised_mapping x))"

definition describe_lines :: "describe_env \<Rightarrow> bytes \<Rightarrow> bytes list" where
  "describe_lines e surround_params =
    [ascii ''a=x-ss-general.featureFlags:'' @ decimal_text (unat (de_capabilities e)),
     ascii ''a=x-ss-general.encryptionSupported:'' @ decimal_text (unat (encryption_supported e)),
     ascii ''a=x-ss-general.encryptionRequested:'' @ decimal_text (unat (encryption_requested e))] @
    (if de_ref_frames_invalidation e then [ascii ''a=x-nv-video[0].refPicInvalidation:1''] else []) @
    (if de_active_hevc_mode e \<noteq> 1 then [ascii ''sprop-parameter-sets=AAAAAU''] else []) @
    (if de_active_av1_mode e \<noteq> 1 then [ascii ''a=rtpmap:98 AV1/90000''] else []) @
    (if surround_params \<noteq> []
     then replicate 2 (ascii ''a=fmtp:97 surround-params='' @ surround_params) else []) @
    map surround_line [0..<6]"

definition cmd_describe :: "describe_env \<Rightarrow> launch_session \<Rightarrow> rtsp_message \<Rightarrow> rtsp_response" where
  "cmd_describe e la req =
    reply 200 [cseq req] req (concat (map (\<lambda>l. l @ [10]) (describe_lines e (la_surround_params la))))"

abbreviation (input) "VIDEO_STREAM_PORT \<equiv> 16 :: int"
abbreviation (input) "CONTROL_PORT \<equiv> 26 :: int"
abbreviation (input) "AUDIO_STREAM_PORT \<equiv> 27 :: int"

text \<open>SETUP. Without an equals sign in the target the second search starts behind its end and has no
  defined result.\<close>

definition setup_port :: "int \<Rightarrow> bytes \<Rightarrow> u16 option" where
  "setup_port base_port type =
    (if type = ascii ''audio'' then Some (map_port base_port AUDIO_STREAM_PORT)
     else if type = ascii ''video'' then Some (map_port base_port VIDEO_STREAM_PORT)
     else if type = ascii ''control'' then Some (map_port base_port CONTROL_PORT)
     else None)"

definition setup_echo :: "launch_session \<Rightarrow> bytes \<Rightarrow> bytes \<times> bytes" where
  "setup_echo la type =
    (if type = ascii ''control''
     then (ascii ''X-SS-Connect-Data'', decimal_text (unat (la_control_connect_data la)))
     else (ascii ''X-SS-Ping-Payload'', la_av_ping_payload la))"

definition cmd_setup :: "int \<Rightarrow> launch_session \<Rightarrow> rtsp_message \<Rightarrow> rtsp_response option" where
  "cmd_setup base_port la req =
    (case find_index (\<lambda>c. c = 61) (msg_target req) of
       None \<Rightarrow> None
     | Some eq \<Rightarrow>
         let type = takeWhile (\<lambda>c. c \<noteq> 47) (drop (eq + 1) (msg_target req)) in
         (case setup_port base_port type of
            None \<Rightarrow> Some (cmd_not_found req)
          | Some port \<Rightarrow>
              Some (reply 200
                [cseq req, (ascii ''Session'', ascii ''DEADBEEFCAFE;timeout = 90''),
                 (ascii ''Transport'', ascii ''server_port='' @ decimal_text (unat port)), setup_echo la type]
                req [])))"

text \<open>
  ANNOUNCE. \<open>start_fails\<close> is what \<open>session::start\<close> returns. The name of the client is recorded as soon
  as the payload parses. \<open>None\<close> is the undefined overflow.
\<close>

definition record_client :: "nat \<Rightarrow> bytes \<Rightarrow> rtsp_server \<Rightarrow> rtsp_server" where
  "record_client l payload srv =
    (case parse_announce_payload payload of
       None \<Rightarrow> srv
     | Some parsed \<Rightarrow>
         srv\<lparr>rs_launches := (\<lambda>k. if k = l
           then map_option (\<lambda>la. la\<lparr>la_client_name := an_client parsed\<rparr>) (rs_launches srv l)
           else rs_launches srv k)\<rparr>)"

definition alloc_session :: "stream_config \<Rightarrow> launch_session \<Rightarrow> rtsp_server \<Rightarrow> stream_slot \<times> rtsp_server" where
  "alloc_session config la srv =
    (\<lparr>sl_id = rs_allocated srv, sl_config = config, sl_state = STOPPED, sl_client_cert = la_client_cert la,
       sl_launch_session_id = la_id la\<rparr>,
     srv\<lparr>rs_allocated := rs_allocated srv + 1\<rparr>)"

definition set_slot_state :: "nat \<Rightarrow> state_e \<Rightarrow> rtsp_server \<Rightarrow> rtsp_server" where
  "set_slot_state i st srv =
    srv\<lparr>rs_slots := map (\<lambda>s. if sl_id s = i then s\<lparr>sl_state := st\<rparr> else s) (rs_slots srv)\<rparr>"

definition cmd_announce ::
    "announce_env \<Rightarrow> bool \<Rightarrow> nat \<Rightarrow> launch_session \<Rightarrow> rtsp_message \<Rightarrow> rtsp_server \<Rightarrow>
     (rtsp_response \<times> rtsp_server) option" where
  "cmd_announce env start_fails l la req srv =
    (let srv = record_client l (msg_payload req) srv in
     case negotiate env (la_host_audio la) (la_surround_params la) (la_continuous_audio la)
         (msg_options req) (msg_payload req) of
       AnnounceReply status \<Rightarrow> Some (reply status [cseq req] req [], srv)
     | AnnounceUndefined \<Rightarrow> None
     | AnnounceConfig config \<Rightarrow>
         let (slot, srv) = alloc_session config la srv; srv = slots_insert slot srv in
         if start_fails
         then Some (reply 500 [cseq req] req [],
           (slots_remove (sl_id slot) srv)\<lparr>rs_failed := rs_failed srv @ [sl_id slot]\<rparr>)
         else Some (reply 200 [cseq req] req [], set_slot_state (sl_id slot) RUNNING srv))"

section \<open>Connections\<close>

record rtsp_host =
  rh_announce :: announce_env
  rh_describe :: describe_env
  rh_base_port :: int
  rh_start_fails :: bool

definition handle_msg ::
    "rtsp_host \<Rightarrow> nat \<Rightarrow> launch_session \<Rightarrow> rtsp_message \<Rightarrow> rtsp_server \<Rightarrow> (rtsp_response \<times> rtsp_server) option" where
  "handle_msg h l la req srv =
    (if msg_command req = ascii ''OPTIONS'' then Some (cmd_option req, srv)
     else if msg_command req = ascii ''DESCRIBE'' then Some (cmd_describe (rh_describe h) la req, srv)
     else if msg_command req = ascii ''SETUP''
     then map_option (\<lambda>r. (r, srv)) (cmd_setup (rh_base_port h) la req)
     else if msg_command req = ascii ''ANNOUNCE''
     then cmd_announce (rh_announce h) (rh_start_fails h) l la req srv
     else if msg_command req = ascii ''PLAY'' then Some (cmd_play req, srv)
     else Some (cmd_not_found req, srv))"

text \<open>
  A response goes out encrypted if the launch session has a cipher, and counts its messages;
  \<open>serialize\<close> is the protocol library's.
\<close>

definition respond ::
    "rtsp_lib \<Rightarrow> (rtsp_response \<Rightarrow> bytes) \<Rightarrow> nat \<Rightarrow> rtsp_response \<Rightarrow> rtsp_server \<Rightarrow> bytes list \<times> rtsp_server" where
  "respond lib serialize l r srv =
    (case rs_launches srv l of
       None \<Rightarrow> ([], srv)
     | Some la \<Rightarrow>
         let (out, counter) = respond_bytes lib (la_encrypted la) (serialize r) (re_payload r)
               (la_rtsp_iv_counter la) in
         (out, srv\<lparr>rs_launches := (rs_launches srv)(l \<mapsto> la\<lparr>la_rtsp_iv_counter := counter\<rparr>)\<rparr>))"

definition bad_request :: rtsp_response where
  "bad_request = \<lparr>re_status = 400, re_options = [], re_seq = 0, re_payload = []\<rparr>"

text \<open>A connection that has read what it read: the handler runs once, then the socket is shut down.\<close>

definition finish_connection ::
    "rtsp_lib \<Rightarrow> (rtsp_response \<Rightarrow> bytes) \<Rightarrow> rtsp_host \<Rightarrow> nat \<Rightarrow> rtsp_socket \<Rightarrow> rtsp_server \<Rightarrow>
     (bytes list \<times> rtsp_server) option" where
  "finish_connection lib serialize h l sock srv =
    (case sock of
       Handled req \<Rightarrow>
         (case rs_launches srv l of
            None \<Rightarrow> Some ([], srv)
          | Some la \<Rightarrow>
              map_option (\<lambda>(r, srv). respond lib serialize l r srv) (handle_msg h l la req srv))
     | BadRequest \<Rightarrow> Some (respond lib serialize l bad_request srv)
     | _ \<Rightarrow> Some ([], srv))"

definition read_connection ::
    "rtsp_lib \<Rightarrow> (rtsp_response \<Rightarrow> bytes) \<Rightarrow> rtsp_host \<Rightarrow> nat \<Rightarrow> bool \<times> bytes \<Rightarrow> rtsp_server \<Rightarrow>
     (bytes list \<times> rtsp_server) option" where
  "read_connection lib serialize h k r srv =
    (let (l, sock) = rs_connections srv ! k; sock = rtsp_socket_step lib r sock;
         finished = (case sock of Handled _ \<Rightarrow> True | BadRequest \<Rightarrow> True | _ \<Rightarrow> False) in
     finish_connection lib serialize h l sock
       (srv\<lparr>rs_connections := (rs_connections srv)[k := (l, if finished then SockClosed else sock)]\<rparr>))"

section \<open>Runs\<close>

text \<open>What can happen. A new launch session has a number that was not used; a session stops by itself
  when it runs.\<close>

datatype rtsp_op =
    Launch nat launch_session
  | LaunchClear u32
  | TimerExpires
  | TimerHandler
  | Accept
  | Read rtsp_lib "rtsp_response \<Rightarrow> bytes" rtsp_host nat "bool \<times> bytes"
  | SessionStops nat
  | ClearSessions bool
  | ClearByCert bytes

definition rtsp_step :: "rtsp_op \<Rightarrow> rtsp_server \<Rightarrow> rtsp_server option" where
  "rtsp_step op srv =
    (case op of
       Launch l la \<Rightarrow>
         Some (if rs_launches srv l = None
               then session_raise l (srv\<lparr>rs_launches := (rs_launches srv)(l \<mapsto> la)\<rparr>) else srv)
     | LaunchClear i \<Rightarrow> Some (session_clear i srv)
     | TimerExpires \<Rightarrow> Some (timer_expires srv)
     | TimerHandler \<Rightarrow> Some (timer_handler srv)
     | Accept \<Rightarrow> Some (handle_accept srv)
     | Read lib serialize h k r \<Rightarrow>
         if k < length (rs_connections srv) then map_option snd (read_connection lib serialize h k r srv)
         else Some srv
     | SessionStops i \<Rightarrow>
         Some (if \<exists>s \<in> set (rs_slots srv). sl_id s = i \<and> sl_state s = RUNNING
               then set_slot_state i STOPPING srv else srv)
     | ClearSessions everything \<Rightarrow> Some (clear_sessions everything srv)
     | ClearByCert cert \<Rightarrow> Some (clear_by_cert cert srv))"

fun rtsp_run :: "rtsp_op list \<Rightarrow> rtsp_server \<Rightarrow> rtsp_server option" where
  "rtsp_run [] srv = Some srv"
| "rtsp_run (op # ops) srv = Option.bind (rtsp_step op srv) (rtsp_run ops)"

section \<open>Facts\<close>

text \<open>An invariant that every step keeps holds after a run; \<open>Q\<close> is what is known of the steps.\<close>

lemma rtsp_run_inv:
  assumes step: "\<And>op srv srv'. Q op \<Longrightarrow> P srv \<Longrightarrow> rtsp_step op srv = Some srv' \<Longrightarrow> P srv'"
  shows "rtsp_run ops srv = Some srv' \<Longrightarrow> list_all Q ops \<Longrightarrow> P srv \<Longrightarrow> P srv'"
proof (induction ops arbitrary: srv)
  case (Cons op ops)
  then obtain mid where "rtsp_step op srv = Some mid" "rtsp_run ops mid = Some srv'"
    by (auto simp: bind_Some)
  then show ?case using Cons step by auto
qed simp

subsection \<open>Sessions\<close>

text \<open>The fields of the server the sessions live in.\<close>

definition same_slots :: "rtsp_server \<Rightarrow> rtsp_server \<Rightarrow> bool" where
  "same_slots srv srv' \<longleftrightarrow> rs_slots srv' = rs_slots srv \<and> rs_allocated srv' = rs_allocated srv \<and>
     rs_joined srv' = rs_joined srv \<and> rs_failed srv' = rs_failed srv"

lemma same_slots_refl [simp]: "same_slots srv srv"
  by (simp add: same_slots_def)

lemma same_slots_launch [simp]:
  "same_slots srv (session_raise l srv)" "same_slots srv (session_clear i srv)"
  "same_slots srv (timer_expires srv)" "same_slots srv (timer_handler srv)" "same_slots srv (handle_accept srv)"
  "same_slots srv (record_client l p srv)" "same_slots srv (snd (respond lib ser l r srv))"
  by (auto simp: same_slots_def session_raise_def session_clear_def timer_expires_def timer_handler_def
      handle_accept_def record_client_def respond_def split: option.splits prod.splits)

lemma slots_of_update [simp]:
  "rs_slots (srv\<lparr>rs_connections := c\<rparr>) = rs_slots srv" "rs_slots (srv\<lparr>rs_launches := ls\<rparr>) = rs_slots srv"
  by simp_all

text \<open>A message changes the sessions only when it is an announce that was accepted.\<close>

datatype slot_change = Unchanged | Started stream_config | StartFailed

definition slots_after :: "slot_change \<Rightarrow> rtsp_server \<Rightarrow> rtsp_server \<Rightarrow> bool" where
  "slots_after ch srv srv' = (case ch of
     Unchanged \<Rightarrow> same_slots srv srv'
   | Started config \<Rightarrow>
       rs_allocated srv' = rs_allocated srv + 1 \<and> rs_joined srv' = rs_joined srv \<and> rs_failed srv' = rs_failed srv \<and>
       (\<exists>s. sl_id s = rs_allocated srv \<and> sl_config s = config \<and> sl_state s = RUNNING \<and>
          rs_slots srv' = rs_slots srv @ [s])
   | StartFailed \<Rightarrow>
       rs_allocated srv' = rs_allocated srv + 1 \<and> rs_joined srv' = rs_joined srv \<and>
       rs_failed srv' = rs_failed srv @ [rs_allocated srv] \<and> rs_slots srv' = rs_slots srv)"

definition fresh_slots :: "rtsp_server \<Rightarrow> bool" where
  "fresh_slots srv \<longleftrightarrow> (\<forall>s \<in> set (rs_slots srv). sl_id s < rs_allocated srv)"

lemma fresh_map: "fresh_slots srv \<Longrightarrow>
    map (\<lambda>s. if sl_id s = rs_allocated srv then f s else s) (rs_slots srv) = rs_slots srv"
  unfolding fresh_slots_def by (rule map_idI) auto

lemma fresh_filter: "fresh_slots srv \<Longrightarrow> filter (\<lambda>s. sl_id s \<noteq> rs_allocated srv) (rs_slots srv) = rs_slots srv"
  unfolding fresh_slots_def by (rule filter_True) auto

lemma cmd_announce_slots:
  assumes "cmd_announce env fails l la req srv = Some (r, srv')" and "fresh_slots srv"
  shows "slots_after (case negotiate env (la_host_audio la) (la_surround_params la) (la_continuous_audio la)
      (msg_options req) (msg_payload req) of AnnounceConfig c \<Rightarrow> if fails then StartFailed else Started c
      | _ \<Rightarrow> Unchanged) srv srv'"
proof -
  let ?srv = "record_client l (msg_payload req) srv"
  have same: "rs_slots ?srv = rs_slots srv" "rs_allocated ?srv = rs_allocated srv" "rs_joined ?srv = rs_joined srv"
    "rs_failed ?srv = rs_failed srv"
    using same_slots_launch(6) [of srv l "msg_payload req"] by (simp_all add: same_slots_def)
  show ?thesis
  proof (cases "negotiate env (la_host_audio la) (la_surround_params la) (la_continuous_audio la)
      (msg_options req) (msg_payload req)")
    case (AnnounceReply st)
    then show ?thesis using assms(1) by (auto simp: cmd_announce_def slots_after_def)
  next
    case AnnounceUndefined
    then show ?thesis using assms(1) by (simp add: cmd_announce_def)
  next
    case (AnnounceConfig c)
    then show ?thesis
      using assms fresh_map [OF assms(2), of "\<lambda>s. s\<lparr>sl_state := RUNNING\<rparr>"] fresh_filter [OF assms(2)] same
      by (auto simp: cmd_announce_def alloc_session_def slots_insert_def slots_remove_def set_slot_state_def
          slots_after_def Let_def split: if_splits)
  qed
qed

lemma slots_after_respond:
  "slots_after ch srv srv' \<Longrightarrow> slots_after ch srv (snd (respond lib ser l r srv'))"
  using same_slots_launch(7) [of srv' lib ser l r]
  by (cases ch) (simp_all add: slots_after_def same_slots_def)

lemma handle_msg_slots:
  assumes "handle_msg h l la req srv = Some (r, srv')" and "fresh_slots srv"
  obtains ch where "slots_after ch srv srv'"
    "\<forall>c. ch = Started c \<longrightarrow> (\<exists>host sp cont opts p. negotiate (rh_announce h) host sp cont opts p = AnnounceConfig c)"
proof (cases "msg_command req = ascii ''ANNOUNCE''")
  case True
  have ne: "ascii ''ANNOUNCE'' \<noteq> ascii ''OPTIONS''" "ascii ''ANNOUNCE'' \<noteq> ascii ''DESCRIBE''"
    "ascii ''ANNOUNCE'' \<noteq> ascii ''SETUP''"
    by (simp_all add: ascii_inj)
  have "cmd_announce (rh_announce h) (rh_start_fails h) l la req srv = Some (r, srv')"
    using assms(1) True ne by (simp add: handle_msg_def)
  from cmd_announce_slots [OF this assms(2)] show thesis
    by (rule that) (cases "negotiate (rh_announce h) (la_host_audio la) (la_surround_params la)
      (la_continuous_audio la) (msg_options req) (msg_payload req)"; force split: if_splits)
next
  case False
  then have "srv' = srv" using assms(1) by (auto simp: handle_msg_def split: if_splits)
  then show thesis by (intro that [of Unchanged]) (simp_all add: slots_after_def)
qed

lemma finish_connection_slots:
  assumes "finish_connection lib ser h l sock srv = Some (out, srv')" and "fresh_slots srv"
  obtains ch where "slots_after ch srv srv'"
    "\<forall>c. ch = Started c \<longrightarrow> (\<exists>host sp cont opts p. negotiate (rh_announce h) host sp cont opts p = AnnounceConfig c)"
proof -
  have un: "slots_after Unchanged srv srv" by (simp add: slots_after_def)
  consider (req) req la where "sock = Handled req" "rs_launches srv l = Some la" | (bad) "sock = BadRequest"
    | (other) "srv' = srv"
    using assms(1) by (cases sock) (auto simp: finish_connection_def split: option.splits)
  then show thesis
  proof cases
    case req
    then obtain r mid where m: "handle_msg h l la req srv = Some (r, mid)" "(out, srv') = respond lib ser l r mid"
      using assms(1) by (auto simp: finish_connection_def)
    obtain ch where ch: "slots_after ch srv mid"
      "\<forall>c. ch = Started c \<longrightarrow> (\<exists>host sp cont opts p. negotiate (rh_announce h) host sp cont opts p = AnnounceConfig c)"
      using handle_msg_slots [OF m(1) assms(2)] by blast
    have "srv' = snd (respond lib ser l r mid)" using m(2) by (metis snd_conv)
    then show thesis using that [OF _ ch(2)] slots_after_respond [OF ch(1)] by simp
  next
    case bad
    then have "srv' = snd (respond lib ser l bad_request srv)"
      using assms(1) by (simp add: finish_connection_def)
    then show thesis using slots_after_respond [OF un] by (intro that [of Unchanged]) auto
  next
    case other
    then show thesis using un by (intro that [of Unchanged]) simp_all
  qed
qed

definition negotiated_by :: "rtsp_op \<Rightarrow> stream_config \<Rightarrow> bool" where
  "negotiated_by op c \<longleftrightarrow> (case op of
     Read lib ser h k r \<Rightarrow>
       \<exists>host sp cont opts p. negotiate (rh_announce h) host sp cont opts p = AnnounceConfig c
   | _ \<Rightarrow> False)"

text \<open>Every step does one of three things to the sessions.\<close>

lemma rtsp_step_slots:
  assumes "rtsp_step op srv = Some srv'" and "fresh_slots srv"
  obtains (after) ch where "slots_after ch srv srv'" "\<forall>c. ch = Started c \<longrightarrow> negotiated_by op c"
    | (stops) i where "srv' = set_slot_state i STOPPING srv"
    | (erase) P where "srv' = stop_join_erase P srv"
proof -
  have same: thesis if "same_slots srv srv'"
    using that by (intro after [of Unchanged]) (simp_all add: slots_after_def)
  show thesis
  proof (cases op)
    case (Launch l la)
    have "same_slots srv (session_raise l (srv\<lparr>rs_launches := (rs_launches srv)(l \<mapsto> la)\<rparr>))"
      by (auto simp: same_slots_def session_raise_def)
    then have "same_slots srv srv'"
      using assms(1) Launch by (auto simp: rtsp_step_def split: if_splits)
    then show ?thesis by (rule same)
  next
    case (Read lib ser h k r)
    show ?thesis
    proof (cases "k < length (rs_connections srv)")
      case True
      obtain l sock c out where "finish_connection lib ser h l sock (srv\<lparr>rs_connections := c\<rparr>) = Some (out, srv')"
        using assms(1) Read True by (auto simp: rtsp_step_def read_connection_def Let_def split: prod.splits)
      moreover have "fresh_slots (srv\<lparr>rs_connections := c\<rparr>)" using assms(2) by (simp add: fresh_slots_def)
      ultimately obtain ch where ch: "slots_after ch (srv\<lparr>rs_connections := c\<rparr>) srv'"
        "\<forall>c. ch = Started c \<longrightarrow> (\<exists>host sp cont opts p. negotiate (rh_announce h) host sp cont opts p = AnnounceConfig c)"
        using finish_connection_slots by blast
      have "slots_after ch srv srv'"
        using ch(1) by (cases ch) (simp_all add: slots_after_def same_slots_def)
      then show ?thesis using ch(2) by (intro after) (simp_all add: negotiated_by_def Read)
    next
      case False
      then show ?thesis using assms(1) Read by (intro same) (simp add: rtsp_step_def)
    qed
  next
    case (SessionStops i)
    then show ?thesis using assms(1) stops same by (auto simp: rtsp_step_def split: if_splits)
  next
    case (ClearSessions everything)
    then show ?thesis using assms(1) by (intro erase [of "\<lambda>s. everything \<or> sl_state s = STOPPING"]) (simp add: rtsp_step_def clear_sessions_def)
  next
    case (ClearByCert cert)
    then show ?thesis using assms(1) by (intro erase [of "\<lambda>s. sl_client_cert s = cert"]) (simp add: rtsp_step_def clear_by_cert_def)
  qed (use assms(1) same same_slots_launch in \<open>auto simp: rtsp_step_def\<close>)
qed

definition slots_inv :: "rtsp_server \<Rightarrow> bool" where
  "slots_inv srv \<longleftrightarrow>
     mset (map sl_id (rs_slots srv) @ rs_joined srv @ rs_failed srv) = mset [0..<rs_allocated srv] \<and>
     (\<forall>s \<in> set (rs_slots srv). sl_state s = RUNNING \<or> sl_state s = STOPPING)"

lemma slots_inv_fresh: "slots_inv srv \<Longrightarrow> fresh_slots srv"
proof -
  assume "slots_inv srv"
  then have "set (map sl_id (rs_slots srv) @ rs_joined srv @ rs_failed srv) = set [0..<rs_allocated srv]"
    unfolding slots_inv_def by (metis mset_eq_setD)
  then show ?thesis by (auto simp: fresh_slots_def)
qed

lemma slots_after_inv: "slots_inv srv \<Longrightarrow> slots_after ch srv srv' \<Longrightarrow> slots_inv srv'"
  by (cases ch) (auto simp: slots_inv_def slots_after_def same_slots_def)

lemma set_state_ids:
  "map sl_id (rs_slots (set_slot_state i st srv)) = map sl_id (rs_slots srv)"
  "map sl_config (rs_slots (set_slot_state i st srv)) = map sl_config (rs_slots srv)"
  "rs_joined (set_slot_state i st srv) = rs_joined srv" "rs_failed (set_slot_state i st srv) = rs_failed srv"
  "rs_allocated (set_slot_state i st srv) = rs_allocated srv"
  by (simp_all add: set_slot_state_def)

lemma set_state_inv: "slots_inv srv \<Longrightarrow> slots_inv (set_slot_state i STOPPING srv)"
  unfolding slots_inv_def set_state_ids by (auto simp: set_slot_state_def)

lemma mset_partition: "mset (map f (filter P xs)) + mset (map f (filter (\<lambda>x. \<not> P x) xs)) = mset (map f xs)"
  by (induction xs) auto

lemma erase_inv: "slots_inv srv \<Longrightarrow> slots_inv (stop_join_erase P srv)"
  using mset_partition [of sl_id P "rs_slots srv"]
  by (auto simp: slots_inv_def stop_join_erase_def ac_simps)

lemma slots_inv_step: "slots_inv srv \<Longrightarrow> rtsp_step op srv = Some srv' \<Longrightarrow> slots_inv srv'"
  by (erule rtsp_step_slots) (auto intro: slots_inv_fresh slots_after_inv set_state_inv erase_inv)

lemma slots_inv_new: "slots_inv rtsp_server_new"
  by (simp add: slots_inv_def rtsp_server_new_def)

lemma slots_inv_run: "rtsp_run ops rtsp_server_new = Some srv \<Longrightarrow> slots_inv srv"
  by (rule rtsp_run_inv [where Q = "\<lambda>op. True" and P = slots_inv])
    (auto intro: slots_inv_step slots_inv_new simp: list_all_iff)

text \<open>What holds of every configuration an announce can give holds of every session.\<close>

lemma configs_run:
  assumes "rtsp_run ops rtsp_server_new = Some srv" and "list_all (\<lambda>op. \<forall>c. negotiated_by op c \<longrightarrow> P c) ops"
  shows "\<forall>s \<in> set (rs_slots srv). P (sl_config s)"
proof -
  let ?I = "\<lambda>srv. slots_inv srv \<and> (\<forall>c \<in> set (map sl_config (rs_slots srv)). P c)"
  have step: "?I srv'" if q: "\<forall>c. negotiated_by op c \<longrightarrow> P c" and i: "?I srv" and s: "rtsp_step op srv = Some srv'"
    for op srv srv'
  proof -
    have "\<forall>c \<in> set (map sl_config (rs_slots srv')). P c"
      using s slots_inv_fresh [OF conjunct1 [OF i]]
    proof (cases rule: rtsp_step_slots)
      case (after ch)
      then show ?thesis using i q by (cases ch) (auto simp: slots_after_def same_slots_def)
    next
      case (stops i)
      then show ?thesis using \<open>?I srv\<close> by (auto simp: set_slot_state_def)
    next
      case (erase P)
      then show ?thesis using i by (auto simp: stop_join_erase_def)
    qed
    then show ?thesis using slots_inv_step i s by blast
  qed
  have "?I srv"
    by (rule rtsp_run_inv [where P = ?I, OF step assms])
      (auto simp: slots_inv_new, simp add: rtsp_server_new_def)
  then show ?thesis by auto
qed

text \<open>A client that launches, connects and announces, for the witnesses.\<close>

definition demo_launch :: launch_session where
  "demo_launch = \<lparr>la_id = 7, la_encrypted = False, la_rtsp_iv_counter = 0, la_av_ping_payload = [],
     la_control_connect_data = 0, la_host_audio = False, la_surround_params = ascii ''642012543'',
     la_continuous_audio = False, la_client_name = [], la_client_cert = [1]\<rparr>"

definition demo_request_lib :: rtsp_lib where
  "demo_request_lib = \<lparr>rl_parse = (\<lambda>d. Some \<lparr>msg_command = ascii ''ANNOUNCE'', msg_target = [], msg_seq = 3,
       msg_options = [], msg_payload = demo_payload\<rparr>),
     rl_decrypt = (\<lambda>iv tag c. Some c), rl_encrypt = (\<lambda>iv p. (replicate 16 0, p))\<rparr>"

definition demo_host :: rtsp_host where
  "demo_host = \<lparr>rh_announce = demo_announce_env,
     rh_describe = \<lparr>de_SS_ENC_CONTROL_V2 = 1, de_SS_ENC_VIDEO = 2, de_SS_ENC_AUDIO = 4, de_encryption_mode = 2,
       de_capabilities = 0, de_ref_frames_invalidation = False, de_active_hevc_mode = 0, de_active_av1_mode = 0\<rparr>,
     rh_base_port = 47989, rh_start_fails = False\<rparr>"

definition demo_rtsp_ops :: "rtsp_op list" where
  "demo_rtsp_ops = [Launch 0 demo_launch, Accept,
     Read demo_request_lib (\<lambda>r. []) demo_host 0 (False, crlfcrlf)]"

definition demo_slot :: stream_slot where
  "demo_slot = \<lparr>sl_id = 0, sl_config = demo_config, sl_state = RUNNING, sl_client_cert = [1],
     sl_launch_session_id = 7\<rparr>"

lemma demo_rtsp_run: "\<exists>srv. rtsp_run demo_rtsp_ops rtsp_server_new = Some srv \<and> rs_slots srv = [demo_slot]"
proof -
  have ne: "ascii ''ANNOUNCE'' \<noteq> ascii ''OPTIONS''" "ascii ''ANNOUNCE'' \<noteq> ascii ''DESCRIBE''"
    "ascii ''ANNOUNCE'' \<noteq> ascii ''SETUP''"
    by (simp_all add: ascii_inj)
  have "rtsp_socket_step demo_request_lib (False, crlfcrlf) (socket_read False []) =
      Handled \<lparr>msg_command = ascii ''ANNOUNCE'', msg_target = [], msg_seq = 3, msg_options = [],
        msg_payload = demo_payload\<rparr>"
    by (simp add: socket_read_def rtsp_socket_step_def msg_buf_size_def handle_read_plaintext_def crlfcrlf_def
        starts_with_def handle_plaintext_payload_def parse_rtsp_message_safe_def demo_request_lib_def
        content_length_def)
  then show ?thesis
    using ne demo_negotiated demo_parsed
    by (simp add: demo_rtsp_ops_def rtsp_step_def session_raise_def pending_launch_def rtsp_server_new_def event_defs
        handle_accept_def read_connection_def finish_connection_def handle_msg_def cmd_announce_def record_client_def
        demo_launch_def demo_host_def alloc_session_def slots_insert_def set_slot_state_def demo_slot_def respond_def
        respond_bytes_def Let_def)
qed

section \<open>Properties\<close>

definition announces_in :: "int \<Rightarrow> u32 \<Rightarrow> u32 \<Rightarrow> rtsp_op list \<Rightarrow> bool" where
  "announces_in mode video audio ops \<longleftrightarrow> list_all (\<lambda>op. case op of
     Read lib ser h k r \<Rightarrow> ae_encryption_mode (rh_announce h) = mode \<and>
       ae_SS_ENC_VIDEO (rh_announce h) = video \<and> ae_SS_ENC_AUDIO (rh_announce h) = audio
   | _ \<Rightarrow> True) ops"

text \<open>C16: Mandatory encryption is enforced: whatever launches, connections, messages and terminations
  happen, in any order and in any pieces, a host whose policy for its clients is mandatory encryption
  has no session without encrypted video and audio.\<close>

theorem mandatory_encryption_enforced:
  assumes "rtsp_run ops rtsp_server_new = Some srv"
    and "announces_in ENCRYPTION_MODE_MANDATORY video audio ops"
    and "s \<in> set (rs_slots srv)"
  shows "sc_encryptionFlagsEnabled (sl_config s) AND (video OR audio) = video OR audio"
proof -
  let ?P = "\<lambda>c. sc_encryptionFlagsEnabled c AND (video OR audio) = video OR audio"
  have conf: "?P c" if env: "ae_encryption_mode env = ENCRYPTION_MODE_MANDATORY" "ae_SS_ENC_VIDEO env = video"
    "ae_SS_ENC_AUDIO env = audio" and n: "negotiate env host sp cont opts p = AnnounceConfig c"
    for env host sp cont opts p c
  proof -
    from n have "encryption_complies env (sc_encryptionFlagsEnabled c)"
      by (rule negotiate_config) (use check_announce_config in blast)
    then show ?thesis using env by (simp add: encryption_complies_def)
  qed
  have "?P c" if op: "op \<in> set ops" "negotiated_by op c" for op c
  proof (cases op)
    case (Read lib ser h k r)
    with assms(2) op(1) have env: "ae_encryption_mode (rh_announce h) = ENCRYPTION_MODE_MANDATORY"
      "ae_SS_ENC_VIDEO (rh_announce h) = video" "ae_SS_ENC_AUDIO (rh_announce h) = audio"
      unfolding announces_in_def list_all_iff by fastforce+
    from op(2) Read obtain host sp cont opts p where
      "negotiate (rh_announce h) host sp cont opts p = AnnounceConfig c"
      by (auto simp: negotiated_by_def)
    from conf [OF env this] show ?thesis .
  qed (use op(2) in \<open>simp_all add: negotiated_by_def\<close>)
  then have "list_all (\<lambda>op. \<forall>c. negotiated_by op c \<longrightarrow> ?P c) ops" by (auto simp: list_all_iff)
  from configs_run [OF assms(1) this] show ?thesis using assms(3) by (rule bspec)
qed

theorem mandatory_encryption_enforced_witness:
  "\<exists>srv. rtsp_run demo_rtsp_ops rtsp_server_new = Some srv \<and> demo_slot \<in> set (rs_slots srv) \<and>
    sc_encryptionFlagsEnabled (sl_config demo_slot) AND (2 OR 4) = 2 OR 4"
proof -
  obtain srv where run: "rtsp_run demo_rtsp_ops rtsp_server_new = Some srv" and "rs_slots srv = [demo_slot]"
    using demo_rtsp_run by blast
  then have s: "demo_slot \<in> set (rs_slots srv)" by simp
  have "announces_in 2 2 4 demo_rtsp_ops"
    by (simp add: announces_in_def demo_rtsp_ops_def demo_host_def demo_announce_env_def)
  from mandatory_encryption_enforced [OF run this s] show ?thesis using run s by blast
qed



text \<open>What the pending launch depends on.\<close>

definition launch_view :: "rtsp_server \<Rightarrow> nat event_t \<times> bool \<times> nat \<times> (nat \<rightharpoonup> u32)" where
  "launch_view srv = (rs_launch_event srv, rs_timer_armed srv, rs_timer_due srv,
     \<lambda>l. map_option la_id (rs_launches srv l))"

lemma launch_view_respond: "launch_view (snd (respond lib ser l r srv)) = launch_view srv"
  by (auto simp: launch_view_def respond_def fun_eq_iff split: option.split prod.split)

lemma launch_view_record: "launch_view (record_client l p srv) = launch_view srv"
  by (auto simp: launch_view_def record_client_def fun_eq_iff option.map_comp comp_def split: option.split)

lemma launch_view_slots [simp]:
  "launch_view (slots_insert s srv) = launch_view srv" "launch_view (slots_remove i srv) = launch_view srv"
  "launch_view (set_slot_state i st srv) = launch_view srv" "launch_view (stop_join_erase P srv) = launch_view srv"
  "launch_view (srv\<lparr>rs_allocated := n\<rparr>) = launch_view srv"
  "launch_view (srv\<lparr>rs_failed := fs\<rparr>) = launch_view srv"
  "launch_view (srv\<lparr>rs_connections := cs\<rparr>) = launch_view srv"
  by (simp_all add: launch_view_def slots_insert_def slots_remove_def set_slot_state_def stop_join_erase_def)

lemma launch_view_announce:
  "cmd_announce env fails l la req srv = Some (r, srv') \<Longrightarrow> launch_view srv' = launch_view srv"
  by (auto simp: cmd_announce_def alloc_session_def Let_def launch_view_record
      split: announce_result.splits if_splits prod.splits)

lemma launch_view_handle:
  assumes "handle_msg h l la req srv = Some (r, srv')"
  shows "launch_view srv' = launch_view srv"
  using assms launch_view_announce
  by (auto simp: handle_msg_def split: if_splits)

lemma launch_view_finish:
  assumes "finish_connection lib ser h l sock srv = Some (out, srv')"
  shows "launch_view srv' = launch_view srv"
proof -
  have resp: "launch_view b = launch_view mid" if "respond lib ser l r mid = (a, b)" for r mid a b
    using launch_view_respond [of lib ser l r mid] that by simp
  show ?thesis
    using assms resp launch_view_handle
    by (auto simp: finish_connection_def split: rtsp_socket.splits option.splits)
qed

lemma launch_view_read:
  assumes "read_connection lib ser h k r srv = Some (out, srv')"
  shows "launch_view srv' = launch_view srv"
  using assms launch_view_finish by (fastforce simp: read_connection_def Let_def split: prod.splits)

definition launch_waits :: "nat \<Rightarrow> u32 \<Rightarrow> rtsp_server \<Rightarrow> bool" where
  "launch_waits l i srv \<longleftrightarrow> (case launch_view srv of (ev, armed, due, ids) \<Rightarrow>
     ev_continue ev \<and> ev_status ev = Some l \<and> due = 0 \<and> ids l = Some i)"

lemma launch_waits_iff:
  "launch_waits l i srv \<longleftrightarrow> pending_launch srv = Some l \<and> rs_timer_due srv = 0 \<and>
     (\<exists>la. rs_launches srv l = Some la \<and> la_id la = i)"
  by (auto simp: launch_waits_def launch_view_def pending_launch_def)

definition keeps_launch :: "u32 \<Rightarrow> rtsp_op \<Rightarrow> bool" where
  "keeps_launch i op \<longleftrightarrow> op \<noteq> TimerExpires \<and> op \<noteq> LaunchClear i"

lemma launch_waits_step:
  assumes "keeps_launch i op" and w: "launch_waits l i srv" and "rtsp_step op srv = Some srv'"
  shows "launch_waits l i srv'"
proof (cases op)
  case (Launch l' la)
  show ?thesis
  proof (cases "rs_launches srv l'")
    case None
    then have "l' \<noteq> l" using w by (auto simp: launch_waits_iff)
    then show ?thesis using assms Launch None
      by (auto simp: rtsp_step_def launch_waits_iff session_raise_def pending_launch_def)
  next
    case (Some x)
    then show ?thesis using assms Launch by (simp add: rtsp_step_def)
  qed
next
  case (LaunchClear j)
  then show ?thesis using assms
    by (auto simp: rtsp_step_def session_clear_def keeps_launch_def launch_waits_iff split: option.splits)
next
  case TimerExpires
  then show ?thesis using assms by (simp add: keeps_launch_def)
next
  case TimerHandler
  then show ?thesis using assms by (auto simp: rtsp_step_def timer_handler_def launch_waits_iff)
next
  case Accept
  then have "launch_view srv' = launch_view srv"
    using assms(3) by (auto simp: rtsp_step_def handle_accept_def split: option.splits)
  then show ?thesis using w by (simp add: launch_waits_def)
next
  case (Read lib ser h k r)
  then have "launch_view srv' = launch_view srv"
    using assms(3) launch_view_read [of lib ser h k r srv _ srv'] by (auto simp: rtsp_step_def split: if_splits)
  then show ?thesis using w by (simp add: launch_waits_def)
next
  case (SessionStops j)
  then have "launch_view srv' = launch_view srv" using assms(3) by (auto simp: rtsp_step_def split: if_splits)
  then show ?thesis using w by (simp add: launch_waits_def)
next
  case (ClearSessions e)
  then have "launch_view srv' = launch_view srv" using assms(3) by (auto simp: rtsp_step_def clear_sessions_def)
  then show ?thesis using w by (simp add: launch_waits_def)
next
  case (ClearByCert c)
  then have "launch_view srv' = launch_view srv" using assms(3) by (auto simp: rtsp_step_def clear_by_cert_def)
  then show ?thesis using w by (simp add: launch_waits_def)
qed

text \<open>C19: The pending launch is not overwritten and not lost: while no handler of an expired timer is
  queued, it stays pending through launches of other clients, connections and their messages, and
  terminated sessions, until it is cleared by its own identifier or its timer expires.\<close>

theorem pending_launch_kept:
  assumes "pending_launch srv = Some l" and "rs_timer_due srv = 0" and "rs_launches srv l = Some la"
    and "rtsp_run ops srv = Some srv'" and "list_all (keeps_launch (la_id la)) ops"
  shows "pending_launch srv' = Some l"
proof -
  have "launch_waits l (la_id la) srv" using assms(1-3) by (simp add: launch_waits_iff)
  with launch_waits_step have "launch_waits l (la_id la) srv'"
    by (rule rtsp_run_inv [where P = "launch_waits l (la_id la)", OF _ assms(4,5)])
  then show ?thesis by (simp add: launch_waits_iff)
qed

definition other_launch :: launch_session where
  "other_launch = demo_launch\<lparr>la_id := 8\<rparr>"

theorem pending_launch_kept_witness:
  "\<exists>srv. rtsp_run [Launch 0 demo_launch] rtsp_server_new = Some srv \<and>
    (\<exists>srv'. rtsp_run [Launch 1 other_launch, Accept, TimerHandler, LaunchClear 8] srv = Some srv' \<and>
       pending_launch srv' = Some 0)"
proof -
  define srv where "srv = session_raise 0 (rtsp_server_new\<lparr>rs_launches := [0 \<mapsto> demo_launch]\<rparr>)"
  have run: "rtsp_run [Launch 0 demo_launch] rtsp_server_new = Some srv"
    by (simp add: rtsp_step_def srv_def rtsp_server_new_def)
  obtain srv' where srv': "rtsp_run [Launch 1 other_launch, Accept, TimerHandler, LaunchClear 8] srv = Some srv'"
    by (simp add: rtsp_step_def)
  have s: "pending_launch srv = Some 0" "rs_timer_due srv = 0" "rs_launches srv 0 = Some demo_launch"
    by (simp_all add: srv_def session_raise_def pending_launch_def rtsp_server_new_def event_defs)
  have "pending_launch srv' = Some 0"
    by (rule pending_launch_kept [OF s srv']) (simp add: keeps_launch_def demo_launch_def)
  then show ?thesis using run srv' by blast
qed

text \<open>A stale timeout discards the wrong launch: when the timer of a launch has expired and its
  client connects before the handler runs, the handler, which nothing cancels, takes away whatever
  launch is pending by then, although that one's own time has only begun.\<close>

theorem stale_timeout_discards_launch:
  assumes "pending_launch srv = None" and "ev_continue (rs_launch_event srv)"
    and "rs_launches srv a = None" and "rs_launches srv b = None" and "a \<noteq> b"
  shows "\<exists>s t. rtsp_run [Launch a la, TimerExpires, LaunchClear (la_id la), Launch b lb] srv = Some s \<and>
    pending_launch s = Some b \<and> rs_timer_armed s \<and>
    rtsp_run [TimerHandler] s = Some t \<and> pending_launch t = None \<and> rs_timer_armed t"
  using assms
  by (auto simp: rtsp_step_def session_raise_def session_clear_def timer_expires_def timer_handler_def
      pending_launch_def event_raise_def event_try_pop_def split: if_splits)

theorem stale_timeout_discards_launch_witness:
  "\<exists>s t. rtsp_run [Launch 0 demo_launch, TimerExpires, LaunchClear (la_id demo_launch), Launch 1 other_launch]
      rtsp_server_new = Some s \<and>
    pending_launch s = Some 1 \<and> rs_timer_armed s \<and>
    rtsp_run [TimerHandler] s = Some t \<and> pending_launch t = None \<and> rs_timer_armed t"
  by (rule stale_timeout_discards_launch)
    (simp_all add: rtsp_server_new_def pending_launch_def event_new_def)

text \<open>A SETUP whose target has no equals sign is searched beyond its end.\<close>

lemma setup_undefined: "cmd_setup base la req = None \<longleftrightarrow> 61 \<notin> set (msg_target req)"
  using find_index_None [of "\<lambda>c. c = 61" "msg_target req"]
  by (auto simp: cmd_setup_def Let_def split: option.split)

text \<open>
  The comment on the advertised layouts says that Moonlight rotates all channels from index 3 to the
  right. Undone that way, the advertised mapping is the encoder's for 5.1 but not for 7.1.
\<close>

definition client_rotation :: "u8 list \<Rightarrow> u8 list" where
  "client_rotation m = take 3 m @ last m # drop 3 (butlast m)"

lemma advertised_rotation:
  "client_rotation (advertised_mapping 2) = os_mapping (stream_configs ! 2)"
  "client_rotation (advertised_mapping 4) \<noteq> os_mapping (stream_configs ! 4)"
  by (simp_all add: client_rotation_def advertised_mapping_def stream_configs_def map_surround51_def
      map_surround71_def Let_def)

end
