(* ===== verification/HttpLaunch.thy ===== *)
theory HttpLaunch
  imports RtspServer Process ClientProfiles
begin

text \<open>
  The requests of a client that start, resume and end a stream (\<^verbatim>\<open>src/nvhttp.cpp\<close>: \<open>make_launch_session\<close>,
  \<open>launch\<close>, \<open>resume\<close>, \<open>cancel\<close>), with the end of \<open>stream::session::join\<close> that they reach through the
  RTSP server. They compose the application (\<open>Process\<close>), the profiles (\<open>ClientProfiles\<close>), the pending
  launch and the set of sessions (\<open>RtspServer\<close>) in one host state. An exception passes the guards of a
  handler on its way out; one that leaves a guard ends the program. Sessions that \<open>clear\<close> removes leave
  the set together, before they are joined.
\<close>

section \<open>The launch session\<close>

text \<open>
  The rest of \<open>launch_session_t\<close>, beside what the RTSP server reads (\<open>launch_session\<close>). Query arguments
  are pairs of a name and a value; names are compared without case.
\<close>

record client_launch = launch_session +
  cl_gcm_key :: bytes
  cl_iv :: bytes
  cl_unique_id :: bytes
  cl_width :: int
  cl_height :: int
  cl_fps :: int
  cl_gcmap :: int
  cl_appid :: int
  cl_surround_info :: int
  cl_enable_hdr :: bool
  cl_enable_sops :: bool
  cl_rtsp_url_scheme :: bytes

type_synonym query = "(bytes \<times> bytes) list"

definition find_arg :: "query \<Rightarrow> string \<Rightarrow> bytes option" where
  "find_arg args name = map_of (map (\<lambda>(k, v). (map lower_char k, v)) args) (map lower_char (ascii name))"

text \<open>\<open>get_arg\<close>, where the argument is known to be there or has a default.\<close>

definition get_arg :: "query \<Rightarrow> string \<Rightarrow> bytes \<Rightarrow> bytes" where
  "get_arg args name default_value = value_or (find_arg args name) default_value"

text \<open>A cast of an \<^verbatim>\<open>int64_t\<close> to \<^verbatim>\<open>int\<close>, and \<^verbatim>\<open>atoi\<close> (a number that is too large is cut off).\<close>

definition to_int :: "int \<Rightarrow> int" where
  "to_int v = signed_take_bit 31 v"

definition atoi :: "bytes \<Rightarrow> int" where
  "atoi str =
    (let body = dropWhile is_space str;
         negative = (body \<noteq> [] \<and> hd body = 45);
         unsigned = (if body \<noteq> [] \<and> (hd body = 45 \<or> hd body = 43) then tl body else body) in
     case decimal_digits 0 (takeWhile is_digit unsigned) of
       None \<Rightarrow> 0
     | Some n \<Rightarrow> to_int (max (- (2 ^ 63)) (min (2 ^ 63 - 1) (if negative then - int n else int n))))"

text \<open>The segments between the letters \<open>x\<close>; a missing one leaves the field 0.\<close>

definition mode_segment :: "nat \<Rightarrow> bytes \<Rightarrow> int" where
  "mode_segment k mode =
    (let segments = split_on 120 [] mode in if k < length segments then atoi (segments ! k) else 0)"

text \<open>What else a launch session depends on.\<close>

record launch_source =
  so_client_cert :: bytes
  so_ping_payload :: bytes
  so_connect_data :: u32

definition make_launch_session ::
    "launch_source \<Rightarrow> u32 \<Rightarrow> bool \<Rightarrow> query \<Rightarrow> client_launch" where
  "make_launch_session so session_id_counter host_audio args =
    (let mode = get_arg args ''mode'' (ascii ''0x0x0'');
         encrypted = 1 \<le> from_view (get_arg args ''corever'' (ascii ''0'')) in
     \<lparr>la_id = session_id_counter + 1,
      la_encrypted = encrypted,
      la_rtsp_iv_counter = 0,
      la_av_ping_payload = hex_vec (so_ping_payload so) False,
      la_control_connect_data = so_connect_data so,
      la_host_audio = host_audio,
      la_surround_params = get_arg args ''surroundParams'' [],
      la_continuous_audio = from_view (get_arg args ''continuousAudio'' (ascii ''0'')) \<noteq> 0,
      la_client_name = [],
      la_client_cert = so_client_cert so,
      cl_gcm_key = from_hex_vec (get_arg args ''rikey'' []) True,
      cl_iv = be_bytes 4 (of_int (from_view (get_arg args ''rikeyid'' [])) :: u32) @ replicate 12 0,
      cl_unique_id = get_arg args ''uniqueid'' (ascii ''unknown''),
      cl_width = mode_segment 0 mode,
      cl_height = mode_segment 1 mode,
      cl_fps = mode_segment 2 mode,
      cl_gcmap = to_int (from_view (get_arg args ''gcmap'' (ascii ''0''))),
      cl_appid = to_int (from_view (get_arg args ''appid'' (ascii ''unknown''))),
      cl_surround_info = to_int (from_view (get_arg args ''surroundAudioInfo'' (ascii ''196610''))),
      cl_enable_hdr = from_view (get_arg args ''hdrMode'' (ascii ''0'')) \<noteq> 0,
      cl_enable_sops = from_view (get_arg args ''sops'' (ascii ''0'')) \<noteq> 0,
      cl_rtsp_url_scheme = (if encrypted then ascii ''rtspenc://'' else ascii ''rtsp://'')\<rparr>)"

definition settings_of :: "client_launch \<Rightarrow> launch_settings" where
  "settings_of cl = \<lparr>ls_width = cl_width cl, ls_height = cl_height cl, ls_fps = cl_fps cl,
     ls_enable_hdr = cl_enable_hdr cl, ls_gcmap = cl_gcmap cl, ls_host_audio = la_host_audio cl,
     ls_enable_sops = cl_enable_sops cl, ls_surround_info = cl_surround_info cl,
     ls_surround_params = la_surround_params cl\<rparr>"

section \<open>The host\<close>

datatype display_event = Display_configured | Display_revert

text \<open>
  The parts of the host a request reaches. \<open>ho_revert_display\<close> is the local variable of the handler of
  \<open>launch\<close>; \<open>ho_host_audio\<close> is kept from one request to the next.
\<close>

record host_state =
  ho_rtsp :: rtsp_server
  ho_proc :: proc_state
  ho_profiles :: profiles_state
  ho_running_sessions :: int
  ho_host_audio :: bool
  ho_session_id_counter :: u32
  ho_display :: "display_event list"
  ho_revert_display :: bool

text \<open>What a request finds around it. \<open>en_new_launch\<close> is the object of the new launch session.\<close>

record http_env =
  en_os :: os
  en_source :: launch_source
  en_probe_fails :: bool
  en_encryption_mode :: int
  en_revert_on_disconnect :: bool
  en_new_launch :: nat

definition and_then ::
    "'a outcome \<times> 'h \<Rightarrow> ('a \<Rightarrow> 'h \<Rightarrow> 'b outcome \<times> 'h) \<Rightarrow> 'b outcome \<times> 'h" where
  "and_then m f = (case m of (Returned x, h) \<Rightarrow> f x h | (Threw, h) \<Rightarrow> (Threw, h) | (Aborted, h) \<Rightarrow> (Aborted, h))"

definition on_proc ::
    "(proc_state \<Rightarrow> 'a outcome \<times> proc_state) \<Rightarrow> host_state \<Rightarrow> 'a outcome \<times> host_state" where
  "on_proc f h = (let (r, p) = f (ho_proc h) in (r, h\<lparr>ho_proc := p\<rparr>))"

definition display_event :: "display_event \<Rightarrow> host_state \<Rightarrow> host_state" where
  "display_event e h = h\<lparr>ho_display := ho_display h @ [e]\<rparr>"

text \<open>The end of \<open>stream::session::join\<close>: the profile and, with the last session, the display.\<close>

definition session_joined :: "http_env \<Rightarrow> host_state \<Rightarrow> unit outcome \<times> host_state" where
  "session_joined env h =
    (let h = h\<lparr>ho_profiles := reset_profile (ho_profiles h), ho_running_sessions := ho_running_sessions h - 1\<rparr> in
     if ho_running_sessions h = 0 then
       and_then (on_proc (running (en_os env)) h) (\<lambda>app h.
         (Returned (), if app = 0 \<or> en_revert_on_disconnect env then display_event Display_revert h else h))
     else (Returned (), h))"

fun sessions_joined :: "http_env \<Rightarrow> nat \<Rightarrow> host_state \<Rightarrow> unit outcome \<times> host_state" where
  "sessions_joined env 0 h = (Returned (), h)"
| "sessions_joined env (Suc n) h = and_then (session_joined env h) (\<lambda>_ h. sessions_joined env n h)"

text \<open>\<open>clear\<close> joins the sessions it removes.\<close>

definition clear_host :: "bool \<Rightarrow> http_env \<Rightarrow> host_state \<Rightarrow> unit outcome \<times> host_state" where
  "clear_host everything env h =
    (let srv = clear_sessions everything (ho_rtsp h);
         joined = length (rs_slots (ho_rtsp h)) - length (rs_slots srv) in
     sessions_joined env joined (h\<lparr>ho_rtsp := srv\<rparr>))"

definition count_host :: "http_env \<Rightarrow> host_state \<Rightarrow> nat outcome \<times> host_state" where
  "count_host env h = and_then (clear_host False env h) (\<lambda>_ h. (Returned (length (rs_slots (ho_rtsp h))), h))"

definition launch_session_raise :: "nat \<Rightarrow> client_launch \<Rightarrow> host_state \<Rightarrow> host_state" where
  "launch_session_raise l cl h =
    h\<lparr>ho_rtsp := session_raise l ((ho_rtsp h)\<lparr>rs_launches :=
        (rs_launches (ho_rtsp h))(l \<mapsto> launch_session.truncate cl)\<rparr>)\<rparr>"

section \<open>Requests\<close>

text \<open>The fields of the answer that clients read.\<close>

record http_reply =
  rp_status_code :: int
  rp_resume :: "int option"
  rp_gamesession :: "int option"
  rp_session_url :: "bytes option"

definition refuse_resume :: "int \<Rightarrow> http_reply" where
  "refuse_resume code =
    \<lparr>rp_status_code = code, rp_resume = Some 0, rp_gamesession = None, rp_session_url = None\<rparr>"

definition refuse_session :: "int \<Rightarrow> http_reply" where
  "refuse_session code =
    \<lparr>rp_status_code = code, rp_resume = None, rp_gamesession = Some 0, rp_session_url = None\<rparr>"

definition has_args :: "string list \<Rightarrow> query \<Rightarrow> bool" where
  "has_args names args \<longleftrightarrow> list_all (\<lambda>n. find_arg args n \<noteq> None) names"

definition encryption_missing :: "http_env \<Rightarrow> client_launch \<Rightarrow> bool" where
  "encryption_missing env cl \<longleftrightarrow> \<not> la_encrypted cl \<and> en_encryption_mode env = ENCRYPTION_MODE_MANDATORY"

text \<open>\<open>launch\<close> once the display is prepared.\<close>

definition launch_app ::
    "http_env \<Rightarrow> int \<Rightarrow> client_launch \<Rightarrow> host_state \<Rightarrow> http_reply outcome \<times> host_state" where
  "launch_app env appid cl h =
    (let succeed = (\<lambda>h. (Returned \<lparr>rp_status_code = 200, rp_resume = None, rp_gamesession = Some 1,
           rp_session_url = Some (cl_rtsp_url_scheme cl)\<rparr>,
         (launch_session_raise (en_new_launch env) cl h)\<lparr>ho_revert_display := False\<rparr>)) in
     if encryption_missing env cl then (Returned (refuse_session 403), h)
     else if 0 < appid then
       and_then (on_proc (execute (en_os env) (to_int appid) (settings_of cl)) h) (\<lambda>err h.
         if err \<noteq> 0 then (Returned (refuse_session err), h) else succeed h)
     else succeed h)"

definition launch_prepared ::
    "http_env \<Rightarrow> int \<Rightarrow> client_launch \<Rightarrow> host_state \<Rightarrow> http_reply outcome \<times> host_state" where
  "launch_prepared env appid cl h =
    and_then (count_host env h) (\<lambda>n h.
      if n = 0 then
        let h = display_event Display_configured (h\<lparr>ho_revert_display := True\<rparr>) in
        if en_probe_fails env then (Returned (refuse_session 503), h) else launch_app env appid cl h
      else launch_app env appid cl h)"

text \<open>The guards: what they do when a handler is left, also by an exception. One that throws ends the
  program.\<close>

definition profile_guard :: "http_env \<Rightarrow> 'a outcome \<times> host_state \<Rightarrow> 'a outcome \<times> host_state" where
  "profile_guard env m =
    (if fst m = Aborted then m
     else case count_host env (snd m) of
       (Returned n, h) \<Rightarrow> (fst m, if n = 0 then h\<lparr>ho_profiles := reset_profile (ho_profiles h)\<rparr> else h)
     | (_, h) \<Rightarrow> (Aborted, h))"

definition revert_guard :: "'a outcome \<times> host_state \<Rightarrow> 'a outcome \<times> host_state" where
  "revert_guard m =
    (if fst m \<noteq> Aborted \<and> ho_revert_display (snd m) then (fst m, display_event Display_revert (snd m)) else m)"

definition new_launch :: "http_env \<Rightarrow> query \<Rightarrow> host_state \<Rightarrow> client_launch \<times> host_state" where
  "new_launch env args h =
    (let cl = make_launch_session (en_source env) (ho_session_id_counter h) (ho_host_audio h) args in
     (cl, h\<lparr>ho_session_id_counter := la_id cl\<rparr>))"

definition launch :: "http_env \<Rightarrow> query \<Rightarrow> host_state \<Rightarrow> http_reply outcome \<times> host_state" where
  "launch env args h =
    revert_guard
     (let h = h\<lparr>ho_revert_display := False\<rparr> in
      if \<not> has_args [''rikey'', ''rikeyid'', ''localAudioPlayMode'', ''appid''] args
      then (Returned (refuse_resume 400), h)
      else
        let appid = from_view (get_arg args ''appid'' []) in
        and_then (on_proc (running (en_os env)) h) (\<lambda>current_appid h.
          if 0 < current_appid then (Returned (refuse_resume 400), h)
          else
            let h = h\<lparr>ho_host_audio := from_view (get_arg args ''localAudioPlayMode'' []) \<noteq> 0\<rparr>;
                (cl, h) = new_launch env args h;
                h = h\<lparr>ho_profiles := apply_profile (cl_unique_id cl) (ho_profiles h)\<rparr> in
            profile_guard env (launch_prepared env appid cl h)))"

definition resume :: "http_env \<Rightarrow> query \<Rightarrow> host_state \<Rightarrow> http_reply outcome \<times> host_state" where
  "resume env args h =
    and_then (on_proc (running (en_os env)) h) (\<lambda>current_appid h.
      if current_appid = 0 then (Returned (refuse_resume 503), h)
      else if \<not> has_args [''rikey'', ''rikeyid''] args then (Returned (refuse_resume 400), h)
      else
        and_then (count_host env h) (\<lambda>n h.
          let h = (if n = 0 \<and> has_args [''localAudioPlayMode''] args
                   then h\<lparr>ho_host_audio := from_view (get_arg args ''localAudioPlayMode'' []) \<noteq> 0\<rparr> else h);
              (cl, h) = new_launch env args h;
              h = (if n = 0 then display_event Display_configured h else h) in
          if n = 0 \<and> en_probe_fails env then (Returned (refuse_resume 503), h)
          else if encryption_missing env cl then (Returned (refuse_session 403), h)
          else (Returned \<lparr>rp_status_code = 200, rp_resume = Some 1, rp_gamesession = None,
                  rp_session_url = Some (cl_rtsp_url_scheme cl)\<rparr>,
                launch_session_raise (en_new_launch env) cl h)))"

definition cancel :: "http_env \<Rightarrow> host_state \<Rightarrow> unit outcome \<times> host_state" where
  "cancel env h =
    and_then (clear_host True env h) (\<lambda>_ h.
    and_then (on_proc (running (en_os env)) h) (\<lambda>current_appid h.
    and_then (if 0 < current_appid then on_proc (terminate (en_os env)) h else (Returned (), h)) (\<lambda>_ h.
      (Returned (), display_event Display_revert h))))"

section \<open>Facts\<close>

lemma and_then_Returned:
  "and_then m f = (Returned y, h') \<longleftrightarrow> (\<exists>x h. m = (Returned x, h) \<and> f x h = (Returned y, h'))"
  by (cases m; cases "fst m") (auto simp: and_then_def)

lemma on_proc_eq: "on_proc f h = (r, h') \<longleftrightarrow> (\<exists>p. f (ho_proc h) = (r, p) \<and> h' = h\<lparr>ho_proc := p\<rparr>)"
  by (auto simp: on_proc_def split: prod.split)

text \<open>What a step may not touch: the pending launch and the launch sessions.\<close>

definition same_launches :: "host_state \<Rightarrow> host_state \<Rightarrow> bool" where
  "same_launches h h' \<longleftrightarrow> rs_launches (ho_rtsp h') = rs_launches (ho_rtsp h) \<and>
     rs_launch_event (ho_rtsp h') = rs_launch_event (ho_rtsp h)"

lemma same_launches_refl [simp]: "same_launches h h"
  by (simp add: same_launches_def)

lemma same_launches_trans: "same_launches h h' \<Longrightarrow> same_launches h' h'' \<Longrightarrow> same_launches h h''"
  by (simp add: same_launches_def)

lemma same_launches_pending: "same_launches h h' \<Longrightarrow> pending_launch (ho_rtsp h') = pending_launch (ho_rtsp h)"
  by (simp add: same_launches_def pending_launch_def)

lemma sessions_joined_frame:
  "sessions_joined env n h = (r, h') \<Longrightarrow> ho_rtsp h' = ho_rtsp h \<and> ho_revert_display h' = ho_revert_display h"
proof (induction n arbitrary: h)
  case (Suc n)
  obtain q g where g: "session_joined env h = (q, g)" by fastforce
  then have keep: "ho_rtsp g = ho_rtsp h \<and> ho_revert_display g = ho_revert_display h"
    by (auto simp: session_joined_def and_then_def on_proc_def display_event_def Let_def
        split: if_splits prod.splits outcome.splits)
  from Suc.prems g have "q = Returned () \<and> sessions_joined env n g = (r, h') \<or> h' = g"
    by (cases q) (auto simp: and_then_def)
  with keep Suc.IH show ?case by auto
qed simp

lemma clear_host_frame:
  assumes "clear_host everything env h = (r, h')"
  shows "ho_rtsp h' = clear_sessions everything (ho_rtsp h) \<and> ho_revert_display h' = ho_revert_display h"
  using sessions_joined_frame assms by (fastforce simp: clear_host_def Let_def)

lemma clear_sessions_launches [simp]:
  "rs_launches (clear_sessions e srv) = rs_launches srv"
  "rs_launch_event (clear_sessions e srv) = rs_launch_event srv"
  by (simp_all add: clear_sessions_def stop_join_erase_def)

lemma count_host_frame:
  assumes "count_host env h = (r, h')"
  shows "same_launches h h' \<and> ho_revert_display h' = ho_revert_display h \<and>
    ho_rtsp h' = clear_sessions False (ho_rtsp h) \<and> (\<forall>n. r = Returned n \<longrightarrow> n = length (rs_slots (ho_rtsp h')))"
proof -
  obtain q g where g: "clear_host False env h = (q, g)" by fastforce
  with assms have "h' = g" "\<And>n. r = Returned n \<Longrightarrow> n = length (rs_slots (ho_rtsp g))"
    by (cases q; auto simp: count_host_def and_then_def)+
  with clear_host_frame [OF g] show ?thesis by (simp add: same_launches_def)
qed

text \<open>Without sessions counting them does nothing.\<close>

lemma clear_no_sessions: "rs_slots srv = [] \<Longrightarrow> clear_sessions e srv = srv"
  by (cases srv) (simp add: clear_sessions_def stop_join_erase_def)

lemma count_no_sessions: "rs_slots (ho_rtsp h) = [] \<Longrightarrow> count_host env h = (Returned 0, h)"
  by (cases h) (simp add: count_host_def clear_host_def clear_no_sessions and_then_def)

lemma raise_slots [simp]:
  "rs_slots (ho_rtsp (launch_session_raise l cl h)) = rs_slots (ho_rtsp h)"
  "ho_profiles (launch_session_raise l cl h) = ho_profiles h"
  "ho_display (launch_session_raise l cl h) = ho_display h"
  by (simp_all add: launch_session_raise_def session_raise_def)

lemma launch_app_frame:
  assumes "launch_app env appid cl h = (r, h')"
  shows "ho_profiles h' = ho_profiles h \<and> rs_slots (ho_rtsp h') = rs_slots (ho_rtsp h) \<and>
    ho_display h' = ho_display h \<and>
    (ho_revert_display h' = (ho_revert_display h \<and> (\<forall>rep. r = Returned rep \<longrightarrow> rp_session_url rep = None))) \<and>
    (encryption_missing env cl \<longrightarrow> same_launches h h' \<and> r = Returned (refuse_session 403))"
proof (cases "encryption_missing env cl")
  case True
  with assms show ?thesis by (auto simp: launch_app_def Let_def refuse_session_def)
next
  case False
  show ?thesis
  proof (cases "0 < appid")
    case appid: True
    obtain q p where q: "execute (en_os env) (to_int appid) (settings_of cl) (ho_proc h) = (q, p)" by fastforce
    show ?thesis
      using assms False appid q
      by (cases q) (auto simp: launch_app_def on_proc_def and_then_def refuse_session_def Let_def split: if_splits)
  next
    case no_app: False
    with assms False show ?thesis by (auto simp: launch_app_def Let_def)
  qed
qed

lemma launch_prepared_no_sessions:
  assumes "launch_prepared env appid cl h = (r, h')" and "rs_slots (ho_rtsp h) = []"
  shows "ho_profiles h' = ho_profiles h \<and> rs_slots (ho_rtsp h') = [] \<and>
    ho_display h' = ho_display h @ [Display_configured] \<and>
    (ho_revert_display h' = (\<forall>rep. r = Returned rep \<longrightarrow> rp_session_url rep = None))"
proof -
  let ?h = "display_event Display_configured (h\<lparr>ho_revert_display := True\<rparr>)"
  have e: "launch_prepared env appid cl h =
      (if en_probe_fails env then (Returned (refuse_session 503), ?h) else launch_app env appid cl ?h)"
    by (simp add: launch_prepared_def count_no_sessions [OF assms(2)] and_then_def Let_def)
  show ?thesis
  proof (cases "en_probe_fails env")
    case True
    with assms e show ?thesis by (auto simp: display_event_def refuse_session_def)
  next
    case False
    with assms(1) e have "launch_app env appid cl ?h = (r, h')" by simp
    from launch_app_frame [OF this] assms(2) show ?thesis by (simp add: display_event_def)
  qed
qed

text \<open>The state in which \<open>launch\<close> prepares the session.\<close>

definition launch_start :: "http_env \<Rightarrow> query \<Rightarrow> proc_state \<Rightarrow> host_state \<Rightarrow> client_launch \<times> host_state" where
  "launch_start env args p h =
    (let h = h\<lparr>ho_revert_display := False, ho_proc := p,
           ho_host_audio := from_view (get_arg args ''localAudioPlayMode'' []) \<noteq> 0\<rparr>;
         (cl, h) = new_launch env args h in
     (cl, h\<lparr>ho_profiles := apply_profile (cl_unique_id cl) (ho_profiles h)\<rparr>))"

lemma launch_cases:
  assumes "launch env args h = (Returned r, h')"
  obtains (refused) p where "r = refuse_resume 400" "h' = h\<lparr>ho_revert_display := False, ho_proc := p\<rparr>"
  | (tried) p app cl g where "running (en_os env) (ho_proc h) = (Returned app, p)" "app \<le> 0"
      "cl = fst (launch_start env args p h)"
      "profile_guard env (launch_prepared env (from_view (get_arg args ''appid'' [])) cl
         (snd (launch_start env args p h))) = (Returned r, g)"
      "h' = (if ho_revert_display g then display_event Display_revert g else g)"
proof -
  let ?h = "h\<lparr>ho_revert_display := False\<rparr>"
  show thesis
  proof (cases "has_args [''rikey'', ''rikeyid'', ''localAudioPlayMode'', ''appid''] args")
    case False
    with assms have "r = refuse_resume 400" "h' = ?h\<lparr>ho_proc := ho_proc h\<rparr>"
      by (auto simp: launch_def revert_guard_def)
    then show thesis by (rule refused)
  next
    case True
    obtain q p where p: "running (en_os env) (ho_proc h) = (q, p)" by fastforce
    show thesis
    proof (cases q)
      case (Returned app)
      show thesis
      proof (cases "0 < app")
        case True
        with assms p Returned \<open>has_args _ args\<close> have "r = refuse_resume 400" "h' = ?h\<lparr>ho_proc := p\<rparr>"
          by (auto simp: launch_def revert_guard_def on_proc_def and_then_def)
        then show thesis by (rule refused)
      next
        case idle: False
        define m where "m = profile_guard env (launch_prepared env (from_view (get_arg args ''appid'' []))
          (fst (launch_start env args p h)) (snd (launch_start env args p h)))"
        have "launch env args h = revert_guard m"
          using p Returned True idle
          by (simp add: launch_def on_proc_def and_then_def m_def launch_start_def Let_def split: prod.split)
        with assms have g: "m = (Returned r, snd m)"
            "h' = (if ho_revert_display (snd m) then display_event Display_revert (snd m) else snd m)"
          by (auto simp: revert_guard_def prod_eq_iff split: if_splits)
        show thesis
          by (rule tried [OF p [unfolded Returned] _ refl g(1) [unfolded m_def] g(2) [unfolded m_def]]) (use idle in simp)
      qed
    qed (use assms p True in \<open>simp_all add: launch_def revert_guard_def on_proc_def and_then_def split: if_splits\<close>)
  qed
qed

lemma launch_start_frame:
  "ho_rtsp (snd (launch_start env args p h)) = ho_rtsp h"
  "ho_display (snd (launch_start env args p h)) = ho_display h"
  "ho_profiles (snd (launch_start env args p h)) =
     apply_profile (cl_unique_id (fst (launch_start env args p h))) (ho_profiles h)"
  "la_encrypted (fst (launch_start env args p h)) \<longleftrightarrow> 1 \<le> from_view (get_arg args ''corever'' (ascii ''0''))"
  by (simp_all add: launch_start_def new_launch_def make_launch_session_def Let_def)

lemma profile_guard_no_sessions:
  assumes "profile_guard env (r, h) = (Returned x, g)" and "rs_slots (ho_rtsp h) = []"
  shows "r = Returned x \<and> g = h\<lparr>ho_profiles := reset_profile (ho_profiles h)\<rparr>"
  using assms by (auto simp: profile_guard_def count_no_sessions split: if_splits)

lemma raise_pending:
  assumes "pending_launch (ho_rtsp g) \<noteq> None"
  shows "pending_launch (ho_rtsp (launch_session_raise l cl g)) = pending_launch (ho_rtsp g)"
proof -
  have "pending_launch (srv\<lparr>rs_launches := m\<rparr>) = pending_launch srv" for srv :: rtsp_server and m
    by (simp add: pending_launch_def)
  with assms show ?thesis by (simp add: launch_session_raise_def session_raise_def)
qed

lemma launch_prepared_encryption:
  assumes "launch_prepared env appid cl h = (r, h')" and "encryption_missing env cl"
  shows "same_launches h h' \<and> (\<forall>rep. r = Returned rep \<longrightarrow> rep \<in> {refuse_session 503, refuse_session 403})"
proof -
  obtain q g where g: "count_host env h = (q, g)" by fastforce
  note same = count_host_frame [OF g]
  let ?c = "display_event Display_configured (g\<lparr>ho_revert_display := True\<rparr>)"
  have c: "same_launches h ?c" using same by (simp add: same_launches_def display_event_def)
  show ?thesis
  proof (cases q)
    case (Returned n)
    have e: "launch_prepared env appid cl h =
      (if n = 0 then if en_probe_fails env then (Returned (refuse_session 503), ?c) else launch_app env appid cl ?c
       else launch_app env appid cl g)"
      using g Returned by (simp add: launch_prepared_def and_then_def Let_def)
    consider "r = Returned (refuse_session 503)" "h' = ?c" | "launch_app env appid cl ?c = (r, h')"
      | "launch_app env appid cl g = (r, h')"
      using assms(1) e by (metis prod.inject)
    then show ?thesis
    proof cases
      case 1
      with c show ?thesis by simp
    next
      case 2
      from launch_app_frame [OF this] assms(2) c show ?thesis by (auto intro: same_launches_trans)
    next
      case 3
      from launch_app_frame [OF this] assms(2) same show ?thesis by (auto intro: same_launches_trans)
    qed
  qed (use assms(1) g same in \<open>auto simp: launch_prepared_def and_then_def\<close>)
qed

lemma profile_guard_launches:
  assumes "profile_guard env (r, h) = (Returned x, g)"
  shows "r = Returned x \<and> same_launches h g"
proof -
  obtain q f where f: "count_host env h = (q, f)" by fastforce
  from assms f have "r = Returned x" "same_launches f g"
    by (auto simp: profile_guard_def same_launches_def split: if_splits outcome.splits)
  with count_host_frame [OF f] same_launches_trans show ?thesis by blast
qed

lemma resume_cases:
  assumes "resume env args h = (Returned r, h')"
  obtains (refused) "r \<in> {refuse_resume 503, refuse_resume 400, refuse_session 403}" "same_launches h h'"
  | (raised) cl g where "same_launches h g" "\<not> encryption_missing env cl"
      "la_encrypted cl \<longleftrightarrow> 1 \<le> from_view (get_arg args ''corever'' (ascii ''0''))"
      "h' = launch_session_raise (en_new_launch env) cl g" "rp_session_url r \<noteq> None" "rp_status_code r = 200"
proof -
  obtain q p where p: "running (en_os env) (ho_proc h) = (q, p)" by fastforce
  let ?p = "h\<lparr>ho_proc := p\<rparr>"
  have same_p: "same_launches h ?p" by (simp add: same_launches_def)
  from assms p obtain app where app: "q = Returned app"
    by (cases q) (auto simp: resume_def on_proc_def and_then_def)
  show thesis
  proof (cases "app = 0 \<or> \<not> has_args [''rikey'', ''rikeyid''] args")
    case True
    with assms p app have "r \<in> {refuse_resume 503, refuse_resume 400}" "h' = ?p"
      by (auto simp: resume_def on_proc_def and_then_def split: if_splits)
    with same_p show thesis by (intro refused) auto
  next
    case False
    obtain c g where g: "count_host env ?p = (c, g)" by fastforce
    from assms p app False g obtain n where n: "c = Returned n"
      by (cases c) (auto simp: resume_def on_proc_def and_then_def)
    define a where "a = (if n = 0 \<and> has_args [''localAudioPlayMode''] args
      then g\<lparr>ho_host_audio := from_view (get_arg args ''localAudioPlayMode'' []) \<noteq> 0\<rparr> else g)"
    define cl where "cl = fst (new_launch env args a)"
    define b where "b = (if n = 0 then display_event Display_configured (snd (new_launch env args a))
      else snd (new_launch env args a))"
    have same: "same_launches h b"
      using count_host_frame [OF g] same_p
      by (auto simp: same_launches_def a_def b_def new_launch_def display_event_def Let_def)
    have enc: "la_encrypted cl \<longleftrightarrow> 1 \<le> from_view (get_arg args ''corever'' (ascii ''0''))"
      by (simp add: cl_def new_launch_def make_launch_session_def Let_def)
    have e: "resume env args h =
      (if n = 0 \<and> en_probe_fails env then (Returned (refuse_resume 503), b)
       else if encryption_missing env cl then (Returned (refuse_session 403), b)
       else (Returned \<lparr>rp_status_code = 200, rp_resume = Some 1, rp_gamesession = None,
           rp_session_url = Some (cl_rtsp_url_scheme cl)\<rparr>, launch_session_raise (en_new_launch env) cl b))"
      using p app False g n
      by (simp add: resume_def on_proc_def and_then_def a_def [symmetric] cl_def b_def split: prod.split)
    show thesis
    proof (cases "n = 0 \<and> en_probe_fails env \<or> encryption_missing env cl")
      case True
      with assms e same show thesis by (intro refused) (auto split: if_splits)
    next
      case ok: False
      with assms e have "r = \<lparr>rp_status_code = 200, rp_resume = Some 1, rp_gamesession = None,
           rp_session_url = Some (cl_rtsp_url_scheme cl)\<rparr>" "h' = launch_session_raise (en_new_launch env) cl b"
        by auto
      with ok same enc show thesis by (intro raised [of b cl]) auto
    qed
  qed
qed

section \<open>Properties\<close>

text \<open>The profile of a client is not in force for its stream. The guard of \<open>launch\<close> resets it when
  no session is active, and at the end of a launch that succeeded none is active yet: the session only
  starts with the client's announce. So when no session was active before, the settings after
  \<open>launch\<close> are those of the user again, whatever it answered.\<close>

theorem profile_gone_after_launch:
  assumes "launch env args h = (Returned r, h')" and "rs_slots (ho_rtsp h) = []"
    and "\<not> un_active (ps_undo (ho_profiles h))"
  shows "ps_config (ho_profiles h') = ps_config (ho_profiles h) \<and> \<not> un_active (ps_undo (ho_profiles h'))"
  using assms(1)
proof (cases rule: launch_cases)
  case (refused p)
  with assms(3) show ?thesis by simp
next
  case (tried p app cl g)
  let ?s = "snd (launch_start env args p h)"
  obtain q f where f: "launch_prepared env (from_view (get_arg args ''appid'' [])) cl ?s = (q, f)" by fastforce
  have s: "rs_slots (ho_rtsp ?s) = []" using assms(2) by (simp add: launch_start_frame)
  note fr = launch_prepared_no_sessions [OF f s]
  from profile_guard_no_sessions [OF tried(4) [unfolded f]] fr
  have "ho_profiles g = reset_profile (apply_profile (cl_unique_id cl) (ho_profiles h))"
    by (simp add: launch_start_frame tried(3))
  with profile_reset_restores [OF assms(3)] tried(5) show ?thesis
    by (simp add: display_event_def)
qed

text \<open>C26: Where encryption is mandatory, a client that does not announce encrypted RTSP gets no
  session: neither \<open>launch\<close> nor \<open>resume\<close> gives it an address to connect to or changes the pending
  launch, whatever else it sends.\<close>

theorem unencrypted_launch_refused:
  assumes "launch env args h = (Returned r, h') \<or> resume env args h = (Returned r, h')"
    and "en_encryption_mode env = ENCRYPTION_MODE_MANDATORY"
    and "from_view (get_arg args ''corever'' (ascii ''0'')) < 1"
  shows "rp_session_url r = None \<and> rp_status_code r \<noteq> 200 \<and> pending_launch (ho_rtsp h') = pending_launch (ho_rtsp h)"
  using assms(1)
proof
  assume "launch env args h = (Returned r, h')"
  then show ?thesis
  proof (cases rule: launch_cases)
    case (refused p)
    then show ?thesis by (simp add: refuse_resume_def)
  next
    case (tried p app cl g)
    let ?s = "snd (launch_start env args p h)"
    obtain q f where f: "launch_prepared env (from_view (get_arg args ''appid'' [])) cl ?s = (q, f)" by fastforce
    have "encryption_missing env cl" using assms(2,3) by (simp add: encryption_missing_def tried(3) launch_start_frame)
    from launch_prepared_encryption [OF f this] profile_guard_launches [OF tried(4) [unfolded f]]
    have "same_launches ?s g" "r \<in> {refuse_session 503, refuse_session 403}"
      using same_launches_trans by auto
    moreover have "same_launches h ?s" by (simp add: same_launches_def launch_start_frame)
    ultimately have "same_launches h h'"
      using tried(5) by (auto simp: same_launches_def display_event_def)
    with \<open>r \<in> _\<close> show ?thesis using same_launches_pending by (auto simp: refuse_session_def)
  qed
next
  assume "resume env args h = (Returned r, h')"
  then show ?thesis
  proof (cases rule: resume_cases)
    case refused
    then show ?thesis using same_launches_pending by (auto simp: refuse_session_def refuse_resume_def)
  next
    case (raised cl g)
    with assms(2,3) show ?thesis by (simp add: encryption_missing_def)
  qed
qed

text \<open>A launch that is refused puts the display back when no session was active: every
  configuration of the display is followed by its revert.\<close>

theorem refused_launch_reverts_display:
  assumes "launch env args h = (Returned r, h')" and "rs_slots (ho_rtsp h) = []" and "rp_session_url r = None"
  shows "ho_display h' = ho_display h \<or> ho_display h' = ho_display h @ [Display_configured, Display_revert]"
  using assms(1)
proof (cases rule: launch_cases)
  case (tried p app cl g)
  let ?s = "snd (launch_start env args p h)"
  obtain q f where f: "launch_prepared env (from_view (get_arg args ''appid'' [])) cl ?s = (q, f)" by fastforce
  have s: "rs_slots (ho_rtsp ?s) = []" using assms(2) by (simp add: launch_start_frame)
  note fr = launch_prepared_no_sessions [OF f s]
  from profile_guard_no_sessions [OF tried(4) [unfolded f]] fr
  have g: "g = f\<lparr>ho_profiles := reset_profile (ho_profiles f)\<rparr>" "q = Returned r" by simp_all
  with fr assms(3) tried(5) show ?thesis by (simp add: display_event_def launch_start_frame)
qed simp

lemma resume_refused_late:
  assumes "running (en_os env) (ho_proc h) = (Returned app, p)" and "app \<noteq> 0"
    and "has_args [''rikey'', ''rikeyid''] args" and "rs_slots (ho_rtsp h) = []"
    and "en_encryption_mode env = ENCRYPTION_MODE_MANDATORY"
    and "from_view (get_arg args ''corever'' (ascii ''0'')) < 1" and "\<not> en_probe_fails env"
  shows "\<exists>h'. resume env args h = (Returned (refuse_session 403), h') \<and>
    ho_display h' = ho_display h @ [Display_configured]"
proof -
  have c: "count_host env (h\<lparr>ho_proc := p\<rparr>) = (Returned 0, h\<lparr>ho_proc := p\<rparr>)"
    using assms(4) by (intro count_no_sessions) simp
  show ?thesis
    using assms c
    by (simp add: resume_def on_proc_def and_then_def new_launch_def make_launch_session_def
        encryption_missing_def display_event_def Let_def)
qed

text \<open>A resume that is refused leaves the display configured: unlike \<open>launch\<close> it has no guard that
  reverts it. Here the client is refused because encryption is mandatory.\<close>

theorem refused_resume_keeps_display:
  assumes "running (en_os env) (ho_proc h) = (Returned app, p)" and "app \<noteq> 0"
    and "has_args [''rikey'', ''rikeyid''] args" and "rs_slots (ho_rtsp h) = []"
    and "en_encryption_mode env = ENCRYPTION_MODE_MANDATORY"
    and "from_view (get_arg args ''corever'' (ascii ''0'')) < 1" and "\<not> en_probe_fails env"
  shows "\<exists>h'. resume env args h = (Returned (refuse_session 403), h') \<and>
    ho_display h' = ho_display h @ [Display_configured]"
  using assms by (rule resume_refused_late)

text \<open>While a launch is pending, another client that resumes is told that it may connect, but its
  launch session is dropped: the pending one, with the other client's key, stays.\<close>

theorem resume_told_ok_but_dropped:
  assumes "resume env args h = (Returned r, h')" and "rp_status_code r = 200"
    and "pending_launch (ho_rtsp h) \<noteq> None"
  shows "rp_session_url r \<noteq> None \<and> pending_launch (ho_rtsp h') = pending_launch (ho_rtsp h)"
  using assms(1)
proof (cases rule: resume_cases)
  case refused
  with assms(2) show ?thesis by (auto simp: refuse_session_def refuse_resume_def)
next
  case (raised cl g)
  have "pending_launch (ho_rtsp h') = pending_launch (ho_rtsp g)"
    unfolding raised(4) using assms(3) same_launches_pending [OF raised(1)] by (intro raise_pending) simp
  with raised same_launches_pending [OF raised(1)] show ?thesis by simp
qed

lemma sessions_joined_profiles:
  "sessions_joined env n h = (r, h') \<Longrightarrow> 0 < n \<or> \<not> un_active (ps_undo (ho_profiles h)) \<Longrightarrow>
   \<not> un_active (ps_undo (ho_profiles h'))"
proof (induction n arbitrary: h)
  case (Suc n)
  obtain q g where g: "session_joined env h = (q, g)" by fastforce
  then have "ho_profiles g = reset_profile (ho_profiles h)"
    by (auto simp: session_joined_def and_then_def on_proc_def display_event_def Let_def
        split: if_splits prod.splits outcome.splits)
  then have off: "\<not> un_active (ps_undo (ho_profiles g))" by (simp add: reset_profile_def)
  from Suc.prems(1) g have "q = Returned () \<and> sessions_joined env n g = (r, h') \<or> h' = g"
    by (cases q) (auto simp: and_then_def)
  with off Suc.IH show ?case by auto
qed auto

text \<open>C29: Cancelling ends every session: all of them are stopped and joined, none is left in the set, the
  profile of a client is no longer in force, and the last thing that happens to the display is its
  revert.\<close>

theorem cancel_ends_sessions:
  assumes "cancel env h = (Returned (), h')" and "rs_slots (ho_rtsp h) \<noteq> []"
  shows "rs_slots (ho_rtsp h') = [] \<and>
    rs_joined (ho_rtsp h') = rs_joined (ho_rtsp h) @ map sl_id (rs_slots (ho_rtsp h)) \<and>
    \<not> un_active (ps_undo (ho_profiles h')) \<and> last (ho_display h') = Display_revert"
proof -
  from assms(1) obtain u g app k v l where
    g: "clear_host True env h = (Returned u, g)" and
    k: "on_proc (running (en_os env)) g = (Returned app, k)" and
    l: "(if 0 < app then on_proc (terminate (en_os env)) k else (Returned (), k)) = (Returned v, l)" and
    h': "h' = display_event Display_revert l"
    unfolding cancel_def and_then_Returned by (metis prod.inject)
  have kl: "ho_rtsp l = ho_rtsp g" "ho_profiles l = ho_profiles g"
    using k l by (auto simp: on_proc_eq split: if_splits)
  have slots: "rs_slots (clear_sessions True (ho_rtsp h)) = []"
    "rs_joined (clear_sessions True (ho_rtsp h)) = rs_joined (ho_rtsp h) @ map sl_id (rs_slots (ho_rtsp h))"
    by (simp_all add: clear_sessions_def stop_join_erase_def)
  have "sessions_joined env (length (rs_slots (ho_rtsp h))) (h\<lparr>ho_rtsp := clear_sessions True (ho_rtsp h)\<rparr>) = (Returned u, g)"
    using g slots by (simp add: clear_host_def Let_def)
  from sessions_joined_profiles [OF this] assms(2) have "\<not> un_active (ps_undo (ho_profiles g))" by simp
  with clear_host_frame [OF g] slots kl show ?thesis by (simp add: h' display_event_def)
qed

section \<open>Examples\<close>

definition demo_source :: launch_source where
  "demo_source = \<lparr>so_client_cert = [], so_ping_payload = [], so_connect_data = 0\<rparr>"

definition quiet_env :: http_env where
  "quiet_env = \<lparr>en_os = quiet_os, en_source = demo_source, en_probe_fails = False, en_encryption_mode = 0,
     en_revert_on_disconnect = False, en_new_launch = 1\<rparr>"

lemma quiet_env_simps [simp]:
  "en_os quiet_env = quiet_os" "\<not> en_probe_fails quiet_env" "en_encryption_mode quiet_env = 0"
  by (simp_all add: quiet_env_def)

definition strict_env :: http_env where
  "strict_env = quiet_env\<lparr>en_encryption_mode := ENCRYPTION_MODE_MANDATORY\<rparr>"

definition demo_query :: query where
  "demo_query = [(ascii ''rikey'', []), (ascii ''RIKEYID'', [49]), (ascii ''localAudioPlayMode'', [48]),
     (ascii ''appid'', [48]), (ascii ''uniqueid'', [84])]"

definition demo_http_host :: host_state where
  "demo_http_host = \<lparr>ho_rtsp = rtsp_server_new, ho_proc = idle_proc, ho_profiles = tv_state,
     ho_running_sessions = 0, ho_host_audio = False, ho_session_id_counter = 0, ho_display = [],
     ho_revert_display = False\<rparr>"

lemma demo_args:
  "has_args [''rikey'', ''rikeyid'', ''localAudioPlayMode'', ''appid''] demo_query"
  "has_args [''rikey'', ''rikeyid''] demo_query"
  "get_arg demo_query ''uniqueid'' d = [84]" "get_arg demo_query ''appid'' d = [48]"
  "get_arg demo_query ''corever'' d = d"
  by (simp_all add: has_args_def get_arg_def find_arg_def demo_query_def ascii_def lower_char_def value_or_def)

lemma demo_numbers: "from_view [48] = 0" "from_view (ascii ''0'') = 0"
  by (simp_all add: from_view_def parse_int64_def parse_integer_def decimal_digit_def ascii_def)

lemma demo_no_sessions [simp]: "rs_slots (ho_rtsp demo_http_host) = []"
  by (simp add: demo_http_host_def rtsp_server_new_def)

lemma idle_running: "running quiet_os idle_proc = (Returned 0, idle_proc)"
  by (simp add: running_def idle_proc_def proc_new_def no_app_def)

lemma quiet_launch_unfold:
  assumes "en_os env = quiet_os"
  shows "launch env demo_query demo_http_host =
    revert_guard (profile_guard env (launch_prepared env 0
      (fst (launch_start env demo_query idle_proc demo_http_host))
      (snd (launch_start env demo_query idle_proc demo_http_host))))"
  by (simp add: launch_def demo_args demo_numbers on_proc_def assms idle_running and_then_def
      launch_start_def demo_http_host_def [THEN arg_cong, of ho_proc] Let_def split: prod.split)

lemma quiet_launch_result:
  assumes "en_os env = quiet_os"
    and "launch_prepared env 0 (fst (launch_start env demo_query idle_proc demo_http_host))
      (snd (launch_start env demo_query idle_proc demo_http_host)) = (Returned r, f)"
  shows "\<exists>h'. launch env demo_query demo_http_host = (Returned r, h')"
proof -
  have no_s: "rs_slots (ho_rtsp (snd (launch_start env demo_query idle_proc demo_http_host))) = []"
    by (simp add: launch_start_frame)
  from launch_prepared_no_sessions [OF assms(2) no_s] have "rs_slots (ho_rtsp f) = []" by simp
  then show ?thesis
    unfolding quiet_launch_unfold [OF assms(1)] assms(2)
    by (simp add: profile_guard_def count_no_sessions revert_guard_def)
qed

lemma quiet_launch_ok:
  "\<exists>r h'. launch quiet_env demo_query demo_http_host = (Returned r, h') \<and> rp_status_code r = 200"
proof -
  let ?s = "launch_start quiet_env demo_query idle_proc demo_http_host"
  have "rs_slots (ho_rtsp (snd ?s)) = []" by (simp add: launch_start_frame)
  note count_no_sessions [OF this, of quiet_env]
  then have "\<exists>f r. launch_prepared quiet_env 0 (fst ?s) (snd ?s) = (Returned r, f) \<and> rp_status_code r = 200"
    by (simp add: launch_prepared_def and_then_def launch_app_def Let_def encryption_missing_def)
  with quiet_launch_result [of quiet_env] show ?thesis by fastforce
qed

text \<open>Here the encoders cannot be initialised.\<close>

definition blind_env :: http_env where
  "blind_env = quiet_env\<lparr>en_probe_fails := True\<rparr>"

lemma blind_launch: "\<exists>h'. launch blind_env demo_query demo_http_host = (Returned (refuse_session 503), h')"
proof -
  let ?s = "launch_start blind_env demo_query idle_proc demo_http_host"
  have b: "en_probe_fails blind_env" "en_os blind_env = quiet_os" by (simp_all add: blind_env_def)
  have "rs_slots (ho_rtsp (snd ?s)) = []" by (simp add: launch_start_frame)
  note count_no_sessions [OF this, of blind_env]
  then have "\<exists>f. launch_prepared blind_env 0 (fst ?s) (snd ?s) = (Returned (refuse_session 503), f)"
    by (simp add: launch_prepared_def and_then_def Let_def b)
  with quiet_launch_result [OF b(2)] show ?thesis by blast
qed

lemma demo_start_profile:
  "ps_config (ho_profiles (snd (launch_start quiet_env demo_query idle_proc demo_http_host))) =
     (ps_config tv_state)\<lparr>se_max_bitrate := 30000\<rparr>"
  by (simp add: launch_start_frame) (simp add: launch_start_def new_launch_def make_launch_session_def demo_args
      demo_http_host_def apply_profile_def tv_state_def tv_profile_def profile_new_def override_settings_def
      BITRATE_MAX_KBPS_def profiles_new_def ascii_def Let_def)

lemma profile_gone_after_launch_witness:
  "\<exists>r h'. launch quiet_env demo_query demo_http_host = (Returned r, h') \<and> rp_status_code r = 200 \<and>
     se_max_bitrate (ps_config (ho_profiles (snd (launch_start quiet_env demo_query idle_proc demo_http_host)))) = 30000 \<and>
     se_max_bitrate (ps_config (ho_profiles h')) = 0"
proof -
  obtain r h' where l: "launch quiet_env demo_query demo_http_host = (Returned r, h')" "rp_status_code r = 200"
    using quiet_launch_ok by blast
  have off: "\<not> un_active (ps_undo (ho_profiles demo_http_host))"
    by (simp add: demo_http_host_def tv_state_def profiles_new_def)
  have "se_max_bitrate (ps_config (ho_profiles demo_http_host)) = 0"
    by (simp add: demo_http_host_def tv_state_def profiles_new_def)
  with profile_gone_after_launch [OF l(1) demo_no_sessions off] l demo_start_profile show ?thesis
    by (intro exI [of _ r] exI [of _ h']) simp
qed

text \<open>A host whose application runs, and one without.\<close>

definition busy_host :: host_state where
  "busy_host = demo_http_host\<lparr>ho_proc := idle_proc\<lparr>pr_app_id := 7, pr_placebo := True\<rparr>\<rparr>"

lemma busy_running: "running quiet_os (ho_proc busy_host) = (Returned 7, ho_proc busy_host)"
  by (simp add: busy_host_def running_def)

lemma strict_facts:
  "running (en_os strict_env) (ho_proc busy_host) = (Returned 7, ho_proc busy_host)"
  "rs_slots (ho_rtsp busy_host) = []" "en_encryption_mode strict_env = ENCRYPTION_MODE_MANDATORY"
  "from_view (get_arg demo_query ''corever'' (ascii ''0'')) < 1" "\<not> en_probe_fails strict_env"
  using busy_running by (simp_all add: demo_args demo_numbers strict_env_def busy_host_def)

lemma refused_resume_keeps_display_witness:
  "\<exists>h'. resume strict_env demo_query busy_host = (Returned (refuse_session 403), h') \<and>
     ho_display h' = [Display_configured]"
  using refused_resume_keeps_display [OF strict_facts(1) _ demo_args(2) strict_facts(2-5)]
  by (simp add: busy_host_def demo_http_host_def)

lemma unencrypted_launch_refused_witness:
  "\<exists>r h'. resume strict_env demo_query busy_host = (Returned r, h') \<and> rp_session_url r = None \<and> rp_status_code r = 403"
proof -
  obtain h' where r: "resume strict_env demo_query busy_host = (Returned (refuse_session 403), h')"
    using resume_refused_late [OF strict_facts(1) _ demo_args(2) strict_facts(2-5)] by auto
  with unencrypted_launch_refused [OF disjI2 [OF r] strict_facts(3,4)] show ?thesis
    by (auto simp: refuse_session_def)
qed

lemma refused_launch_reverts_display_witness:
  "\<exists>r h'. launch blind_env demo_query demo_http_host = (Returned r, h') \<and>
     (ho_display h' = [] \<or> ho_display h' = [Display_configured, Display_revert])"
proof -
  obtain h' where r: "launch blind_env demo_query demo_http_host = (Returned (refuse_session 503), h')"
    using blind_launch by blast
  with refused_launch_reverts_display [OF r demo_no_sessions] show ?thesis
    by (intro exI [of _ "refuse_session 503"] exI [of _ h']) (simp add: refuse_session_def demo_http_host_def)
qed

text \<open>A launch of another client is pending.\<close>

definition waiting_host :: host_state where
  "waiting_host = busy_host\<lparr>ho_rtsp := session_raise 0 rtsp_server_new\<rparr>"

lemma waiting_facts:
  "pending_launch (ho_rtsp waiting_host) = Some 0" "rs_slots (ho_rtsp waiting_host) = []"
  "running quiet_os (ho_proc waiting_host) = (Returned 7, ho_proc waiting_host)"
  using busy_running by (simp_all add: waiting_host_def busy_host_def session_raise_def pending_launch_def
      rtsp_server_new_def event_new_def event_raise_def)

lemma resume_told_ok_but_dropped_witness:
  "\<exists>r h'. resume quiet_env demo_query waiting_host = (Returned r, h') \<and> rp_status_code r = 200 \<and>
     pending_launch (ho_rtsp h') = Some 0"
proof -
  have c: "count_host quiet_env (waiting_host\<lparr>ho_proc := ho_proc waiting_host\<rparr>) =
      (Returned 0, waiting_host\<lparr>ho_proc := ho_proc waiting_host\<rparr>)"
    using waiting_facts(2) by (intro count_no_sessions) simp
  have "\<exists>r h'. resume quiet_env demo_query waiting_host = (Returned r, h') \<and> rp_status_code r = 200"
    using waiting_facts(3) c
    by (simp add: resume_def on_proc_def and_then_def demo_args encryption_missing_def Let_def split: prod.split)
  then obtain r h' where r: "resume quiet_env demo_query waiting_host = (Returned r, h')" "rp_status_code r = 200"
    by blast
  with resume_told_ok_but_dropped [OF r] waiting_facts(1) show ?thesis by auto
qed

text \<open>A host with a session that is stopping.\<close>

definition streaming_host :: host_state where
  "streaming_host = busy_host\<lparr>ho_rtsp := rtsp_server_new\<lparr>rs_slots := [demo_slot\<lparr>sl_id := 0, sl_state := STOPPING\<rparr>]\<rparr>, ho_running_sessions := 1\<rparr>"

lemma cancel_ends_sessions_witness:
  "\<exists>h'. cancel quiet_env streaming_host = (Returned (), h') \<and> rs_joined (ho_rtsp h') = [0]"
proof -
  have w: "\<forall>log c. os_wait quiet_os log c \<noteq> None" by (simp add: quiet_os_def)
  have "\<exists>h'. cancel quiet_env streaming_host = (Returned (), h')"
    using busy_running terminate_returns [OF w, of "ho_proc busy_host"]
    by (auto simp: cancel_def clear_host_def streaming_host_def clear_sessions_def stop_join_erase_def
        session_joined_def and_then_def on_proc_def display_event_def Let_def split: prod.split)
  then obtain h' where h': "cancel quiet_env streaming_host = (Returned (), h')" by blast
  have "rs_slots (ho_rtsp streaming_host) \<noteq> []" "rs_joined (ho_rtsp streaming_host) = []"
    "map sl_id (rs_slots (ho_rtsp streaming_host)) = [0]"
    by (simp_all add: streaming_host_def rtsp_server_new_def)
  with cancel_ends_sessions [OF h'] h' show ?thesis by auto
qed

text \<open>The key of a session is as long as the client's text says; nothing asks for the 16 bytes the cipher
  reads.\<close>

theorem launch_key_unchecked:
  assumes "find_arg args ''rikey'' = Some (concat (map hex_byte key))"
  shows "cl_gcm_key (make_launch_session so counter host_audio args) = key"
proof -
  have "from_hex_vec (concat (map hex_byte key)) True = key"
    by (simp add: from_hex_vec_def decode_hex_def decode_hex_bytes)
  with assms show ?thesis by (simp add: make_launch_session_def get_arg_def value_or_def Let_def)
qed

lemma launch_key_unchecked_witness: "cl_gcm_key (make_launch_session demo_source 0 False demo_query) = []"
proof -
  have "find_arg demo_query ''rikey'' = Some (concat (map hex_byte []))"
    by (simp add: find_arg_def demo_query_def ascii_def lower_char_def)
  from launch_key_unchecked [OF this] show ?thesis .
qed

text \<open>An application whose CRC is 0 has the identifier 0, which \<open>launch\<close> takes for no application at all:
  it answers 200 and starts nothing.\<close>

theorem app_zero_not_started:
  assumes "\<not> encryption_missing env cl"
  shows "signed_id 0 = int_text 0 \<and>
    (\<exists>r h'. launch_app env 0 cl h = (Returned r, h') \<and> rp_status_code r = 200 \<and> ho_proc h' = ho_proc h)"
  using assms by (simp add: launch_app_def launch_session_raise_def signed_id_def Let_def)

lemma app_zero_not_started_witness:
  "\<exists>r h'. launch_app quiet_env 0 (make_launch_session demo_source 0 False demo_query) demo_http_host = (Returned r, h') \<and>
     rp_status_code r = 200 \<and> ho_proc h' = ho_proc demo_http_host"
proof -
  have "\<not> encryption_missing quiet_env (make_launch_session demo_source 0 False demo_query)"
    by (simp add: encryption_missing_def)
  from app_zero_not_started [OF this, of demo_http_host] show ?thesis by simp
qed

end
