(* ===== verification/ConfigFile.thy ===== *)
theory ConfigFile
  imports NetUtil "HOL-Library.AList"
begin

text \<open>
  The text of the configuration file (\<^verbatim>\<open>src/config.cpp\<close>): \<open>parse_option\<close> and \<open>parse_config\<close> with their
  comments and lists. The lemmas show what a file of plain options is read back as, and what a list
  without its end does to the rest of the file.
\<close>

section \<open>Lines, comments and lists\<close>

definition endline :: "u8 \<Rightarrow> bool" where
  "endline c \<longleftrightarrow> c = 13 \<or> c = 10"

definition space_tab :: "u8 \<Rightarrow> bool" where
  "space_tab c \<longleftrightarrow> c = 32 \<or> c = 9"

definition whitespace :: "u8 \<Rightarrow> bool" where
  "whitespace c \<longleftrightarrow> space_tab c \<or> endline c"

lemma dropWhile_shorter: "length (dropWhile P xs) \<le> length xs"
  by (rule length_dropWhile_le)

lemma dropWhile_Cons_shorter: "P x \<Longrightarrow> length (dropWhile P (x # xs)) < Suc (length xs)"
  using dropWhile_shorter [of P xs] by simp

text \<open>\<open>to_string\<close>: the text without what lies between a hash and the end of its line.\<close>

function strip_comments :: "bytes \<Rightarrow> bytes" where
  "strip_comments [] = []"
| "strip_comments (c # cs) =
    takeWhile (\<lambda>c. c \<noteq> 35) (c # cs) @
    strip_comments (dropWhile (\<lambda>c. \<not> endline c) (dropWhile (\<lambda>c. c \<noteq> 35) (c # cs)))"
  by pat_completeness auto
termination
proof (relation "measure length", goal_cases)
  case (2 c cs)
  show ?case
  proof (cases "c = 35")
    case True
    then show ?thesis using dropWhile_Cons_shorter [of "\<lambda>c. \<not> endline c" 35 cs] by (simp add: endline_def)
  next
    case False
    then have "length (dropWhile (\<lambda>c. c \<noteq> 35) (c # cs)) < Suc (length cs)" by (rule dropWhile_Cons_shorter)
    then show ?thesis
      using dropWhile_shorter [of "\<lambda>c. \<not> endline c" "dropWhile (\<lambda>c. c \<noteq> 35) (c # cs)"] by simp
  qed
qed simp

text \<open>What follows the bracket that closes a list.\<close>

fun skip_list :: "int \<Rightarrow> bytes \<Rightarrow> bytes" where
  "skip_list stack [] = []"
| "skip_list stack (c # cs) =
    (if stack = 0 then c # cs
     else skip_list (if c = 91 then stack + 1 else if c = 93 then stack - 1 else stack) cs)"

lemma skip_list_shorter: "length (skip_list stack cs) \<le> length cs"
  by (induction cs arbitrary: stack) (simp_all add: le_SucI)

section \<open>One option\<close>

definition trim_end :: "(u8 \<Rightarrow> bool) \<Rightarrow> bytes \<Rightarrow> bytes" where
  "trim_end P cs = rev (dropWhile P (rev cs))"

text \<open>
  The iterators of \<open>parse_option\<close> as lists: \<open>line\<close> is the text between \<open>begin\<close> and \<open>endl\<close>, \<open>content\<close>
  ends at \<open>endc\<close>, \<open>at_value\<close> is the text from \<open>begin_val\<close> to the end of the file. The result is the
  text from \<open>endl\<close> on and the option.
\<close>

definition parse_option :: "bytes \<Rightarrow> bytes \<times> (bytes \<times> bytes) option" where
  "parse_option src =
    (let start = dropWhile whitespace src;
         line = takeWhile (\<lambda>c. \<not> endline c) start;
         endl = dropWhile (\<lambda>c. \<not> endline c) start;
         content = trim_end whitespace (takeWhile (\<lambda>c. c \<noteq> 35) line) in
     if 61 \<notin> set content \<or> hd content = 61 then (endl, None)
     else
       let name = trim_end space_tab (takeWhile (\<lambda>c. c \<noteq> 61) content);
           skipped = length content - length (dropWhile space_tab (tl (dropWhile (\<lambda>c. c \<noteq> 61) content)));
           at_value = drop skipped start in
       if skipped = length line then (endl, None)
       else if hd at_value = 91 then
         let endl = skip_list 1 (tl at_value) in
         if endl = [] \<and> tl at_value = [] then (endl, None)
         else (endl, Some (strip_comments name, strip_comments (take (length at_value - length endl) at_value)))
       else (endl, Some (strip_comments name, strip_comments (drop skipped line))))"

section \<open>The file\<close>

lemma parse_option_shorter: "length (fst (parse_option src)) \<le> length src"
proof -
  let ?start = "dropWhile whitespace src"
  have s: "length ?start \<le> length src" by (rule dropWhile_shorter)
  have e: "length (dropWhile (\<lambda>c. \<not> endline c) ?start) \<le> length src"
    using dropWhile_shorter [of "\<lambda>c. \<not> endline c" ?start] s by simp
  have l: "length (skip_list 1 (tl (drop k ?start))) \<le> length src" for k
    using skip_list_shorter [of 1 "tl (drop k ?start)"] s by simp
  show ?thesis using e l by (simp add: parse_option_def Let_def)
qed

text \<open>After an option one character is passed over, two when it is a carriage return.\<close>

definition next_option :: "bytes \<Rightarrow> bytes" where
  "next_option endl = (case endl of [] \<Rightarrow> [] | c # cs \<Rightarrow> if c = 13 then tl cs else cs)"

lemma next_option_shorter: "endl \<noteq> [] \<Longrightarrow> length (next_option endl) < length endl"
  by (cases endl) (auto simp: next_option_def)

lemma next_option_progress:
  "parse_option src = (endl, x) \<Longrightarrow> src \<noteq> [] \<Longrightarrow> length (next_option endl) < length src"
  using parse_option_shorter [of src] next_option_shorter [of endl]
  by (cases "endl = []") (simp_all add: next_option_def)

function config_entries :: "bytes \<Rightarrow> (bytes \<times> bytes) list" where
  "config_entries src =
    (if src = [] then []
     else
       case parse_option src of
         (endl, None) \<Rightarrow> config_entries (next_option endl)
       | (endl, Some var) \<Rightarrow> var # config_entries (next_option endl))"
  by pat_completeness auto
termination by (relation "measure length") (auto intro: next_option_progress dest: sym)

declare config_entries.simps [simp del]

text \<open>
  The variables, an \<open>unordered_map\<close>, as an association list in the order in which the map would be
  walked. \<open>emplace\<close> keeps the first value of a name.
\<close>

type_synonym vars = "(bytes \<times> bytes) list"

definition emplace_var :: "bytes \<times> bytes \<Rightarrow> vars \<Rightarrow> vars" where
  "emplace_var var vars = (if map_of vars (fst var) = None then vars @ [var] else vars)"

definition parse_config :: "bytes \<Rightarrow> vars" where
  "parse_config src = fold emplace_var (config_entries src) []"

lemma emplace_all:
  "map_of (fold emplace_var es vars) = map_of es ++ map_of vars \<and>
   (distinct (map fst vars) \<longrightarrow> distinct (map fst (fold emplace_var es vars)))"
proof (induction es arbitrary: vars)
  case (Cons e es)
  have "map_of (emplace_var e vars) = [fst e \<mapsto> snd e] ++ map_of vars"
    by (cases e) (auto simp: emplace_var_def map_add_def fun_eq_iff map_of_append split: option.split)
  moreover have "distinct (map fst vars) \<longrightarrow> distinct (map fst (emplace_var e vars))"
    by (auto simp: emplace_var_def map_of_eq_None_iff)
  moreover have "map_of (e # es) = map_of es ++ [fst e \<mapsto> snd e]" by (cases e) simp
  ultimately show ?case using Cons [of "emplace_var e vars"]
    unfolding fold_simps by (metis map_add_assoc)
qed simp

section \<open>Facts\<close>

lemma trim_end_keep: "cs = [] \<or> \<not> P (last cs) \<Longrightarrow> trim_end P cs = cs"
  by (cases cs rule: rev_cases) (auto simp: trim_end_def)

lemma trim_end_append: "cs \<noteq> [] \<Longrightarrow> \<not> P (last cs) \<Longrightarrow> list_all P ws \<Longrightarrow> trim_end P (cs @ ws) = cs"
  by (cases cs rule: rev_cases) (auto simp: trim_end_def dropWhile_append3 list_all_iff dropWhile_append2)

lemma strip_plain: "35 \<notin> set cs \<Longrightarrow> strip_comments cs = cs"
proof (cases cs)
  case (Cons c ds)
  assume "35 \<notin> set cs"
  then have "takeWhile (\<lambda>c. c \<noteq> 35) cs = cs" "dropWhile (\<lambda>c. c \<noteq> 35) cs = []"
    by (auto simp: takeWhile_eq_all_conv dropWhile_eq_Nil_conv)
  then show ?thesis unfolding Cons by simp
qed simp

lemma strip_comment:
  assumes "35 \<notin> set cs" and "list_all (\<lambda>c. \<not> endline c) comment"
  shows "strip_comments (cs @ 35 # comment) = cs"
proof -
  have take: "takeWhile (\<lambda>c. c \<noteq> 35) (cs @ 35 # comment) = cs"
    and drop: "dropWhile (\<lambda>c. c \<noteq> 35) (cs @ 35 # comment) = 35 # comment"
    using assms(1) by (subst takeWhile_append2 dropWhile_append2; auto)+
  have all: "dropWhile (\<lambda>c. \<not> endline c) (35 # comment) = []"
    using assms(2) by (simp add: dropWhile_eq_Nil_conv list_all_iff endline_def)
  obtain d ds where d: "cs @ 35 # comment = d # ds" by (cases cs) auto
  show ?thesis using take drop all unfolding d by simp
qed

text \<open>A name and a value that the file format carries unchanged.\<close>

definition plain_name :: "bytes \<Rightarrow> bool" where
  "plain_name n \<longleftrightarrow> n \<noteq> [] \<and> 61 \<notin> set n \<and> 35 \<notin> set n \<and> list_all (\<lambda>c. \<not> endline c) n \<and>
     \<not> whitespace (hd n) \<and> \<not> whitespace (last n)"

definition plain_value :: "bytes \<Rightarrow> bool" where
  "plain_value v \<longleftrightarrow> v \<noteq> [] \<and> 35 \<notin> set v \<and> list_all (\<lambda>c. \<not> endline c) v \<and>
     \<not> whitespace (hd v) \<and> hd v \<noteq> 91 \<and> \<not> whitespace (last v)"

definition option_line :: "bytes \<Rightarrow> bytes \<Rightarrow> bytes" where
  "option_line n v = n @ [32, 61, 32] @ v"

text \<open>A line with a plain option, something blank and a comment behind it.\<close>

lemma parse_option_line:
  assumes n: "plain_name n" and v: "plain_value v" and blank: "list_all space_tab blank"
    and comment: "comment = [] \<or> hd comment = 35" "list_all (\<lambda>c. \<not> endline c) comment"
    and rest: "rest = [] \<or> endline (hd rest)"
  shows "parse_option (option_line n v @ blank @ comment @ rest) = (rest, Some (n, v @ blank))"
proof -
  let ?line = "option_line n v @ blank @ comment"
  have lit: "\<not> endline 32" "\<not> endline 61" "space_tab 32" "\<not> space_tab 61" "whitespace 32" "\<not> whitespace 61"
    by (simp_all add: endline_def space_tab_def whitespace_def)
  have blank_ok: "list_all (\<lambda>c. \<not> endline c) blank" "35 \<notin> set blank" "list_all whitespace blank"
    using blank by (auto simp: list_all_iff space_tab_def endline_def whitespace_def)
  have line_ok: "list_all (\<lambda>c. \<not> endline c) ?line"
    using n v blank_ok(1) comment(2) lit by (simp add: option_line_def plain_name_def plain_value_def)
  have start: "dropWhile whitespace (?line @ rest) = ?line @ rest"
    using n by (cases n) (simp_all add: option_line_def plain_name_def)
  have tl_rest: "takeWhile (\<lambda>c. \<not> endline c) rest = []" "dropWhile (\<lambda>c. \<not> endline c) rest = rest"
    using rest by (cases rest; simp)+
  have take: "takeWhile (\<lambda>c. \<not> endline c) (?line @ rest) = ?line"
    using line_ok tl_rest by (simp add: takeWhile_append2 list_all_iff)
  have drop: "dropWhile (\<lambda>c. \<not> endline c) (?line @ rest) = rest"
    using line_ok tl_rest by (simp add: dropWhile_append2 list_all_iff)
  have nohash: "35 \<notin> set (option_line n v @ blank)"
    using n v blank_ok(2) by (simp add: option_line_def plain_name_def plain_value_def)
  have hash: "takeWhile (\<lambda>c. c \<noteq> 35) ?line = option_line n v @ blank"
  proof (cases comment)
    case Nil
    then show ?thesis using nohash by (auto simp: takeWhile_eq_all_conv)
  next
    case (Cons c cs)
    with comment(1) have "takeWhile (\<lambda>c. c \<noteq> 35) ((option_line n v @ blank) @ comment) = option_line n v @ blank"
      using nohash by (subst takeWhile_append2) auto
    then show ?thesis by simp
  qed
  have content: "trim_end whitespace (option_line n v @ blank) = option_line n v"
    using v blank_ok(3) by (intro trim_end_append) (simp_all add: option_line_def plain_value_def)
  have eq: "61 \<in> set (option_line n v)" "hd (option_line n v) \<noteq> 61"
    using n by (cases n; simp add: option_line_def plain_name_def)+
  have name: "takeWhile (\<lambda>c. c \<noteq> 61) (option_line n v) = n @ [32]"
    "dropWhile (\<lambda>c. c \<noteq> 61) (option_line n v) = 61 # 32 # v"
    using n unfolding option_line_def plain_name_def
    by (subst takeWhile_append2 dropWhile_append2; auto)+
  have end_name: "trim_end space_tab (n @ [32]) = n"
    using n lit by (intro trim_end_append) (auto simp: plain_name_def whitespace_def)
  have val: "dropWhile space_tab (32 # v) = v"
    using v lit by (cases v) (auto simp: plain_value_def whitespace_def)
  have skipped: "length (option_line n v) - length v = length n + 3" by (simp add: option_line_def)
  have at_value: "drop (length n + 3) (?line @ rest) = v @ blank @ comment @ rest"
    "drop (length n + 3) ?line = v @ blank @ comment"
    by (simp_all add: option_line_def)
  have len: "length n + 3 \<noteq> length ?line" using v by (simp add: option_line_def plain_value_def)
  have hd_v: "hd (v @ blank @ comment @ rest) \<noteq> 91" using v by (cases v) (simp_all add: plain_value_def)
  have strip: "strip_comments n = n" "strip_comments (v @ blank @ comment) = v @ blank"
  proof -
    show "strip_comments n = n" using n by (intro strip_plain) (simp add: plain_name_def)
    have vb: "35 \<notin> set (v @ blank)" using v blank_ok(2) by (simp add: plain_value_def)
    show "strip_comments (v @ blank @ comment) = v @ blank"
    proof (cases comment)
      case Nil
      then show ?thesis using strip_plain [OF vb] by simp
    next
      case (Cons c cs)
      then show ?thesis using strip_comment [OF vb, of cs] comment by simp
    qed
  qed
  have "parse_option (?line @ rest) = (rest, Some (n, v @ blank))"
    unfolding parse_option_def Let_def start take drop hash content name list.sel val skipped
      at_value end_name strip using eq len hd_v by simp
  then show ?thesis by simp
qed

text \<open>A file of plain options.\<close>

definition config_text :: "(bytes \<times> bytes) list \<Rightarrow> bytes" where
  "config_text entries = concat (map (\<lambda>(n, v). option_line n v @ [10]) entries)"

lemma config_entries_text:
  "list_all (\<lambda>(n, v). plain_name n \<and> plain_value v) entries \<Longrightarrow> config_entries (config_text entries) = entries"
proof (induction entries)
  case Nil
  then show ?case by (simp add: config_text_def config_entries.simps)
next
  case (Cons e entries)
  obtain n v where e: "e = (n, v)" by fastforce
  have "parse_option (option_line n v @ [] @ [] @ 10 # config_text entries) = (10 # config_text entries, Some (n, v @ []))"
    using Cons.prems e by (intro parse_option_line) (simp_all add: endline_def)
  then have "parse_option (config_text (e # entries)) = (10 # config_text entries, Some e)"
    by (simp add: config_text_def e)
  moreover have "config_text (e # entries) \<noteq> []" by (simp add: config_text_def e)
  ultimately show ?case
    using Cons by (subst config_entries.simps) (simp add: next_option_def)
qed



lemma trim_end_left: "xs \<noteq> [] \<Longrightarrow> \<not> P (last xs) \<Longrightarrow> trim_end P (xs @ ys) = xs @ trim_end P ys"
  by (cases xs rule: rev_cases) (auto simp: trim_end_def dropWhile_append)

lemma skip_open: "93 \<notin> set cs \<Longrightarrow> 0 < stack \<Longrightarrow> skip_list stack cs = []"
  by (induction cs arbitrary: stack) auto

text \<open>A list without its closing bracket takes the rest of the file: every option after it is lost.
  The check for it, which would skip the option with a warning, only finds a bracket that is the last
  character of the file.\<close>

theorem unclosed_list_takes_all:
  assumes n: "plain_name n" and rest: "93 \<notin> set rest" "rest \<noteq> []"
  shows "config_entries (option_line n (91 # rest)) = [(n, strip_comments (91 # rest))]"
proof -
  define pre where "pre = option_line n [91]"
  define r where "r = takeWhile (\<lambda>c. \<not> endline c) rest"
  define h where "h = takeWhile (\<lambda>c. c \<noteq> 35) r"
  define e where "e = trim_end whitespace h"
  define stripped where "stripped = strip_comments (91 # rest)"
  have lit: "\<not> endline 32" "\<not> endline 61" "\<not> endline 91" "space_tab 32" "\<not> space_tab 91" "\<not> whitespace 91"
    by (simp_all add: endline_def space_tab_def whitespace_def)
  have app: "option_line n (91 # cs) = pre @ cs" for cs by (simp add: option_line_def pre_def)
  have pre: "list_all (\<lambda>c. \<not> endline c) pre" "35 \<notin> set pre" "pre \<noteq> []" "last pre = 91"
    using n lit by (simp_all add: option_line_def plain_name_def pre_def)
  have start: "dropWhile whitespace (pre @ rest) = pre @ rest"
    using n by (cases n) (simp_all add: option_line_def plain_name_def pre_def)
  have line: "takeWhile (\<lambda>c. \<not> endline c) (pre @ rest) = pre @ r"
    using pre(1) by (simp add: takeWhile_append2 list_all_iff r_def)
  have hash: "takeWhile (\<lambda>c. c \<noteq> 35) (pre @ r) = pre @ h"
    using pre(2) unfolding h_def by (subst takeWhile_append2) auto
  have content: "trim_end whitespace (pre @ h) = pre @ e"
    using pre(3,4) lit unfolding e_def by (intro trim_end_left) simp_all
  have c: "pre @ e = n @ 32 # 61 # 32 # 91 # e" by (simp add: option_line_def pre_def)
  have eq: "61 \<in> set (pre @ e)" "hd (pre @ e) \<noteq> 61"
    unfolding c using n by (cases n; simp add: plain_name_def)+
  have name: "takeWhile (\<lambda>c. c \<noteq> 61) (pre @ e) = n @ [32]" "dropWhile (\<lambda>c. c \<noteq> 61) (pre @ e) = 61 # 32 # 91 # e"
    using n unfolding c plain_name_def by (subst takeWhile_append2 dropWhile_append2; auto)+
  have end_name: "trim_end space_tab (n @ [32]) = n"
    using n lit by (intro trim_end_append) (auto simp: plain_name_def whitespace_def)
  have val: "dropWhile space_tab (32 # 91 # e) = 91 # e" using lit by simp
  have skipped: "length (pre @ e) - length (91 # e) = length n + 3" by (simp add: option_line_def pre_def)
  have at_value: "drop (length n + 3) (pre @ rest) = 91 # rest" by (simp add: option_line_def pre_def)
  have len: "length n + 3 \<noteq> length (pre @ r)" by (simp add: option_line_def pre_def)
  have nm: "strip_comments n = n" using n by (intro strip_plain) (simp add: plain_name_def)
  have skip: "skip_list 1 rest = []" using skip_open [OF rest(1)] by simp
  have "parse_option (pre @ rest) = ([], Some (n, stripped))"
    unfolding parse_option_def Let_def start line hash content name list.sel val skipped at_value end_name nm skip
    using eq len rest by (simp add: stripped_def del: strip_comments.simps)
  then show ?thesis
    using pre(3) unfolding app
    by (subst config_entries.simps) (simp add: next_option_def config_entries.simps [of "[]"] stripped_def del: strip_comments.simps)
qed

lemma unclosed_list_takes_all_witness:
  "config_entries (option_line [97] (91 # 49 # 10 # option_line [98] [50])) =
     [([97], [91, 49, 10, 98, 32, 61, 32, 50])]"
proof -
  have "plain_name [97]" by (simp add: plain_name_def whitespace_def space_tab_def endline_def)
  moreover have "93 \<notin> set (49 # 10 # option_line [98] [50] :: bytes)" by (simp add: option_line_def)
  ultimately show ?thesis
    by (subst unclosed_list_takes_all) (simp_all add: option_line_def endline_def)
qed

end
