(* ===== verification/ConfigRead.thy ===== *)
theory ConfigRead
  imports ConfigFile Process
begin

text \<open>
  Reading one setting from the variables of the configuration file (\<^verbatim>\<open>src/config.cpp\<close>, \<open>string_f\<close> to
  \<open>map_int_int_f\<close> and \<open>path_f\<close>). The locale \<open>reader\<close> states what every such function promises, its
  extension \<open>stable_reader\<close> that reading the same text again changes nothing; both are interpreted for
  the functions of the code. \<open>on\<close> applies a reader to a field of the settings.
\<close>

section \<open>One value\<close>

type_synonym 'a reader = "vars \<times> 'a \<Rightarrow> vars \<times> 'a"

fun string_f :: "bytes \<Rightarrow> bytes reader" where
  "string_f name (vars, input) =
    (case map_of vars name of
       None \<Rightarrow> (vars, input)
     | Some v \<Rightarrow> (AList.delete name vars, v))"

fun generic_f :: "bytes \<Rightarrow> (bytes \<Rightarrow> 'a) \<Rightarrow> 'a reader" where
  "generic_f name f (vars, input) =
    (let (vars, tmp) = string_f name (vars, []) in (vars, if tmp \<noteq> [] then f tmp else input))"

fun string_restricted_f :: "bytes \<Rightarrow> bytes list \<Rightarrow> bytes reader" where
  "string_restricted_f name allowed_vals (vars, input) =
    (let (vars, temp) = string_f name (vars, []) in (vars, if temp \<in> set allowed_vals then temp else input))"

fun string_list_f :: "bytes \<Rightarrow> bytes list reader" where
  "string_list_f name (vars, output) =
    (let (vars, temp) = string_f name (vars, []) in
     (vars, if temp = [] then output else filter (\<lambda>item. item \<noteq> []) (map trim (split_on 44 [] temp))))"

text \<open>An \<^verbatim>\<open>int\<close>, decimal or, after \<open>0x\<close>, hexadecimal.\<close>

definition parse_config_int :: "bytes \<Rightarrow> int option" where
  "parse_config_int val =
    (if take 2 val = ascii ''0x''
     then map_option (\<lambda>b. sint (of_le_bytes b :: u32)) (from_hex 4 (drop 2 val) False)
     else parse_integer (- (2 ^ 31)) (2 ^ 31 - 1) val)"

definition unquote :: "bytes \<Rightarrow> bytes" where
  "unquote val = (if 2 \<le> length val \<and> hd val = 34 then take (length val - 2) (drop 1 val) else val)"

fun int_f :: "bytes \<Rightarrow> int reader" where
  "int_f name (vars, input) =
    (case map_of vars name of
       None \<Rightarrow> (vars, input)
     | Some val \<Rightarrow>
         (AList.delete name vars,
          case parse_config_int (unquote val) of Some parsed \<Rightarrow> parsed | None \<Rightarrow> input))"

fun int_between_f :: "bytes \<Rightarrow> int \<times> int \<Rightarrow> int reader" where
  "int_between_f name (lower, upper) (vars, input) =
    (let (vars, temp) = int_f name (vars, input) in
     (vars, if lower \<le> temp \<and> temp \<le> upper then temp else input))"

definition to_bool :: "bytes \<Rightarrow> bool" where
  "to_bool boolean =
    (let boolean = map lower_char boolean in
     boolean \<in> set (map ascii [''true'', ''yes'', ''enable'', ''enabled'', ''on'']) \<or> 49 \<in> set boolean)"

fun bool_f :: "bytes \<Rightarrow> bool reader" where
  "bool_f name (vars, input) =
    (let (vars, tmp) = string_f name (vars, []) in (vars, if tmp = [] then input else to_bool tmp))"

text \<open>
  Floating point numbers: what \<open>strtod\<close> reads at the start of a text (\<open>None\<close>: it converts nothing), the
  comparison, which is false for a value that is not a number, the numbers that the code writes as
  literals, and the largest one.
\<close>

record 'f floating =
  fl_read :: "bytes \<Rightarrow> 'f option"
  fl_le :: "'f \<Rightarrow> 'f \<Rightarrow> bool"
  fl_int :: "int \<Rightarrow> 'f"
  fl_max :: 'f
  fl_inverse :: "'f \<Rightarrow> 'f"

fun double_f :: "'f floating \<Rightarrow> bytes \<Rightarrow> 'f reader" where
  "double_f fl name (vars, input) =
    (let (vars, tmp) = string_f name (vars, []) in
     if tmp = [] then (vars, input)
     else (vars, case fl_read fl tmp of None \<Rightarrow> input | Some val \<Rightarrow> val))"

fun double_between_f :: "'f floating \<Rightarrow> bytes \<Rightarrow> 'f \<times> 'f \<Rightarrow> 'f reader" where
  "double_between_f fl name (lower, upper) (vars, input) =
    (let (vars, temp) = double_f fl name (vars, input) in
     (vars, if fl_le fl lower temp \<and> fl_le fl temp upper then temp else input))"

text \<open>The same for \<open>strtof\<close>; every bound of a \<^verbatim>\<open>float\<close> is a whole number.\<close>

fun float_f :: "'f floating \<Rightarrow> bytes \<Rightarrow> 'f reader" where
  "float_f fl name (vars, input) =
    (let (vars, tmp) = string_f name (vars, []) in
     if tmp = [] then (vars, input)
     else (vars, case fl_read fl tmp of None \<Rightarrow> input | Some val \<Rightarrow> val))"

fun float_between_f :: "'f floating \<Rightarrow> bytes \<Rightarrow> int \<times> int \<Rightarrow> 'f reader" where
  "float_between_f fl name (lower, upper) (vars, input) =
    (let (vars, temp) = float_f fl name (vars, input) in
     (vars, if fl_le fl (fl_int fl lower) temp \<and> fl_le fl temp (fl_int fl upper) then temp else input))"

section \<open>Lists, commands and paths\<close>

text \<open>How reading fails: an exception, or an iterator that is moved past the end of its text.\<close>

datatype config_error = Json_error | Filesystem_error | Past_end

type_synonym 'a fallible = "vars \<times> 'a \<Rightarrow> config_error + vars \<times> 'a"

text \<open>
  The loop of \<open>list_string_f\<close>: \<open>item\<close> is the text between \<open>begin\<close> and \<open>pos\<close>. Behind an inner list one
  character more is passed over, whatever it is.
\<close>

function list_items :: "bytes \<Rightarrow> bytes \<Rightarrow> bytes list option" where
  "list_items item [] = Some (if item \<noteq> [] then [item] else [])"
| "list_items item (c # cs) =
    (if c = 91 then
       case skip_list 1 cs of
         [] \<Rightarrow> None
       | d # rest \<Rightarrow> list_items (item @ take (Suc (length cs) - length rest) (c # cs)) rest
     else if c = 93 then Some (if item \<noteq> [] then [item] else [])
     else if c = 44 then map_option (Cons item) (list_items [] (dropWhile whitespace cs))
     else list_items (item @ [c]) cs)"
  by pat_completeness auto
termination
proof (relation "measure (length \<circ> snd)", goal_cases)
  case (2 item c cs d rest)
  then show ?case using skip_list_shorter [of 1 cs] by simp
next
  case (3 item c cs)
  then show ?case using dropWhile_shorter [of whitespace cs] by simp
qed simp_all

fun list_string_f :: "bytes \<Rightarrow> bytes list fallible" where
  "list_string_f name (vars, input) =
    (let (vars, str) = string_f name (vars, []) in
     if str = [] then Inr (vars, input)
     else
       let start = dropWhile whitespace (if hd str = 91 then tl str else str) in
       if start = [] then Inr (vars, [])
       else case list_items [] start of
         None \<Rightarrow> Inl Past_end
       | Some items \<Rightarrow> Inr (vars, items))"

fun list_int_f :: "bytes \<Rightarrow> int list fallible" where
  "list_int_f name (vars, input) =
    (case list_string_f name (vars, []) of
       Inl e \<Rightarrow> Inl e
     | Inr (vars, elements) \<Rightarrow>
         Inr (vars, if elements = [] then input
                    else List.map_filter (\<lambda>el. parse_config_int (unquote el)) elements))"

fun emplace_pairs :: "int list \<Rightarrow> (int \<rightharpoonup> int) \<Rightarrow> (int \<rightharpoonup> int)" where
  "emplace_pairs (key # val # list) m = emplace_pairs list (emplace key val m)"
| "emplace_pairs _ m = m"

fun map_int_int_f :: "bytes \<Rightarrow> (int \<rightharpoonup> int) fallible" where
  "map_int_int_f name (vars, input) =
    (case list_int_f name (vars, []) of
       Inl e \<Rightarrow> Inl e
     | Inr (vars, list) \<Rightarrow> Inr (vars, if odd (length list) then input else emplace_pairs list input))"

text \<open>What the JSON reader of Boost makes of a list of commands, \<open>None\<close> for its exceptions.\<close>

definition prep_cmd_of_node :: "prep_node \<Rightarrow> prep_cmd" where
  "prep_cmd_of_node n = \<lparr>do_cmd = value_or (pn_do n) [], undo_cmd = value_or (pn_undo n) [],
     cmd_elevated = value_or (pn_elevated n) False\<rparr>"

fun list_prep_cmd_f :: "(bytes \<Rightarrow> prep_node list option) \<Rightarrow> bytes \<Rightarrow> prep_cmd list fallible" where
  "list_prep_cmd_f read_json name (vars, input) =
    (let (vars, str) = string_f name (vars, []) in
     if str = [] then Inr (vars, input)
     else case read_json (ascii ''{'' @ 34 # ascii ''prep_cmd'' @ 34 # ascii '':'' @ str @ ascii ''}'') of
       None \<Rightarrow> Inl Json_error
     | Some nodes \<Rightarrow> Inr (vars, input @ map prep_cmd_of_node nodes))"

text \<open>
  The directories that exist at the start and those that can be created; those created are
  remembered next to the path.
\<close>

record file_system =
  appdata :: bytes
  dir_exists :: "bytes \<Rightarrow> bool"
  dir_creatable :: "bytes \<Rightarrow> bool"

definition remove_filename :: "bytes \<Rightarrow> bytes" where
  "remove_filename p = rev (dropWhile (\<lambda>c. c \<noteq> 47) (rev p))"

definition is_relative :: "bytes \<Rightarrow> bool" where
  "is_relative p \<longleftrightarrow> p = [] \<or> hd p \<noteq> 47"

fun path_f :: "file_system \<Rightarrow> bytes \<Rightarrow> (bytes \<times> bytes list) fallible" where
  "path_f fs name (vars, (input, created)) =
    (let (vars, temp) = string_f name (vars, []);
         input = (if temp \<noteq> [] then temp else input) in
     if input = [] then Inr (vars, (input, created))
     else
       let input = (if is_relative input then path_append (appdata fs) input else input);
           dir = remove_filename input in
       if dir_exists fs dir \<or> dir \<in> set created then Inr (vars, (input, created))
       else if dir_creatable fs dir then Inr (vars, (input, created @ [dir]))
       else Inl Filesystem_error)"

section \<open>A reader on one field of the settings\<close>

text \<open>The field is given by its selector and its update function.\<close>

fun on :: "('s \<Rightarrow> 'a) \<Rightarrow> (('a \<Rightarrow> 'a) \<Rightarrow> 's \<Rightarrow> 's) \<Rightarrow> 'a reader \<Rightarrow> 's reader" where
  "on get upd read (vars, s) = (let (vars, x) = read (vars, get s) in (vars, upd (\<lambda>_. x) s))"

fun on_fallible :: "('s \<Rightarrow> 'a) \<Rightarrow> (('a \<Rightarrow> 'a) \<Rightarrow> 's \<Rightarrow> 's) \<Rightarrow> 'a fallible \<Rightarrow> 's fallible" where
  "on_fallible get upd read (vars, s) =
    (case read (vars, get s) of Inl e \<Rightarrow> Inl e | Inr (vars, x) \<Rightarrow> Inr (vars, upd (\<lambda>_. x) s))"

definition run_all :: "'s reader list \<Rightarrow> 's reader" where
  "run_all = fold (\<lambda>f. f)"

fun run_fallible :: "'s fallible list \<Rightarrow> 's fallible" where
  "run_fallible [] st = Inr st"
| "run_fallible (f # fs) st = (case f st of Inl e \<Rightarrow> Inl e | Inr st \<Rightarrow> run_fallible fs st)"

definition safely :: "'s reader \<Rightarrow> 's fallible" where
  "safely f st = Inr (f st)"

text \<open>A statement that does not read variables.\<close>

definition pure :: "('s \<Rightarrow> 's) \<Rightarrow> 's reader" where
  "pure f st = (fst st, f (snd st))"

section \<open>Values as a function of the text\<close>

definition string_value :: "bytes option \<Rightarrow> bytes \<Rightarrow> bytes" where
  "string_value v x = (case v of None \<Rightarrow> x | Some t \<Rightarrow> t)"

definition generic_value :: "(bytes \<Rightarrow> 'a) \<Rightarrow> bytes option \<Rightarrow> 'a \<Rightarrow> 'a" where
  "generic_value f v x = (case v of None \<Rightarrow> x | Some t \<Rightarrow> if t \<noteq> [] then f t else x)"

definition restricted_value :: "bytes list \<Rightarrow> bytes option \<Rightarrow> bytes \<Rightarrow> bytes" where
  "restricted_value allowed v x = (if string_value v [] \<in> set allowed then string_value v [] else x)"

definition int_value :: "bytes option \<Rightarrow> int \<Rightarrow> int" where
  "int_value v x =
    (case v of None \<Rightarrow> x | Some t \<Rightarrow> case parse_config_int (unquote t) of Some i \<Rightarrow> i | None \<Rightarrow> x)"

definition between_value :: "int \<times> int \<Rightarrow> bytes option \<Rightarrow> int \<Rightarrow> int" where
  "between_value rng v x =
    (if fst rng \<le> int_value v x \<and> int_value v x \<le> snd rng then int_value v x else x)"

definition float_value :: "'f floating \<Rightarrow> bytes option \<Rightarrow> 'f \<Rightarrow> 'f" where
  "float_value fl v x =
    (case v of None \<Rightarrow> x | Some t \<Rightarrow> if t = [] then x else case fl_read fl t of Some y \<Rightarrow> y | None \<Rightarrow> x)"

definition float_between_value :: "'f floating \<Rightarrow> int \<times> int \<Rightarrow> bytes option \<Rightarrow> 'f \<Rightarrow> 'f" where
  "float_between_value fl rng v x =
    (if fl_le fl (fl_int fl (fst rng)) (float_value fl v x) \<and> fl_le fl (float_value fl v x) (fl_int fl (snd rng))
     then float_value fl v x else x)"

fun keyed :: "bytes \<Rightarrow> (bytes option \<Rightarrow> 's \<Rightarrow> 's) \<Rightarrow> 's reader" where
  "keyed name value (vars, s) = (AList.delete name vars, value (map_of vars name) s)"

text \<open>
  What a reader promises: it takes its name out of the variables, and the new value depends on the text
  under this name and the old value only. A stable one gives the same value when the text is read again.
\<close>

locale reader =
  fixes read :: "'a reader" and name :: bytes and val :: "bytes option \<Rightarrow> 'a \<Rightarrow> 'a"
  assumes read_value: "read (vars, x) = (AList.delete name vars, val (map_of vars name) x)"
begin

lemma on_keyed: "on get upd read = keyed name (\<lambda>v s. upd (\<lambda>_. val v (get s)) s)"
  by (rule ext) (auto simp: read_value)

lemma other_names: "n \<noteq> name \<Longrightarrow> map_of (fst (read (vars, x))) n = map_of vars n"
  by (simp add: read_value delete_conv')

lemma taken: "map_of (fst (read (vars, x))) name = None"
  by (simp add: read_value delete_conv')

end

locale stable_reader = reader +
  assumes stable: "val v (val v x) = val v x"
begin

lemma read_again: "snd (read (vars, snd (read (vars, x)))) = snd (read (vars, x))"
  by (simp add: read_value stable)

end

lemma delete_absent: "map_of vars name = None \<Longrightarrow> AList.delete name vars = vars"
  by (simp add: delete_idem map_of_eq_None_iff)

interpretation string_f: stable_reader "string_f name" name string_value for name
  by unfold_locales (auto simp: string_value_def delete_absent split: option.split)

lemma string_f_tmp: "string_f name (vars, []) = (AList.delete name vars, string_value (map_of vars name) [])"
  by (rule string_f.read_value)

interpretation generic_f: stable_reader "generic_f name f" name "generic_value f" for name f
  by unfold_locales (auto simp: generic_value_def string_value_def string_f_tmp simp del: string_f.simps split: option.split)

interpretation string_restricted_f:
  stable_reader "string_restricted_f name allowed" name "restricted_value allowed" for name allowed
  by unfold_locales (auto simp: restricted_value_def string_f_tmp simp del: string_f.simps)

interpretation int_f: stable_reader "int_f name" name int_value for name
  by unfold_locales (auto simp: int_value_def delete_absent split: option.split)

interpretation int_between_f:
  stable_reader "int_between_f name rng" name "between_value rng" for name rng
proof unfold_locales
  show "int_between_f name rng (vars, x) = (AList.delete name vars, between_value rng (map_of vars name) x)" for vars x
    by (cases rng) (simp add: int_f.read_value between_value_def del: int_f.simps)
  show "between_value rng v (between_value rng v x) = between_value rng v x" for v x
    by (auto simp: between_value_def int_value_def split: option.split)
qed

interpretation bool_f: stable_reader "bool_f name" name "generic_value to_bool" for name
  by unfold_locales (auto simp: generic_value_def string_value_def string_f_tmp simp del: string_f.simps split: option.split)

interpretation double_f: stable_reader "double_f fl name" name "float_value fl" for fl name
  by unfold_locales
    (auto simp: float_value_def string_value_def string_f_tmp simp del: string_f.simps split: option.split)

interpretation float_f: stable_reader "float_f fl name" name "float_value fl" for fl name
  by unfold_locales
    (auto simp: float_value_def string_value_def string_f_tmp simp del: string_f.simps split: option.split)

interpretation float_between_f:
  stable_reader "float_between_f fl name rng" name "float_between_value fl rng" for fl name rng
proof unfold_locales
  show "float_between_f fl name rng (vars, x) =
      (AList.delete name vars, float_between_value fl rng (map_of vars name) x)" for vars x
    by (cases rng) (simp add: float_f.read_value float_between_value_def del: float_f.simps)
  show "float_between_value fl rng v (float_between_value fl rng v x) = float_between_value fl rng v x" for v x
    by (auto simp: float_between_value_def float_value_def split: option.split)
qed

lemmas on_keyed = string_f.on_keyed generic_f.on_keyed string_restricted_f.on_keyed int_f.on_keyed
  int_between_f.on_keyed bool_f.on_keyed float_between_f.on_keyed

text \<open>Readers of different names: each sees the variables as they were at the start.\<close>

lemma map_of_delete_other: "k \<noteq> name \<Longrightarrow> map_of (AList.delete name vars) k = map_of vars k"
  by (simp add: delete_conv')

lemma run_keyed:
  assumes "distinct (map fst kgs)"
  shows "run_all (map (\<lambda>(k, g). keyed k g) kgs) (vars, s) =
    (fold AList.delete (map fst kgs) vars, fold (\<lambda>(k, g). g (map_of vars k)) kgs s)"
  using assms
proof (induction kgs arbitrary: vars s)
  case (Cons kg kgs)
  obtain k g where kg: "kg = (k, g)" by fastforce
  have "fold (\<lambda>(l, h). h (map_of (AList.delete k vars) l)) kgs t = fold (\<lambda>(l, h). h (map_of vars l)) kgs t" for t
    using Cons.prems kg by (intro fold_cong) (auto simp: delete_conv' fun_upd_def rev_image_eqI)
  with Cons kg show ?case by (simp add: run_all_def)
qed (simp add: run_all_def)

section \<open>Invariants\<close>

definition keeps :: "('s \<Rightarrow> bool) \<Rightarrow> 's reader \<Rightarrow> bool" where
  "keeps P f \<longleftrightarrow> (\<forall>vars s. P s \<longrightarrow> P (snd (f (vars, s))))"

definition keeps_fallible :: "('s \<Rightarrow> bool) \<Rightarrow> 's fallible \<Rightarrow> bool" where
  "keeps_fallible P f \<longleftrightarrow> (\<forall>vars s vars' s'. P s \<longrightarrow> f (vars, s) = Inr (vars', s') \<longrightarrow> P s')"

lemma keeps_on:
  "(\<And>vars s. P s \<Longrightarrow> P (upd (\<lambda>_. snd (read (vars, get s))) s)) \<Longrightarrow> keeps P (on get upd read)"
  by (simp add: keeps_def split_beta)

lemma keeps_pure: "(\<And>s. P s \<Longrightarrow> P (f s)) \<Longrightarrow> keeps P (pure f)"
  by (simp add: keeps_def pure_def)

lemma keeps_run_all: "list_all (keeps P) fs \<Longrightarrow> keeps P (run_all fs)"
proof (induction fs)
  case (Cons f fs)
  show ?case
    unfolding keeps_def
  proof (intro allI impI)
    fix vars s
    assume P: "P s"
    obtain vars' s' where f: "f (vars, s) = (vars', s')" by fastforce
    have "keeps P f" using Cons.prems by simp
    then have "P (snd (f (vars, s)))" using P unfolding keeps_def by blast
    then have "P s'" using f by simp
    with Cons f show "P (snd (run_all (f # fs) (vars, s)))" by (simp add: keeps_def run_all_def)
  qed
qed (simp add: keeps_def run_all_def)

lemma keeps_safely: "keeps P f \<Longrightarrow> keeps_fallible P (safely f)"
  by (auto simp: keeps_def keeps_fallible_def safely_def) (metis snd_conv)

lemma keeps_on_fallible:
  "(\<And>s x. P s \<Longrightarrow> P (upd (\<lambda>_. x) s)) \<Longrightarrow> keeps_fallible P (on_fallible get upd read)"
  by (auto simp: keeps_fallible_def split: sum.splits)

lemma keeps_run_fallible: "list_all (keeps_fallible P) fs \<Longrightarrow> keeps_fallible P (run_fallible fs)"
proof (induction fs)
  case (Cons f fs)
  then have f: "keeps_fallible P f" and fs: "keeps_fallible P (run_fallible fs)" by simp_all
  show ?case
    unfolding keeps_fallible_def
  proof (intro allI impI)
    fix vars s vars' s'
    assume "P s" and "run_fallible (f # fs) (vars, s) = Inr (vars', s')"
    then obtain vs t where "f (vars, s) = Inr (vs, t)" "run_fallible fs (vs, t) = Inr (vars', s')"
      by (auto split: sum.splits)
    then show "P s'" using \<open>P s\<close> f fs unfolding keeps_fallible_def by blast
  qed
qed (simp add: keeps_fallible_def)

lemma int_between_range:
  "fst rng \<le> x \<Longrightarrow> x \<le> snd rng \<Longrightarrow>
   fst rng \<le> snd (int_between_f name rng (vars, x)) \<and> snd (int_between_f name rng (vars, x)) \<le> snd rng"
  by (simp add: int_between_f.read_value between_value_def)

lemma restricted_range:
  "x \<in> set allowed \<Longrightarrow> snd (string_restricted_f name allowed (vars, x)) \<in> set allowed"
  by (simp add: string_restricted_f.read_value restricted_value_def del: string_restricted_f.simps)

end
