(* ===== verification/ConfigState.thy ===== *)
theory ConfigState
  imports ConfigRead ClientProfiles
begin

text \<open>
  The words that the configuration accepts for enumerations, the tokens of the web interface, and the
  settings as records (\<^verbatim>\<open>src/config.h\<close>, \<^verbatim>\<open>src/config.cpp\<close>). A record per struct, with a prefix for its
  fields; a field of type \<^verbatim>\<open>std::chrono::milliseconds\<close> is a number.
\<close>

section \<open>Words for values\<close>

text \<open>The chain of \<^verbatim>\<open>_CONVERT_\<close>: the value of the first word that fits.\<close>

definition convert :: "(string \<times> 'a) list \<Rightarrow> bytes \<Rightarrow> 'a option" where
  "convert table view = map_of (map (\<lambda>(word, x). (ascii word, x)) table) view"

definition twopass_from_view :: "bytes \<Rightarrow> nvenc_two_pass" where
  "twopass_from_view preset =
    (if preset = ascii ''disabled'' then two_pass_disabled
     else if preset = ascii ''quarter_res'' then quarter_resolution
     else if preset = ascii ''full_res'' then full_resolution
     else quarter_resolution)"

definition split_encode_from_view :: "bytes \<Rightarrow> nvenc_split_frame_encoding" where
  "split_encode_from_view preset =
    (if preset = ascii ''disabled'' then split_disabled
     else if preset = ascii ''driver_decides'' then driver_decides
     else if preset = ascii ''enabled'' then force_enabled
     else driver_decides)"

text \<open>The numbers of AMD's library, as the code gives them for the other systems.\<close>

definition quality_av1_e :: "(string \<times> int) list" where
  "quality_av1_e = [(''speed'', 100), (''quality'', 30), (''balanced'', 70)]"

definition quality_hevc_e :: "(string \<times> int) list" where
  "quality_hevc_e = [(''speed'', 10), (''quality'', 0), (''balanced'', 5)]"

definition quality_h264_e :: "(string \<times> int) list" where
  "quality_h264_e = [(''speed'', 1), (''quality'', 2), (''balanced'', 0)]"

definition rc_av1_e :: "(string \<times> int) list" where
  "rc_av1_e = [(''cbr'', 3), (''cqp'', 0), (''vbr_latency'', 1), (''vbr_peak'', 2)]"

definition rc_hevc_e :: "(string \<times> int) list" where
  "rc_hevc_e = [(''cbr'', 3), (''cqp'', 0), (''vbr_latency'', 1), (''vbr_peak'', 2)]"

definition rc_h264_e :: "(string \<times> int) list" where
  "rc_h264_e = [(''cbr'', 1), (''cqp'', 0), (''vbr_latency'', 3), (''vbr_peak'', 2)]"

definition usage_av1_e :: "(string \<times> int) list" where
  "usage_av1_e = [(''transcoding'', 0), (''webcam'', 3), (''lowlatency_high_quality'', 5),
     (''lowlatency'', 1), (''ultralowlatency'', 2)]"

definition usage_hevc_e :: "(string \<times> int) list" where
  "usage_hevc_e = [(''transcoding'', 0), (''webcam'', 3), (''lowlatency_high_quality'', 5),
     (''lowlatency'', 2), (''ultralowlatency'', 1)]"

definition usage_h264_e :: "(string \<times> int) list" where
  "usage_h264_e = [(''transcoding'', 0), (''webcam'', 3), (''lowlatency_high_quality'', 5),
     (''lowlatency'', 2), (''ultralowlatency'', 1)]"

text \<open>
  \<open>quality_from_view\<close>, \<open>rc_from_view\<close> and \<open>usage_from_view\<close> differ in the words they accept, which are
  those of the enumeration they are used with.
\<close>

definition amd_from_view :: "(string \<times> int) list \<Rightarrow> bytes \<Rightarrow> int option \<Rightarrow> int option" where
  "amd_from_view table view original = (case convert table view of Some x \<Rightarrow> Some x | None \<Rightarrow> original)"

definition amd_coder_from_view :: "bytes \<Rightarrow> int" where
  "amd_coder_from_view coder =
    (if coder = ascii ''auto'' then 0
     else if coder = ascii ''cabac'' \<or> coder = ascii ''ac'' then 1
     else if coder = ascii ''cavlc'' \<or> coder = ascii ''vlc'' then 2
     else 0)"

definition qsv_preset_from_view :: "bytes \<Rightarrow> int option" where
  "qsv_preset_from_view = convert
    [(''veryslow'', 1), (''slower'', 2), (''slow'', 3), (''medium'', 4), (''fast'', 5), (''faster'', 6),
     (''veryfast'', 7)]"

definition qsv_coder_from_view :: "bytes \<Rightarrow> int option" where
  "qsv_coder_from_view coder =
    (if coder = ascii ''auto'' then Some 0
     else if coder = ascii ''cabac'' \<or> coder = ascii ''ac'' then Some 0
     else if coder = ascii ''cavlc'' \<or> coder = ascii ''vlc'' then Some 1
     else None)"

definition vt_coder_from_view :: "bytes \<Rightarrow> int" where
  "vt_coder_from_view coder =
    (if coder = ascii ''auto'' then 0
     else if coder = ascii ''cabac'' \<or> coder = ascii ''ac'' then 1
     else if coder = ascii ''cavlc'' \<or> coder = ascii ''vlc'' then 2
     else -1)"

definition allow_software_from_view :: "bytes \<Rightarrow> int" where
  "allow_software_from_view software =
    (if software = ascii ''allowed'' \<or> software = ascii ''forced'' then 1 else 0)"

definition force_software_from_view :: "bytes \<Rightarrow> int" where
  "force_software_from_view software = (if software = ascii ''forced'' then 1 else 0)"

definition rt_from_view :: "bytes \<Rightarrow> int" where
  "rt_from_view rt = (if rt = ascii ''disabled'' \<or> rt = ascii ''off'' \<or> rt = ascii ''0'' then 0 else 1)"

definition svtav1_preset_from_view :: "bytes \<Rightarrow> int" where
  "svtav1_preset_from_view preset =
    (case convert
      [(''veryslow'', 1), (''slower'', 2), (''slow'', 4), (''medium'', 5), (''fast'', 7), (''faster'', 9),
       (''veryfast'', 10), (''superfast'', 11), (''ultrafast'', 12)] preset of
       Some y \<Rightarrow> y
     | None \<Rightarrow> 11)"

datatype config_option_e =
  config_disabled | verify_only | ensure_active | ensure_primary | ensure_only_display

datatype resolution_option_e = resolution_disabled | resolution_automatic | resolution_manual

datatype refresh_rate_option_e = refresh_rate_disabled | refresh_rate_automatic | refresh_rate_manual

datatype hdr_option_e = hdr_disabled | hdr_automatic

definition config_option_from_view :: "bytes \<Rightarrow> config_option_e" where
  "config_option_from_view view = value_or (convert
    [(''disabled'', config_disabled), (''verify_only'', verify_only), (''ensure_active'', ensure_active),
     (''ensure_primary'', ensure_primary), (''ensure_only_display'', ensure_only_display)] view) config_disabled"

definition resolution_option_from_view :: "bytes \<Rightarrow> resolution_option_e" where
  "resolution_option_from_view view = value_or (convert
    [(''disabled'', resolution_disabled), (''auto'', resolution_automatic), (''manual'', resolution_manual)]
    view) resolution_disabled"

definition refresh_rate_option_from_view :: "bytes \<Rightarrow> refresh_rate_option_e" where
  "refresh_rate_option_from_view view = value_or (convert
    [(''disabled'', refresh_rate_disabled), (''auto'', refresh_rate_automatic), (''manual'', refresh_rate_manual)]
    view) refresh_rate_disabled"

definition hdr_option_from_view :: "bytes \<Rightarrow> hdr_option_e" where
  "hdr_option_from_view view = value_or (convert
    [(''disabled'', hdr_disabled), (''auto'', hdr_automatic)] view) hdr_disabled"

section \<open>Scopes and tokens of the web interface\<close>

datatype api_scope_t =
    CONFIG_GET | CONFIG_SET | APPS_GET | APPS_LAUNCH | APPS_CLOSE | CLIENTS_LIST | CLIENTS_PAIR
  | CLIENTS_UNPAIR | LOGS_GET | DISPLAY_RESET | TOKENS_MANAGE | STAR

definition scope_text :: "api_scope_t \<Rightarrow> bytes" where
  "scope_text scope = ascii (case scope of
     CONFIG_GET \<Rightarrow> ''config:get'' | CONFIG_SET \<Rightarrow> ''config:set'' | APPS_GET \<Rightarrow> ''apps:get''
   | APPS_LAUNCH \<Rightarrow> ''apps:launch'' | APPS_CLOSE \<Rightarrow> ''apps:close'' | CLIENTS_LIST \<Rightarrow> ''clients:list''
   | CLIENTS_PAIR \<Rightarrow> ''clients:pair'' | CLIENTS_UNPAIR \<Rightarrow> ''clients:unpair'' | LOGS_GET \<Rightarrow> ''logs:get''
   | DISPLAY_RESET \<Rightarrow> ''display:reset'' | TOKENS_MANAGE \<Rightarrow> ''tokens:manage'' | STAR \<Rightarrow> ''*'')"

definition api_scope_from_string :: "bytes \<Rightarrow> api_scope_t option" where
  "api_scope_from_string = convert
    [(''config:get'', CONFIG_GET), (''config:set'', CONFIG_SET), (''apps:get'', APPS_GET),
     (''apps:launch'', APPS_LAUNCH), (''apps:close'', APPS_CLOSE), (''clients:list'', CLIENTS_LIST),
     (''clients:pair'', CLIENTS_PAIR), (''clients:unpair'', CLIENTS_UNPAIR), (''logs:get'', LOGS_GET),
     (''display:reset'', DISPLAY_RESET), (''tokens:manage'', TOKENS_MANAGE), (''*'', STAR)]"

record api_token_t =
  tk_name :: bytes
  tk_hash :: bytes
  tk_salt :: bytes
  tk_scopes :: "api_scope_t list"

definition parse_scopes :: "bytes \<Rightarrow> api_scope_t list" where
  "parse_scopes field =
    List.map_filter api_scope_from_string (filter (\<lambda>s. s \<noteq> []) (map trim (split_on 44 [] field)))"

text \<open>One entry between bars; \<open>None\<close>: it is skipped.\<close>

definition parse_token :: "bytes \<Rightarrow> api_token_t option" where
  "parse_token entry =
    (let entry = trim entry; parts = split_on 9 [] entry in
     if entry = [] then None
     else if length parts \<noteq> 4 then None
     else if parts ! 0 = [] \<or> parts ! 1 = [] \<or> parts ! 2 = [] then None
     else if parse_scopes (parts ! 3) = [] then None
     else Some \<lparr>tk_name = parts ! 0, tk_hash = parts ! 1, tk_salt = parts ! 2,
       tk_scopes = parse_scopes (parts ! 3)\<rparr>)"

definition parse_tokens :: "bytes \<Rightarrow> api_token_t list" where
  "parse_tokens temp = List.map_filter parse_token (split_on 124 [] temp)"

section \<open>The settings\<close>

text \<open>\<open>'f\<close> is the type of floating point numbers.\<close>

record sw_config =
  sw_preset :: bytes
  sw_tune :: bytes
  sw_svtav1_preset :: "int option"

record nv_legacy_config =
  lg_preset :: int
  lg_multipass :: nvenc_two_pass
  lg_h264_cavlc :: bool
  lg_aq :: bool
  lg_vbv_percentage_increase :: int

record qsv_config =
  qsv_preset :: "int option"
  qsv_cavlc :: "int option"
  qsv_slow_hevc :: bool

record amd_config =
  amd_usage_h264 :: "int option"
  amd_usage_hevc :: "int option"
  amd_usage_av1 :: "int option"
  amd_rc_h264 :: "int option"
  amd_rc_hevc :: "int option"
  amd_rc_av1 :: "int option"
  amd_enforce_hrd :: "int option"
  amd_quality_h264 :: "int option"
  amd_quality_hevc :: "int option"
  amd_quality_av1 :: "int option"
  amd_preanalysis :: "int option"
  amd_vbaq :: "int option"
  amd_coder :: int

record vt_config =
  vt_allow_sw :: int
  vt_require_sw :: int
  vt_realtime :: int
  vt_coder :: int

record vaapi_config =
  va_strict_rc_buffer :: bool
  va_rc_mode :: int
  va_quality :: int
  va_min_qp :: int
  va_max_qp :: int
  va_slice_count :: int
  va_async_depth :: int
  va_rc_buffer_frames :: int

record vk_config =
  vk_tune :: int
  vk_rc_mode :: int
  vk_min_qp :: int
  vk_max_qp :: int

record mode_remapping_entry =
  mr_requested_resolution :: bytes
  mr_requested_fps :: bytes
  mr_final_resolution :: bytes
  mr_final_refresh_rate :: bytes

record mode_remapping =
  mr_mixed :: "mode_remapping_entry list"
  mr_resolution_only :: "mode_remapping_entry list"
  mr_refresh_rate_only :: "mode_remapping_entry list"

record dd_config =
  dd_configuration_option :: config_option_e
  dd_resolution_option :: resolution_option_e
  dd_manual_resolution :: bytes
  dd_refresh_rate_option :: refresh_rate_option_e
  dd_manual_refresh_rate :: bytes
  dd_hdr_option :: hdr_option_e
  dd_config_revert_delay :: int
  dd_config_revert_on_disconnect :: bool
  dd_mode_remapping :: mode_remapping
  dd_hdr_toggle_delay :: int

record linux_display_config =
  ld_headless_mode :: bool
  ld_use_cage_compositor :: bool
  ld_prefer_gpu_native_capture :: bool
  ld_compositor_backend :: bytes
  ld_headless_width :: int
  ld_headless_height :: int
  ld_headless_refresh :: int

record 'f video_settings =
  vi_qp :: int
  vi_hevc_mode :: int
  vi_av1_mode :: int
  vi_min_threads :: int
  vi_sw :: sw_config
  vi_nv :: nvenc_config
  vi_nv_realtime_hags :: bool
  vi_nv_opengl_vulkan_on_dxgi :: bool
  vi_nv_high_power_mode :: bool
  vi_nv_preset :: int
  vi_nv_legacy :: nv_legacy_config
  vi_qsv :: qsv_config
  vi_amd :: amd_config
  vi_vt :: vt_config
  vi_vaapi :: vaapi_config
  vi_vk :: vk_config
  vi_capture :: bytes
  vi_encoder :: bytes
  vi_adapter_name :: bytes
  vi_output_name :: bytes
  vi_dd :: dd_config
  vi_max_bitrate :: int
  vi_minimum_fps_target :: 'f
  vi_adaptive_bitrate_enabled :: bool
  vi_adaptive_bitrate_min :: int
  vi_adaptive_bitrate_max :: int
  vi_linux_display :: linux_display_config

record audio_settings =
  au_sink :: bytes
  au_virtual_sink :: bytes
  au_stream :: bool
  au_install_steam_drivers :: bool

record stream_settings =
  st_ping_timeout :: int
  st_file_apps :: bytes
  st_fec_percentage :: int
  st_lan_encryption_mode :: int
  st_wan_encryption_mode :: int
  st_packetsize :: int

record nvhttp_settings =
  nh_origin_web_ui_allowed :: bytes
  nh_pkey :: bytes
  nh_cert :: bytes
  nh_sunshine_name :: bytes
  nh_file_state :: bytes
  nh_external_ip :: bytes
  nh_trusted_subnets :: bytes
  nh_trusted_subnet_auto_pairing :: bool
  nh_api_tokens :: "api_token_t list"
  nh_webhook_urls :: "bytes list"
  nh_webhook_secret :: bytes

record 'f input_settings =
  in_keybindings :: "int \<rightharpoonup> int"
  in_back_button_timeout :: int
  in_key_repeat_delay :: int
  in_key_repeat_period :: 'f
  in_gamepad :: bytes
  in_ds4_back_as_touchpad_click :: bool
  in_motion_as_ds4 :: bool
  in_touchpad_as_ds4 :: bool
  in_ds5_inputtino_randomize_mac :: bool
  in_keyboard :: bool
  in_key_rightalt_to_key_win :: bool
  in_mouse :: bool
  in_controller :: bool
  in_always_send_scancodes :: bool
  in_high_resolution_scrolling :: bool
  in_native_pen_touch :: bool
  in_input_seat :: bytes

datatype flag_e = PIN_STDIN | FRESH_STATE | FORCE_VIDEO_HEADER_REPLACE | UPNP | CONST_PIN

record sunshine_settings =
  su_locale :: bytes
  su_min_log_level :: int
  su_flags :: "flag_e set"
  su_credentials_file :: bytes
  su_username :: bytes
  su_password :: bytes
  su_salt :: bytes
  su_config_file :: bytes
  su_cmd :: "(bytes \<times> bytes list) option"
  su_port :: u16
  su_address_family :: bytes
  su_bind_address :: bytes
  su_log_file :: bytes
  su_notify_pre_releases :: bool
  su_system_tray :: bool
  su_prep_cmds :: "prep_cmd list"
  su_csrf_allowed_origins :: "bytes list"

record 'f audio_fx_t =
  fx_enable_agc :: bool
  fx_enable_vad :: bool
  fx_enable_ducking :: bool
  fx_enable_noise_gate :: bool
  fx_noise_gate_threshold_db :: 'f
  fx_agc_target_rms_db :: 'f
  fx_agc_max_gain_db :: 'f
  fx_agc_min_gain_db :: 'f
  fx_agc_attack_ms :: 'f
  fx_agc_hold_ms :: 'f
  fx_agc_release_ms :: 'f
  fx_vad_threshold_db :: 'f
  fx_vad_hysteresis_db :: 'f
  fx_vad_min_speech_ms :: 'f
  fx_vad_min_silence_ms :: 'f
  fx_ducker_attenuation_db :: 'f
  fx_ducker_attack_ms :: 'f
  fx_ducker_release_ms :: 'f
  fx_opus_application :: int
  fx_opus_vbr :: int
  fx_opus_complexity :: int
  fx_opus_fec :: bool
  fx_opus_expected_loss_pct :: int
  fx_opus_bandwidth_extension :: bool

record 'f solarflare_t =
  sf_busy_poll_us :: int
  sf_rate_cap_pct :: int
  sf_enet_4mib_buffer :: bool
  sf_pipewire_latency_ms :: int
  sf_cpu_pinning :: bool
  sf_audio_fx :: "'f audio_fx_t"
  sf_dscp_qos :: bool
  sf_gpu_governor :: bool
  sf_headless_virtual_display :: bool
  sf_skip_wayland_correlation :: bool
  sf_latency_mode :: bytes
  sf_idle_timeout_min :: int

datatype application_e = LOWDELAY | VOIP | AUDIO

datatype vbr_e = VBR_OFF | VBR_CONSTRAINED | VBR_FULL

record opus_tuning_t =
  ot_application :: application_e
  ot_vbr :: vbr_e
  ot_expected_packet_loss_pct :: int
  ot_enable_fec :: bool
  ot_complexity :: int
  ot_enable_bandwidth_extension :: bool

text \<open>
  All of it, with the tuning of Opus that the audio thread reads, the client profiles, the settings
  recorded for the web interface, the lines logged (a name and what is shown for it), the names
  reported as unrecognized, and the directories created.
\<close>

record 'f config =
  cf_video :: "'f video_settings"
  cf_audio :: audio_settings
  cf_stream :: stream_settings
  cf_nvhttp :: nvhttp_settings
  cf_input :: "'f input_settings"
  cf_sunshine :: sunshine_settings
  cf_solarflare :: "'f solarflare_t"
  cf_opus_tuning :: opus_tuning_t
  cf_profiles :: profiles_state
  cf_modified :: "bytes \<rightharpoonup> bytes"
  cf_log :: "(bytes \<times> bytes) list"
  cf_unrecognized :: "bytes list"
  cf_created :: "bytes list"

end
