(* ===== verification/ConfigApply.thy ===== *)
theory ConfigApply
  imports ConfigState "HOL-Library.List_Lexorder"
begin

text \<open>
  \<open>apply_config\<close>, the command line, the hot reload and the defaults (\<^verbatim>\<open>src/config.cpp\<close>). The body of
  \<open>apply_config\<close> is the list of its statements: \<open>on\<close> reads one field, \<open>safely\<close> marks a statement that
  cannot fail. What the program takes from outside is the record \<open>config_env\<close>.
\<close>

section \<open>Video\<close>

text \<open>An unsigned field that is read through a reference to \<^verbatim>\<open>int\<close>.\<close>

definition on_nat :: "('s \<Rightarrow> nat) \<Rightarrow> ((nat \<Rightarrow> nat) \<Rightarrow> 's \<Rightarrow> 's) \<Rightarrow> int reader \<Rightarrow> 's reader" where
  "on_nat get upd = on (int \<circ> get) (\<lambda>f. upd (nat \<circ> f \<circ> int))"

definition nvenc_fields :: "nvenc_config reader list" where
  "nvenc_fields =
    [on nv_quality_preset nv_quality_preset_update (int_between_f (ascii ''nvenc_preset'') (1, 7)),
     on nv_vbv_percentage_increase nv_vbv_percentage_increase_update (int_between_f (ascii ''nvenc_vbv_increase'') (0, 400)),
     on nv_adaptive_quantization nv_adaptive_quantization_update (bool_f (ascii ''nvenc_spatial_aq'')),
     on nv_weighted_prediction nv_weighted_prediction_update (bool_f (ascii ''nvenc_weighted_prediction'')),
     on nv_enable_min_qp nv_enable_min_qp_update (bool_f (ascii ''nvenc_enable_min_qp'')),
     on_nat nv_min_qp_h264 nv_min_qp_h264_update (int_between_f (ascii ''nvenc_min_qp_h264'') (1, 51)),
     on_nat nv_min_qp_hevc nv_min_qp_hevc_update (int_between_f (ascii ''nvenc_min_qp_hevc'') (1, 51)),
     on_nat nv_min_qp_av1 nv_min_qp_av1_update (int_between_f (ascii ''nvenc_min_qp_av1'') (1, 255)),
     on nv_insert_filler_data nv_insert_filler_data_update (bool_f (ascii ''nvenc_filler_data'')),
     on nv_two_pass nv_two_pass_update (generic_f (ascii ''nvenc_twopass'') twopass_from_view),
     on nv_h264_cavlc nv_h264_cavlc_update (bool_f (ascii ''nvenc_h264_cavlc'')),
     on nv_split_frame_encoding nv_split_frame_encoding_update (generic_f (ascii ''nvenc_split_encode'') split_encode_from_view),
     on nv_rc_lookahead nv_rc_lookahead_update (int_between_f (ascii ''nvenc_rc_lookahead'') (0, 31)),
     on nv_surfaces nv_surfaces_update (int_f (ascii ''nvenc_surfaces'')),
     on nv_bframes nv_bframes_update (int_between_f (ascii ''nvenc_bframes'') (0, 4)),
     on nv_zerolatency nv_zerolatency_update (bool_f (ascii ''nvenc_zerolatency'')),
     on nv_aq_strength nv_aq_strength_update (int_between_f (ascii ''nvenc_aq_strength'') (1, 15)),
     on nv_temporal_aq nv_temporal_aq_update (bool_f (ascii ''nvenc_temporal_aq''))]"

definition nvenc_tuning_fields :: "'f video_settings reader list" where
  "nvenc_tuning_fields =
    [on vi_nv_preset vi_nv_preset_update (int_between_f (ascii ''nvenc_tuning_preset'') (-1, 2)),
     on vi_nv_realtime_hags vi_nv_realtime_hags_update (bool_f (ascii ''nvenc_realtime_hags'')),
     on vi_nv_opengl_vulkan_on_dxgi vi_nv_opengl_vulkan_on_dxgi_update (bool_f (ascii ''nvenc_opengl_vulkan_on_dxgi'')),
     on vi_nv_high_power_mode vi_nv_high_power_mode_update (bool_f (ascii ''nvenc_latency_over_power''))]"

text \<open>The copies for the encoder of FFmpeg are made before the preset is applied.\<close>

definition nv_legacy_of :: "nvenc_config \<Rightarrow> nv_legacy_config" where
  "nv_legacy_of nv = \<lparr>lg_preset = nv_quality_preset nv + 11, lg_multipass = nv_two_pass nv,
     lg_h264_cavlc = nv_h264_cavlc nv, lg_aq = nv_adaptive_quantization nv,
     lg_vbv_percentage_increase = nv_vbv_percentage_increase nv\<rparr>"

definition apply_preset :: "'f video_settings \<Rightarrow> 'f video_settings" where
  "apply_preset v = v\<lparr>vi_nv := apply_nvenc_tuning_preset (vi_nv_preset v) (vi_nv v)\<rparr>"

definition qsv_fields :: "qsv_config reader list" where
  "qsv_fields =
    [on qsv_preset qsv_preset_update (generic_f (ascii ''qsv_preset'') qsv_preset_from_view),
     on qsv_cavlc qsv_cavlc_update (generic_f (ascii ''qsv_coder'') qsv_coder_from_view),
     on qsv_slow_hevc qsv_slow_hevc_update (bool_f (ascii ''qsv_slow_hevc''))]"

text \<open>A word that sets one field for each codec.\<close>

fun amd_quality_f :: "amd_config reader" where
  "amd_quality_f (vars, amd) =
    (let (vars, quality) = string_f (ascii ''amd_quality'') (vars, []) in
     (vars, if quality \<noteq> [] then
        amd\<lparr>amd_quality_h264 := amd_from_view quality_h264_e quality (amd_quality_h264 amd),
            amd_quality_hevc := amd_from_view quality_hevc_e quality (amd_quality_hevc amd),
            amd_quality_av1 := amd_from_view quality_av1_e quality (amd_quality_av1 amd)\<rparr>
      else amd))"

fun amd_rc_coder_f :: "amd_config reader" where
  "amd_rc_coder_f (vars, amd) =
    (let (vars, rc) = string_f (ascii ''amd_rc'') (vars, []);
         (vars, amd) = on amd_coder amd_coder_update (generic_f (ascii ''amd_coder'') amd_coder_from_view) (vars, amd) in
     (vars, if rc \<noteq> [] then
        amd\<lparr>amd_rc_h264 := amd_from_view rc_h264_e rc (amd_rc_h264 amd),
            amd_rc_hevc := amd_from_view rc_hevc_e rc (amd_rc_hevc amd),
            amd_rc_av1 := amd_from_view rc_av1_e rc (amd_rc_av1 amd)\<rparr>
      else amd))"

fun amd_usage_f :: "amd_config reader" where
  "amd_usage_f (vars, amd) =
    (let (vars, usage) = string_f (ascii ''amd_usage'') (vars, []) in
     (vars, if usage \<noteq> [] then
        amd\<lparr>amd_usage_h264 := amd_from_view usage_h264_e usage (amd_usage_h264 amd),
            amd_usage_hevc := amd_from_view usage_hevc_e usage (amd_usage_hevc amd),
            amd_usage_av1 := amd_from_view usage_av1_e usage (amd_usage_av1 amd)\<rparr>
      else amd))"

text \<open>An optional integer read through a reference to \<^verbatim>\<open>bool\<close>: only the lowest byte of it is written.\<close>

definition on_low_byte :: "('s \<Rightarrow> int option) \<Rightarrow> ((int option \<Rightarrow> int option) \<Rightarrow> 's \<Rightarrow> 's) \<Rightarrow> bool reader \<Rightarrow> 's reader" where
  "on_low_byte get upd = on (\<lambda>s. \<exists>v. get s = Some v \<and> v mod 256 \<noteq> 0)
     (\<lambda>f. upd (map_option (\<lambda>v. if f (v mod 256 \<noteq> 0) = (v mod 256 \<noteq> 0) then v
       else v - v mod 256 + of_bool (f (v mod 256 \<noteq> 0)))))"

definition amd_flag_fields :: "amd_config reader list" where
  "amd_flag_fields =
    [on_low_byte amd_preanalysis amd_preanalysis_update (bool_f (ascii ''amd_preanalysis'')),
     on_low_byte amd_vbaq amd_vbaq_update (bool_f (ascii ''amd_vbaq'')),
     on_low_byte amd_enforce_hrd amd_enforce_hrd_update (bool_f (ascii ''amd_enforce_hrd''))]"

definition vt_fields :: "vt_config reader list" where
  "vt_fields =
    [on vt_coder vt_coder_update (generic_f (ascii ''vt_coder'') vt_coder_from_view),
     on vt_allow_sw vt_allow_sw_update (generic_f (ascii ''vt_software'') allow_software_from_view),
     on vt_require_sw vt_require_sw_update (generic_f (ascii ''vt_software'') force_software_from_view),
     on vt_realtime vt_realtime_update (generic_f (ascii ''vt_realtime'') rt_from_view)]"

definition vaapi_fields :: "vaapi_config reader list" where
  "vaapi_fields =
    [on va_strict_rc_buffer va_strict_rc_buffer_update (bool_f (ascii ''vaapi_strict_rc_buffer'')),
     on va_rc_mode va_rc_mode_update (int_between_f (ascii ''vaapi_rc_mode'') (0, 6)),
     on va_quality va_quality_update (int_between_f (ascii ''vaapi_quality'') (0, 10)),
     on va_min_qp va_min_qp_update (int_between_f (ascii ''vaapi_min_qp'') (0, 63)),
     on va_max_qp va_max_qp_update (int_between_f (ascii ''vaapi_max_qp'') (0, 63)),
     on va_slice_count va_slice_count_update (int_between_f (ascii ''vaapi_slice_count'') (0, 255)),
     on va_async_depth va_async_depth_update (int_between_f (ascii ''vaapi_async_depth'') (0, 64)),
     on va_rc_buffer_frames va_rc_buffer_frames_update (int_between_f (ascii ''vaapi_rc_buffer_frames'') (0, 100))]"

definition vk_fields :: "vk_config reader list" where
  "vk_fields =
    [on vk_tune vk_tune_update (int_f (ascii ''vk_tune'')),
     on vk_rc_mode vk_rc_mode_update (int_f (ascii ''vk_rc_mode'')),
     on vk_min_qp vk_min_qp_update (int_f (ascii ''vk_min_qp'')),
     on vk_max_qp vk_max_qp_update (int_f (ascii ''vk_max_qp''))]"

definition device_fields :: "'f video_settings reader list" where
  "device_fields =
    [on vi_capture vi_capture_update (string_f (ascii ''capture'')),
     on vi_encoder vi_encoder_update (string_f (ascii ''encoder'')),
     on vi_adapter_name vi_adapter_name_update (string_f (ascii ''adapter_name'')),
     on vi_output_name vi_output_name_update (string_f (ascii ''output_name''))]"

text \<open>Delays of the display device, in milliseconds.\<close>

fun revert_delay_f :: "int reader" where
  "revert_delay_f (vars, delay) =
    (let (vars, v) = int_between_f (ascii ''dd_config_revert_delay'') (0, 2 ^ 31 - 1) (vars, -1) in
     (vars, if 0 \<le> v then v else delay))"

fun hdr_toggle_delay_f :: "int reader" where
  "hdr_toggle_delay_f (vars, delay) = int_between_f (ascii ''dd_wa_hdr_toggle_delay'') (0, 3000) (vars, 0)"

definition dd_fields :: "dd_config reader list" where
  "dd_fields =
    [on dd_configuration_option dd_configuration_option_update (generic_f (ascii ''dd_configuration_option'') config_option_from_view),
     on dd_resolution_option dd_resolution_option_update (generic_f (ascii ''dd_resolution_option'') resolution_option_from_view),
     on dd_manual_resolution dd_manual_resolution_update (string_f (ascii ''dd_manual_resolution'')),
     on dd_refresh_rate_option dd_refresh_rate_option_update (generic_f (ascii ''dd_refresh_rate_option'') refresh_rate_option_from_view),
     on dd_manual_refresh_rate dd_manual_refresh_rate_update (string_f (ascii ''dd_manual_refresh_rate'')),
     on dd_hdr_option dd_hdr_option_update (generic_f (ascii ''dd_hdr_option'') hdr_option_from_view),
     on dd_config_revert_delay dd_config_revert_delay_update revert_delay_f,
     on dd_config_revert_on_disconnect dd_config_revert_on_disconnect_update
       (bool_f (ascii ''dd_config_revert_on_disconnect''))]"

fun mode_remapping_f :: "(bytes \<Rightarrow> mode_remapping option) \<Rightarrow> mode_remapping fallible" where
  "mode_remapping_f read_json (vars, input) =
    (let (vars, tmp) = string_f (ascii ''dd_mode_remapping'') (vars, []) in
     if tmp = [] then Inr (vars, input)
     else case read_json (ascii ''{'' @ 34 # ascii ''dd_mode_remapping'' @ 34 # ascii '':'' @ tmp @ ascii ''}'') of
       None \<Rightarrow> Inl Json_error
     | Some output \<Rightarrow> Inr (vars, output))"

definition BITRATE_MIN_KBPS :: int where
  "BITRATE_MIN_KBPS = 100"

definition MAX_BITRATE_MIN_KBPS :: int where
  "MAX_BITRATE_MIN_KBPS = 500"

fun max_bitrate_f :: "int reader" where
  "max_bitrate_f (vars, max_bitrate) =
    (let had_key = map_of vars (ascii ''max_bitrate'') \<noteq> None;
         (vars, tmp) = int_f (ascii ''max_bitrate'') (vars, max_bitrate) in
     (vars, if had_key \<and> \<not> (tmp \<noteq> 0 \<and> (tmp < MAX_BITRATE_MIN_KBPS \<or> BITRATE_MAX_KBPS < tmp)) then tmp
            else max_bitrate))"

definition swap_adaptive :: "'f video_settings \<Rightarrow> 'f video_settings" where
  "swap_adaptive v =
    (if vi_adaptive_bitrate_enabled v \<and> vi_adaptive_bitrate_max v < vi_adaptive_bitrate_min v
     then v\<lparr>vi_adaptive_bitrate_min := vi_adaptive_bitrate_max v,
            vi_adaptive_bitrate_max := vi_adaptive_bitrate_min v\<rparr>
     else v)"

definition bitrate_fields :: "'f floating \<Rightarrow> 'f video_settings reader list" where
  "bitrate_fields fl =
    [on vi_max_bitrate vi_max_bitrate_update max_bitrate_f,
     on vi_minimum_fps_target vi_minimum_fps_target_update
       (double_between_f fl (ascii ''minimum_fps_target'') (fl_int fl 0, fl_int fl 1000)),
     on vi_adaptive_bitrate_enabled vi_adaptive_bitrate_enabled_update (bool_f (ascii ''adaptive_bitrate_enabled'')),
     on vi_adaptive_bitrate_min vi_adaptive_bitrate_min_update
       (int_between_f (ascii ''adaptive_bitrate_min'') (BITRATE_MIN_KBPS, BITRATE_MAX_KBPS)),
     on vi_adaptive_bitrate_max vi_adaptive_bitrate_max_update
       (int_between_f (ascii ''adaptive_bitrate_max'') (BITRATE_MIN_KBPS, BITRATE_MAX_KBPS)),
     pure swap_adaptive]"

definition linux_display_fields :: "linux_display_config reader list" where
  "linux_display_fields =
    [on ld_headless_mode ld_headless_mode_update (bool_f (ascii ''headless_mode'')),
     on ld_use_cage_compositor ld_use_cage_compositor_update (bool_f (ascii ''linux_use_cage_compositor'')),
     on ld_prefer_gpu_native_capture ld_prefer_gpu_native_capture_update (bool_f (ascii ''linux_prefer_gpu_native_capture'')),
     on ld_compositor_backend ld_compositor_backend_update (string_restricted_f (ascii ''compositor_backend'') (map ascii [''auto'', ''labwc'', ''krfb'', ''gamescope''])),
     on ld_headless_width ld_headless_width_update (int_between_f (ascii ''headless_width'') (0, 7680)),
     on ld_headless_height ld_headless_height_update (int_between_f (ascii ''headless_height'') (0, 4320)),
     on ld_headless_refresh ld_headless_refresh_update (int_between_f (ascii ''headless_refresh'') (0, 240))]"

text \<open>From \<^verbatim>\<open>qp\<close> to the linux display; the mapping of modes is the one step that can fail.\<close>

definition encoder_fields :: "'f video_settings reader list" where
  "encoder_fields =
    [on vi_qp vi_qp_update (int_f (ascii ''qp'')),
     on vi_hevc_mode vi_hevc_mode_update (int_between_f (ascii ''hevc_mode'') (0, 3)),
     on vi_av1_mode vi_av1_mode_update (int_between_f (ascii ''av1_mode'') (0, 3)),
     on vi_min_threads vi_min_threads_update (int_f (ascii ''min_threads'')),
     on vi_sw vi_sw_update (on sw_preset sw_preset_update (string_f (ascii ''sw_preset''))),
     pure (\<lambda>v. if sw_preset (vi_sw v) \<noteq> []
       then vi_sw_update (sw_svtav1_preset_update (\<lambda>_. Some (svtav1_preset_from_view (sw_preset (vi_sw v))))) v else v),
     on vi_sw vi_sw_update (on sw_tune sw_tune_update (string_f (ascii ''sw_tune''))),
     on vi_nv vi_nv_update (run_all nvenc_fields)] @
    nvenc_tuning_fields @
    [pure (\<lambda>v. v\<lparr>vi_nv_legacy := nv_legacy_of (vi_nv v)\<rparr>),
     pure apply_preset,
     on vi_qsv vi_qsv_update (run_all qsv_fields),
     on vi_amd vi_amd_update (run_all ([amd_quality_f, amd_rc_coder_f, amd_usage_f] @ amd_flag_fields)),
     on vi_vt vi_vt_update (run_all vt_fields),
     on vi_vaapi vi_vaapi_update (run_all vaapi_fields),
     on vi_vk vi_vk_update (run_all vk_fields)] @
    device_fields @
    [on vi_dd vi_dd_update (run_all dd_fields)]"

definition video_fields ::
    "'f floating \<Rightarrow> (bytes \<Rightarrow> mode_remapping option) \<Rightarrow> 'f video_settings fallible list" where
  "video_fields fl read_json =
    map safely encoder_fields @
    [on_fallible vi_dd vi_dd_update
       (on_fallible dd_mode_remapping dd_mode_remapping_update (mode_remapping_f read_json)),
     safely (on vi_dd vi_dd_update (on dd_hdr_toggle_delay dd_hdr_toggle_delay_update hdr_toggle_delay_f))] @
    map safely (bitrate_fields fl @ [on vi_linux_display vi_linux_display_update (run_all linux_display_fields)])"

section \<open>Network, tokens and origins\<close>

text \<open>What is outside: floating point, files, JSON, the platform.\<close>

record 'f config_env =
  ce_double :: "'f floating"
  ce_float :: "'f floating"
  ce_files :: file_system
  ce_prep_json :: "bytes \<Rightarrow> prep_node list option"
  ce_mode_json :: "bytes \<Rightarrow> mode_remapping option"
  ce_gamepads :: "bytes list"
  ce_apps_exists :: "bytes \<Rightarrow> bool"
  ce_apps_copied :: "bytes \<Rightarrow> bool"
  ce_default_gamepad :: bytes
  ce_host_name :: bytes
  ce_key_repeat_period :: 'f

text \<open>A path, and with it the directory that may be created.\<close>

definition on_path :: "file_system \<Rightarrow> bytes \<Rightarrow> ('f config \<Rightarrow> bytes) \<Rightarrow>
    ((bytes \<Rightarrow> bytes) \<Rightarrow> 'f config \<Rightarrow> 'f config) \<Rightarrow> 'f config fallible" where
  "on_path fs name get upd =
    on_fallible (\<lambda>s. (get s, cf_created s))
      (\<lambda>f s. let (path, created) = f (get s, cf_created s) in (upd (\<lambda>_. path) s)\<lparr>cf_created := created\<rparr>)
      (path_f fs name)"

definition path_fields :: "file_system \<Rightarrow> 'f config fallible list" where
  "path_fields fs =
    [on_path fs (ascii ''pkey'') (nh_pkey \<circ> cf_nvhttp) (cf_nvhttp_update \<circ> nh_pkey_update),
     on_path fs (ascii ''cert'') (nh_cert \<circ> cf_nvhttp) (cf_nvhttp_update \<circ> nh_cert_update),
     safely (on cf_nvhttp cf_nvhttp_update
       (on nh_sunshine_name nh_sunshine_name_update (string_f (ascii ''sunshine_name'')))),
     on_path fs (ascii ''log_path'') (su_log_file \<circ> cf_sunshine) (cf_sunshine_update \<circ> su_log_file_update),
     on_path fs (ascii ''file_state'') (nh_file_state \<circ> cf_nvhttp) (cf_nvhttp_update \<circ> nh_file_state_update),
     safely (pure (\<lambda>s. s\<lparr>cf_sunshine := (cf_sunshine s)\<lparr>su_credentials_file := nh_file_state (cf_nvhttp s)\<rparr>\<rparr>)),
     on_path fs (ascii ''credentials_file'') (su_credentials_file \<circ> cf_sunshine)
       (cf_sunshine_update \<circ> su_credentials_file_update),
     safely (on cf_nvhttp cf_nvhttp_update
       (on nh_external_ip nh_external_ip_update (string_f (ascii ''external_ip''))))]"

definition audio_fields :: "audio_settings reader list" where
  "audio_fields =
    [on au_sink au_sink_update (string_f (ascii ''audio_sink'')),
     on au_virtual_sink au_virtual_sink_update (string_f (ascii ''virtual_sink'')),
     on au_stream au_stream_update (bool_f (ascii ''stream_audio'')),
     on au_install_steam_drivers au_install_steam_drivers_update (bool_f (ascii ''install_steam_audio_drivers''))]"

text \<open>The list of tokens is replaced whether or not the name is there.\<close>

fun api_tokens_f :: "api_token_t list reader" where
  "api_tokens_f (vars, tokens) =
    (let (vars, temp) = string_f (ascii ''api_tokens'') (vars, []) in (vars, parse_tokens temp))"

fun webhook_urls_f :: "bytes list reader" where
  "webhook_urls_f (vars, urls) =
    (let hook = (\<lambda>var. prefix (ascii ''webhook_url_'') (fst var)) in
     (filter (\<lambda>var. \<not> hook var) vars, sort (map snd (filter hook vars))))"

definition nvhttp_fields :: "nvhttp_settings reader list" where
  "nvhttp_fields =
    [on nh_origin_web_ui_allowed nh_origin_web_ui_allowed_update (string_restricted_f (ascii ''origin_web_ui_allowed'') (map ascii [''pc'', ''lan'', ''wan''])),
     on nh_trusted_subnets nh_trusted_subnets_update (string_f (ascii ''trusted_subnets'')),
     on nh_trusted_subnet_auto_pairing nh_trusted_subnet_auto_pairing_update (bool_f (ascii ''trusted_subnet_auto_pairing'')),
     on nh_api_tokens nh_api_tokens_update api_tokens_f,
     on nh_webhook_urls nh_webhook_urls_update webhook_urls_f,
     on nh_webhook_secret nh_webhook_secret_update (string_f (ascii ''webhook_secret''))]"

definition csrf_origin_ok :: "bytes \<Rightarrow> bool" where
  "csrf_origin_ok origin \<longleftrightarrow> 8 < length origin \<and> prefix (ascii ''https://'') origin"

fun csrf_origins_f :: "bytes list reader" where
  "csrf_origins_f (vars, origins) =
    (let (vars, user_csrf_origins) = string_list_f (ascii ''csrf_allowed_origins'') (vars, []) in
     (vars, map ascii [''https://localhost'', ''https://127.0.0.1'', ''https://[::1]''] @
        filter csrf_origin_ok user_csrf_origins))"

section \<open>Stream\<close>

definition PACKETSIZE_MIN :: int where
  "PACKETSIZE_MIN = 200"

definition PACKETSIZE_MAX :: int where
  "PACKETSIZE_MAX = 65535"

definition FEC_PERCENTAGE_MIN :: int where
  "FEC_PERCENTAGE_MIN = 1"

definition FEC_PERCENTAGE_MAX :: int where
  "FEC_PERCENTAGE_MAX = 255"

fun ping_timeout_f :: "int reader" where
  "ping_timeout_f (vars, timeout) =
    (let (vars, to) = int_between_f (ascii ''ping_timeout'') (-1, 2 ^ 31 - 1) (vars, -1) in
     (vars, if to \<noteq> -1 then to else timeout))"

fun packetsize_f :: "int reader" where
  "packetsize_f (vars, packetsize) =
    (let had_key = map_of vars (ascii ''packetsize'') \<noteq> None;
         (vars, tmp) = int_between_f (ascii ''packetsize'') (0, PACKETSIZE_MAX) (vars, packetsize) in
     (vars, if had_key then if tmp \<noteq> 0 \<and> tmp < PACKETSIZE_MIN then PACKETSIZE_MIN else tmp else packetsize))"

definition stream_fields :: "stream_settings reader list" where
  "stream_fields =
    [on st_ping_timeout st_ping_timeout_update ping_timeout_f,
     on st_lan_encryption_mode st_lan_encryption_mode_update (int_between_f (ascii ''lan_encryption_mode'') (0, 2)),
     on st_wan_encryption_mode st_wan_encryption_mode_update (int_between_f (ascii ''wan_encryption_mode'') (0, 2)),
     on st_packetsize st_packetsize_update packetsize_f]"

text \<open>The applications file is copied from the assets when there is none.\<close>

definition provide_apps_file :: "'f config_env \<Rightarrow> 'f config fallible" where
  "provide_apps_file env st =
    (let file_apps = st_file_apps (cf_stream (snd st)) in
     if ce_apps_exists env file_apps \<or> ce_apps_copied env file_apps then Inr st else Inl Filesystem_error)"

section \<open>Input\<close>

definition rightalt_as_win :: "'f input_settings \<Rightarrow> 'f input_settings" where
  "rightalt_as_win i =
    (if in_key_rightalt_to_key_win i then i\<lparr>in_keybindings := emplace 0xA5 0x5B (in_keybindings i)\<rparr> else i)"

fun back_button_timeout_f :: "int reader" where
  "back_button_timeout_f (vars, timeout) =
    (let (vars, to) = int_f (ascii ''back_button_timeout'') (vars, - (2 ^ 31)) in
     (vars, if - (2 ^ 31) < to then to else timeout))"

fun key_repeat_period_f :: "'f floating \<Rightarrow> 'f reader" where
  "key_repeat_period_f fl (vars, period) =
    (let (vars, repeat_frequency) =
       double_between_f fl (ascii ''key_repeat_frequency'') (fl_int fl 0, fl_max fl) (vars, fl_int fl 0) in
     (vars, if \<not> fl_le fl repeat_frequency (fl_int fl 0) then fl_inverse fl repeat_frequency else period))"

fun key_repeat_delay_f :: "int reader" where
  "key_repeat_delay_f (vars, delay) =
    (let (vars, to) = int_f (ascii ''key_repeat_delay'') (vars, -1) in (vars, if 0 \<le> to then to else delay))"

definition input_fields :: "'f config_env \<Rightarrow> 'f input_settings reader list" where
  "input_fields env =
    [pure (in_key_rightalt_to_key_win_update (\<lambda>_. False)),
     on in_key_rightalt_to_key_win in_key_rightalt_to_key_win_update (bool_f (ascii ''key_rightalt_to_key_win'')),
     pure rightalt_as_win,
     on in_back_button_timeout in_back_button_timeout_update back_button_timeout_f,
     on in_key_repeat_period in_key_repeat_period_update (key_repeat_period_f (ce_double env)),
     on in_key_repeat_delay in_key_repeat_delay_update key_repeat_delay_f,
     on in_gamepad in_gamepad_update (string_restricted_f (ascii ''gamepad'') (ce_gamepads env)),
     on in_ds4_back_as_touchpad_click in_ds4_back_as_touchpad_click_update (bool_f (ascii ''ds4_back_as_touchpad_click'')),
     on in_motion_as_ds4 in_motion_as_ds4_update (bool_f (ascii ''motion_as_ds4'')),
     on in_touchpad_as_ds4 in_touchpad_as_ds4_update (bool_f (ascii ''touchpad_as_ds4'')),
     on in_ds5_inputtino_randomize_mac in_ds5_inputtino_randomize_mac_update (bool_f (ascii ''ds5_inputtino_randomize_mac'')),
     on in_mouse in_mouse_update (bool_f (ascii ''mouse'')),
     on in_keyboard in_keyboard_update (bool_f (ascii ''keyboard'')),
     on in_controller in_controller_update (bool_f (ascii ''controller'')),
     on in_always_send_scancodes in_always_send_scancodes_update (bool_f (ascii ''always_send_scancodes'')),
     on in_high_resolution_scrolling in_high_resolution_scrolling_update (bool_f (ascii ''high_resolution_scrolling'')),
     on in_native_pen_touch in_native_pen_touch_update (bool_f (ascii ''native_pen_touch'')),
     on in_input_seat in_input_seat_update (string_f (ascii ''input_seat''))]"

section \<open>SolarFlare\<close>

definition audio_fx_fields :: "'f floating \<Rightarrow> 'f audio_fx_t reader list" where
  "audio_fx_fields fl =
    [on fx_enable_agc fx_enable_agc_update (bool_f (ascii ''sf_audio_agc'')),
     on fx_enable_vad fx_enable_vad_update (bool_f (ascii ''sf_audio_vad'')),
     on fx_enable_ducking fx_enable_ducking_update (bool_f (ascii ''sf_audio_ducking'')),
     on fx_enable_noise_gate fx_enable_noise_gate_update (bool_f (ascii ''sf_audio_noise_gate'')),
     on fx_noise_gate_threshold_db fx_noise_gate_threshold_db_update (float_between_f fl (ascii ''sf_audio_noise_gate_db'') (-90, -10)),
     on fx_agc_target_rms_db fx_agc_target_rms_db_update (float_between_f fl (ascii ''sf_audio_agc_target_db'') (-40, -6)),
     on fx_agc_max_gain_db fx_agc_max_gain_db_update (float_between_f fl (ascii ''sf_audio_agc_max_gain_db'') (0, 30)),
     on fx_agc_min_gain_db fx_agc_min_gain_db_update (float_between_f fl (ascii ''sf_audio_agc_min_gain_db'') (-30, 0)),
     on fx_agc_attack_ms fx_agc_attack_ms_update (float_between_f fl (ascii ''sf_audio_agc_attack_ms'') (1, 500)),
     on fx_agc_hold_ms fx_agc_hold_ms_update (float_between_f fl (ascii ''sf_audio_agc_hold_ms'') (0, 5000)),
     on fx_agc_release_ms fx_agc_release_ms_update (float_between_f fl (ascii ''sf_audio_agc_release_ms'') (1, 5000)),
     on fx_vad_threshold_db fx_vad_threshold_db_update (float_between_f fl (ascii ''sf_audio_vad_threshold_db'') (-80, -10)),
     on fx_vad_hysteresis_db fx_vad_hysteresis_db_update (float_between_f fl (ascii ''sf_audio_vad_hysteresis_db'') (0, 30)),
     on fx_vad_min_speech_ms fx_vad_min_speech_ms_update (float_between_f fl (ascii ''sf_audio_vad_min_speech_ms'') (10, 2000)),
     on fx_vad_min_silence_ms fx_vad_min_silence_ms_update (float_between_f fl (ascii ''sf_audio_vad_min_silence_ms'') (10, 5000)),
     on fx_ducker_attenuation_db fx_ducker_attenuation_db_update (float_between_f fl (ascii ''sf_audio_ducker_attenuation_db'') (-40, 0)),
     on fx_ducker_attack_ms fx_ducker_attack_ms_update (float_between_f fl (ascii ''sf_audio_ducker_attack_ms'') (1, 2000)),
     on fx_ducker_release_ms fx_ducker_release_ms_update (float_between_f fl (ascii ''sf_audio_ducker_release_ms'') (1, 5000)),
     on fx_opus_application fx_opus_application_update (int_between_f (ascii ''sf_opus_application'') (0, 2)),
     on fx_opus_vbr fx_opus_vbr_update (int_between_f (ascii ''sf_opus_vbr'') (0, 2)),
     on fx_opus_complexity fx_opus_complexity_update (int_between_f (ascii ''sf_opus_complexity'') (0, 10)),
     on fx_opus_fec fx_opus_fec_update (bool_f (ascii ''sf_opus_fec'')),
     on fx_opus_expected_loss_pct fx_opus_expected_loss_pct_update (int_between_f (ascii ''sf_opus_expected_loss_pct'') (0, 100)),
     on fx_opus_bandwidth_extension fx_opus_bandwidth_extension_update (bool_f (ascii ''sf_opus_bandwidth_extension''))]"

definition solarflare_fields :: "'f solarflare_t reader list" where
  "solarflare_fields =
    [on sf_busy_poll_us sf_busy_poll_us_update (int_between_f (ascii ''busy_poll_us'') (0, 10000)),
     on sf_rate_cap_pct sf_rate_cap_pct_update (int_between_f (ascii ''rate_cap_pct'') (50, 95)),
     on sf_enet_4mib_buffer sf_enet_4mib_buffer_update (bool_f (ascii ''enet_4mib_buffer'')),
     on sf_pipewire_latency_ms sf_pipewire_latency_ms_update (int_between_f (ascii ''pipewire_latency_ms'') (1, 40)),
     on sf_cpu_pinning sf_cpu_pinning_update (bool_f (ascii ''cpu_pinning'')),
     on sf_dscp_qos sf_dscp_qos_update (bool_f (ascii ''dscp_qos'')),
     on sf_gpu_governor sf_gpu_governor_update (bool_f (ascii ''gpu_governor'')),
     on sf_headless_virtual_display sf_headless_virtual_display_update (bool_f (ascii ''headless_virtual_display'')),
     on sf_skip_wayland_correlation sf_skip_wayland_correlation_update (bool_f (ascii ''skip_wayland_correlation'')),
     on sf_latency_mode sf_latency_mode_update (string_restricted_f (ascii ''latency_mode'') (map ascii [''safe'', ''aggressive''])),
     on sf_idle_timeout_min sf_idle_timeout_min_update (int_between_f (ascii ''idle_timeout_min'') (0, 600))]"

definition apply_solarflare_keys :: "'f floating \<Rightarrow> 'f solarflare_t reader" where
  "apply_solarflare_keys fl =
    run_all (solarflare_fields @ [on sf_audio_fx sf_audio_fx_update (run_all (audio_fx_fields fl))])"

definition apply_opus_tuning_runtime :: "'f audio_fx_t \<Rightarrow> opus_tuning_t" where
  "apply_opus_tuning_runtime af = \<lparr>
     ot_application = (if fx_opus_application af = 1 then VOIP else if fx_opus_application af = 2 then AUDIO else LOWDELAY),
     ot_vbr = (if fx_opus_vbr af = 1 then VBR_CONSTRAINED else if fx_opus_vbr af = 2 then VBR_FULL else VBR_OFF),
     ot_expected_packet_loss_pct = fx_opus_expected_loss_pct af, ot_enable_fec = fx_opus_fec af,
     ot_complexity = fx_opus_complexity af, ot_enable_bandwidth_extension = fx_opus_bandwidth_extension af\<rparr>"

section \<open>The server\<close>

text \<open>\<open>apply_flags\<close> on a text that ends at its first zero byte: the flags and the result.\<close>

definition flip_flag :: "flag_e \<Rightarrow> flag_e set \<Rightarrow> flag_e set" where
  "flip_flag f flags = (if f \<in> flags then flags - {f} else insert f flags)"

fun apply_flags :: "bytes \<Rightarrow> flag_e set \<Rightarrow> flag_e set \<times> int" where
  "apply_flags [] flags = (flags, 0)"
| "apply_flags (c # line) flags =
    (if c = 0 then (flags, 0)
     else if c = 48 then apply_flags line (flip_flag PIN_STDIN flags)
     else if c = 49 then apply_flags line (flip_flag FRESH_STATE flags)
     else if c = 50 then apply_flags line (flip_flag FORCE_VIDEO_HEADER_REPLACE flags)
     else if c = 112 then apply_flags line (flip_flag UPNP flags)
     else (fst (apply_flags line flags), -1))"

definition PORT_HTTPS :: int where
  "PORT_HTTPS = -5"

definition RTSP_SETUP_PORT :: int where
  "RTSP_SETUP_PORT = 21"

fun port_f :: "u16 reader" where
  "port_f (vars, port) =
    (let (vars, p) = int_between_f (ascii ''port'') (1024 + PORT_HTTPS, 65535 - RTSP_SETUP_PORT) (vars, uint port) in
     (vars, of_int p))"

definition add_web_ui_origins :: "sunshine_settings \<Rightarrow> sunshine_settings" where
  "add_web_ui_origins s =
    (let web_ui_port = su_port s + 1 in
     s\<lparr>su_csrf_allowed_origins := su_csrf_allowed_origins s @
        map (\<lambda>host. ascii host @ int_text (uint web_ui_port))
          [''https://localhost:'', ''https://127.0.0.1:'', ''https://[::1]:'']\<rparr>)"

definition locales :: "bytes list" where
  "locales = map ascii [''bg'', ''cs'', ''de'', ''en'', ''en_GB'', ''en_US'', ''es'', ''fr'', ''hu'', ''it'', ''ja'',
     ''ko'', ''pl'', ''pt'', ''pt_BR'', ''ru'', ''sv'', ''tr'', ''uk'', ''vi'', ''zh'', ''zh_TW'']"

fun upnp_f :: "flag_e set reader" where
  "upnp_f (vars, flags) =
    (let (vars, upnp) = bool_f (ascii ''upnp'') (vars, False) in (vars, if upnp then flip_flag UPNP flags else flags))"

definition log_level_of :: "bytes \<Rightarrow> int \<Rightarrow> int" where
  "log_level_of str level =
    (case convert [(''verbose'', 0), (''debug'', 1), (''info'', 2), (''warning'', 3), (''error'', 4), (''fatal'', 5),
        (''none'', 6)] str of
       Some l \<Rightarrow> l
     | None \<Rightarrow> if 48 \<le> hd str \<and> hd str < 55 then uint (hd str) - 48 else level)"

fun log_level_f :: "int reader" where
  "log_level_f (vars, level) =
    (let (vars, str) = string_f (ascii ''min_log_level'') (vars, []) in
     (vars, if str \<noteq> [] then log_level_of str level else level))"

fun flags_f :: "flag_e set reader" where
  "flags_f (vars, flags) =
    (case map_of vars (ascii ''flags'') of
       None \<Rightarrow> (vars, flags)
     | Some line \<Rightarrow> (AList.delete (ascii ''flags'') vars, fst (apply_flags line flags)))"

definition sunshine_fields :: "sunshine_settings reader list" where
  "sunshine_fields =
    [on su_port su_port_update port_f,
     pure add_web_ui_origins,
     on su_address_family su_address_family_update
       (string_restricted_f (ascii ''address_family'') (map ascii [''ipv4'', ''both''])),
     on su_bind_address su_bind_address_update (string_f (ascii ''bind_address'')),
     on su_flags su_flags_update upnp_f,
     on su_locale su_locale_update (string_restricted_f (ascii ''locale'') locales),
     on su_min_log_level su_min_log_level_update log_level_f,
     on su_flags su_flags_update flags_f]"

section \<open>The whole configuration\<close>

definition redacted_config :: "bytes list" where
  "redacted_config = [ascii ''csrf_allowed_origins'']"

text \<open>What is written to the log for every variable, and what the web interface is told.\<close>

definition log_config_settings :: "vars \<Rightarrow> bool \<Rightarrow> 'f config \<Rightarrow> 'f config" where
  "log_config_settings vars save s =
    s\<lparr>cf_log := cf_log s @
        map (\<lambda>(name, val). (name, if name \<in> set redacted_config then ascii ''[redacted]'' else val)) vars,
      cf_modified := (if save then cf_modified s ++ map_of vars else cf_modified s)\<rparr>"

definition client_keys :: "bytes list" where
  "client_keys = map ascii [''hevc_bitrate_multiplier'', ''fps'', ''bitrate'', ''gcmap'']"

definition report_unrecognized :: "'f config reader" where
  "report_unrecognized st =
    (if su_min_log_level (cf_sunshine (snd st)) \<le> 3 then
       let vars = fold AList.delete client_keys (fst st) in
       (vars, (snd st)\<lparr>cf_unrecognized := cf_unrecognized (snd st) @ map fst vars\<rparr>)
     else st)"

definition load_client_profiles :: "'f config reader" where
  "load_client_profiles st =
    (filter (\<lambda>(name, _). \<not> prefix profile_prefix name) (fst st),
     (snd st)\<lparr>cf_profiles := load_from_config (fst st) (cf_profiles (snd st))\<rparr>)"

definition update_opus_tuning :: "'f config \<Rightarrow> 'f config" where
  "update_opus_tuning s = s\<lparr>cf_opus_tuning := apply_opus_tuning_runtime (sf_audio_fx (cf_solarflare s))\<rparr>"

text \<open>The statements before and after those for SolarFlare.\<close>

definition leading_fields :: "'f config_env \<Rightarrow> 'f config fallible list" where
  "leading_fields env =
    map (on_fallible cf_video cf_video_update) (video_fields (ce_double env) (ce_mode_json env)) @
    path_fields (ce_files env) @
    [on_fallible cf_sunshine cf_sunshine_update
       (on_fallible su_prep_cmds su_prep_cmds_update (list_prep_cmd_f (ce_prep_json env) (ascii ''global_prep_cmd''))),
     safely (on cf_audio cf_audio_update (run_all audio_fields)),
     safely (on cf_nvhttp cf_nvhttp_update (run_all nvhttp_fields)),
     safely (on cf_sunshine cf_sunshine_update
       (on su_csrf_allowed_origins su_csrf_allowed_origins_update csrf_origins_f)),
     safely (on cf_stream cf_stream_update (run_all stream_fields)),
     on_path (ce_files env) (ascii ''file_apps'') (st_file_apps \<circ> cf_stream) (cf_stream_update \<circ> st_file_apps_update),
     provide_apps_file env,
     safely (on cf_stream cf_stream_update (on st_fec_percentage st_fec_percentage_update
       (int_between_f (ascii ''fec_percentage'') (FEC_PERCENTAGE_MIN, FEC_PERCENTAGE_MAX)))),
     on_fallible cf_input cf_input_update
       (on_fallible in_keybindings in_keybindings_update (map_int_int_f (ascii ''keybindings''))),
     safely (on cf_input cf_input_update (run_all (input_fields env))),
     safely (on cf_sunshine cf_sunshine_update
       (on su_notify_pre_releases su_notify_pre_releases_update (bool_f (ascii ''notify_pre_releases'')))),
     safely (on cf_sunshine cf_sunshine_update
       (on su_system_tray su_system_tray_update (bool_f (ascii ''system_tray''))))]"

definition trailing_fields :: "'f config fallible list" where
  "trailing_fields =
    [safely (on cf_sunshine cf_sunshine_update (run_all sunshine_fields)),
     safely report_unrecognized,
     safely load_client_profiles]"

definition config_fields :: "'f config_env \<Rightarrow> 'f config fallible list" where
  "config_fields env =
    leading_fields env @
    [safely (on cf_solarflare cf_solarflare_update (apply_solarflare_keys (ce_float env))),
     safely (pure update_opus_tuning)] @
    trailing_fields"

definition apply_config :: "'f config_env \<Rightarrow> vars \<Rightarrow> 'f config \<Rightarrow> config_error + 'f config" where
  "apply_config env vars s =
    (case run_fallible (config_fields env) (vars, log_config_settings vars True s) of
       Inl e \<Rightarrow> Inl e
     | Inr (_, s) \<Rightarrow> Inr s)"

section \<open>The command line\<close>

text \<open>The arguments after the name of the program; \<open>Inl\<close> is the result with which the program exits.\<close>

fun parse_args :: "bytes list \<Rightarrow> vars \<times> sunshine_settings \<Rightarrow> int + vars \<times> sunshine_settings" where
  "parse_args [] st = Inr st"
| "parse_args (line # args) (cmd_vars, s) =
    (if line = ascii ''--help'' then Inl 1
     else if line \<noteq> [] \<and> hd line = 45 then
       if 2 \<le> length line \<and> line ! 1 = 45 then Inr (cmd_vars, s\<lparr>su_cmd := Some (drop 2 line, args)\<rparr>)
       else
         let (flags, ret) = apply_flags (tl line) (su_flags s) in
         if ret \<noteq> 0 then Inl (-1) else parse_args args (cmd_vars, s\<lparr>su_flags := flags\<rparr>)
     else if 61 \<notin> set line then parse_args args (cmd_vars, s\<lparr>su_config_file := line\<rparr>)
     else
       case snd (parse_option line) of
         None \<Rightarrow> Inl (-1)
       | Some (name, val) \<Rightarrow> parse_args args (AList.delete name cmd_vars @ [(name, val)], s))"

text \<open>
  The program runs on with its settings, exits with a status, or ends with an exception that nothing
  catches or an access past an end.
\<close>

datatype 'f parse_outcome = Running "'f config" | Exits int | Crashes config_error

definition merge_cmd_vars :: "vars \<Rightarrow> vars \<Rightarrow> vars" where
  "merge_cmd_vars cmd_vars vars = fold (\<lambda>(name, val). AList.update name val) cmd_vars vars"

definition parse :: "'f config_env \<Rightarrow> (bytes \<Rightarrow> bytes) \<Rightarrow> bytes list \<Rightarrow> 'f config \<Rightarrow> 'f parse_outcome" where
  "parse env read_file args s =
    (case parse_args args ([], cf_sunshine s) of
       Inl status \<Rightarrow> Exits status
     | Inr (cmd_vars, su) \<Rightarrow>
         (case apply_config env (merge_cmd_vars cmd_vars (parse_config (read_file (su_config_file su))))
             (s\<lparr>cf_sunshine := su\<rparr>) of
            Inr s \<Rightarrow> Running s
          | Inl Filesystem_error \<Rightarrow> Exits (-1)
          | Inl e \<Rightarrow> Crashes e))"

section \<open>Reading again while running\<close>

definition reload_solarflare_keys :: "'f config_env \<Rightarrow> bytes \<Rightarrow> 'f config \<Rightarrow> 'f config" where
  "reload_solarflare_keys env content s =
    update_opus_tuning (snd (on cf_solarflare cf_solarflare_update (apply_solarflare_keys (ce_float env))
      (parse_config content, s)))"

text \<open>
  The watcher: whether it runs, and the time of the last change it saw. A time is \<open>None\<close> while the file
  cannot be accessed. At the start this ends the program, as nothing catches the exception there
  (\<open>None\<close>); later it is tried again.
\<close>

record watcher =
  wa_running :: bool
  wa_last_write :: nat

definition start_config_watcher :: "nat option \<Rightarrow> watcher \<Rightarrow> watcher option" where
  "start_config_watcher write_time w =
    (if wa_running w then Some w
     else map_option (\<lambda>t. \<lparr>wa_running = True, wa_last_write = t\<rparr>) write_time)"

definition watcher_poll ::
    "'f config_env \<Rightarrow> nat option \<Rightarrow> bytes \<Rightarrow> watcher \<times> 'f config \<Rightarrow> watcher \<times> 'f config" where
  "watcher_poll env current content st =
    (if \<not> wa_running (fst st) then st
     else case current of
       None \<Rightarrow> st
     | Some t \<Rightarrow>
         if t \<noteq> wa_last_write (fst st)
         then ((fst st)\<lparr>wa_last_write := t\<rparr>, reload_solarflare_keys env content (snd st))
         else st)"

definition stop_config_watcher :: "watcher \<Rightarrow> watcher" where
  "stop_config_watcher w = w\<lparr>wa_running := False\<rparr>"

section \<open>Defaults\<close>

definition video_new :: "'f floating \<Rightarrow> 'f video_settings" where
  "video_new fl = \<lparr>vi_qp = 28, vi_hevc_mode = 0, vi_av1_mode = 0, vi_min_threads = 2,
     vi_sw = \<lparr>sw_preset = ascii ''superfast'', sw_tune = ascii ''zerolatency'', sw_svtav1_preset = Some 11\<rparr>,
     vi_nv = nvenc_config_new, vi_nv_realtime_hags = True, vi_nv_opengl_vulkan_on_dxgi = True,
     vi_nv_high_power_mode = True, vi_nv_preset = -1,
     vi_nv_legacy = \<lparr>lg_preset = 0, lg_multipass = two_pass_disabled, lg_h264_cavlc = False, lg_aq = False,
       lg_vbv_percentage_increase = 0\<rparr>,
     vi_qsv = \<lparr>qsv_preset = Some 4, qsv_cavlc = Some 0, qsv_slow_hevc = False\<rparr>,
     vi_amd = \<lparr>amd_usage_h264 = Some 1, amd_usage_hevc = Some 1, amd_usage_av1 = Some 2, amd_rc_h264 = Some 3,
       amd_rc_hevc = Some 1, amd_rc_av1 = Some 1, amd_enforce_hrd = Some 0, amd_quality_h264 = Some 0,
       amd_quality_hevc = Some 5, amd_quality_av1 = Some 70, amd_preanalysis = Some 0, amd_vbaq = Some 1,
       amd_coder = 0\<rparr>,
     vi_vt = \<lparr>vt_allow_sw = 0, vt_require_sw = 0, vt_realtime = 1, vt_coder = -1\<rparr>,
     vi_vaapi = \<lparr>va_strict_rc_buffer = False, va_rc_mode = 0, va_quality = 0, va_min_qp = 0, va_max_qp = 0,
       va_slice_count = 0, va_async_depth = 0, va_rc_buffer_frames = 0\<rparr>,
     vi_vk = \<lparr>vk_tune = 2, vk_rc_mode = 2, vk_min_qp = 0, vk_max_qp = 0\<rparr>,
     vi_capture = [], vi_encoder = [], vi_adapter_name = [], vi_output_name = [],
     vi_dd = \<lparr>dd_configuration_option = config_disabled, dd_resolution_option = resolution_automatic,
       dd_manual_resolution = [], dd_refresh_rate_option = refresh_rate_automatic, dd_manual_refresh_rate = [],
       dd_hdr_option = hdr_automatic, dd_config_revert_delay = 3000, dd_config_revert_on_disconnect = False,
       dd_mode_remapping = \<lparr>mr_mixed = [], mr_resolution_only = [], mr_refresh_rate_only = []\<rparr>,
       dd_hdr_toggle_delay = 0\<rparr>,
     vi_max_bitrate = 0, vi_minimum_fps_target = fl_int fl 0, vi_adaptive_bitrate_enabled = False,
     vi_adaptive_bitrate_min = 2000, vi_adaptive_bitrate_max = 100000,
     vi_linux_display = \<lparr>ld_headless_mode = False, ld_use_cage_compositor = False,
       ld_prefer_gpu_native_capture = False, ld_compositor_backend = ascii ''auto'', ld_headless_width = 0,
       ld_headless_height = 0, ld_headless_refresh = 0\<rparr>\<rparr>"

definition audio_new :: audio_settings where
  "audio_new = \<lparr>au_sink = [], au_virtual_sink = [], au_stream = True, au_install_steam_drivers = True\<rparr>"

definition stream_new :: "file_system \<Rightarrow> stream_settings" where
  "stream_new fs = \<lparr>st_ping_timeout = 10000, st_file_apps = appdata fs @ ascii ''/apps.json'',
     st_fec_percentage = 20, st_lan_encryption_mode = 0, st_wan_encryption_mode = 1, st_packetsize = 0\<rparr>"

definition nvhttp_new :: "bytes \<Rightarrow> nvhttp_settings" where
  "nvhttp_new host_name = \<lparr>nh_origin_web_ui_allowed = ascii ''lan'', nh_pkey = [], nh_cert = [],
     nh_sunshine_name = host_name, nh_file_state = ascii ''sunshine_state.json'', nh_external_ip = [],
     nh_trusted_subnets = [], nh_trusted_subnet_auto_pairing = False, nh_api_tokens = [], nh_webhook_urls = [],
     nh_webhook_secret = []\<rparr>"

text \<open>
  The initialiser gives six values from \<open>in_keyboard\<close> on where its comments name the fields without
  \<open>in_key_rightalt_to_key_win\<close>: the last one is left to its default.
\<close>

definition default_input :: "'f config_env \<Rightarrow> 'f input_settings" where
  "default_input env = \<lparr>in_keybindings = [0x10 \<mapsto> 0xA0, 0x11 \<mapsto> 0xA2, 0x12 \<mapsto> 0xA4],
     in_back_button_timeout = -1, in_key_repeat_delay = 500, in_key_repeat_period = ce_key_repeat_period env,
     in_gamepad = ce_default_gamepad env, in_ds4_back_as_touchpad_click = True, in_motion_as_ds4 = True,
     in_touchpad_as_ds4 = True, in_ds5_inputtino_randomize_mac = True, in_keyboard = True,
     in_key_rightalt_to_key_win = True, in_mouse = True, in_controller = True, in_always_send_scancodes = True,
     in_high_resolution_scrolling = True, in_native_pen_touch = False, in_input_seat = []\<rparr>"

definition sunshine_new :: "file_system \<Rightarrow> sunshine_settings" where
  "sunshine_new fs = \<lparr>su_locale = ascii ''en'', su_min_log_level = 2, su_flags = {}, su_credentials_file = [],
     su_username = [], su_password = [], su_salt = [],
     su_config_file = appdata fs @ ascii ''/sunshine.conf'', su_cmd = None, su_port = 47989,
     su_address_family = ascii ''ipv4'', su_bind_address = [], su_log_file = appdata fs @ ascii ''/sunshine.log'',
     su_notify_pre_releases = False, su_system_tray = True, su_prep_cmds = [], su_csrf_allowed_origins = []\<rparr>"

definition audio_fx_new :: "'f floating \<Rightarrow> 'f audio_fx_t" where
  "audio_fx_new fl = \<lparr>fx_enable_agc = False, fx_enable_vad = False, fx_enable_ducking = False,
     fx_enable_noise_gate = False, fx_noise_gate_threshold_db = fl_int fl (-55), fx_agc_target_rms_db = fl_int fl (-20),
     fx_agc_max_gain_db = fl_int fl 12, fx_agc_min_gain_db = fl_int fl (-12), fx_agc_attack_ms = fl_int fl 10,
     fx_agc_hold_ms = fl_int fl 200, fx_agc_release_ms = fl_int fl 100, fx_vad_threshold_db = fl_int fl (-45),
     fx_vad_hysteresis_db = fl_int fl 6, fx_vad_min_speech_ms = fl_int fl 100, fx_vad_min_silence_ms = fl_int fl 200,
     fx_ducker_attenuation_db = fl_int fl (-12), fx_ducker_attack_ms = fl_int fl 50,
     fx_ducker_release_ms = fl_int fl 500, fx_opus_application = 0, fx_opus_vbr = 0, fx_opus_complexity = 10,
     fx_opus_fec = True, fx_opus_expected_loss_pct = 0, fx_opus_bandwidth_extension = True\<rparr>"

definition solarflare_new :: "'f floating \<Rightarrow> 'f solarflare_t" where
  "solarflare_new fl = \<lparr>sf_busy_poll_us = 50, sf_rate_cap_pct = 80, sf_enet_4mib_buffer = True,
     sf_pipewire_latency_ms = 8, sf_cpu_pinning = True, sf_audio_fx = audio_fx_new fl, sf_dscp_qos = True,
     sf_gpu_governor = True, sf_headless_virtual_display = False, sf_skip_wayland_correlation = False,
     sf_latency_mode = ascii ''safe'', sf_idle_timeout_min = 0\<rparr>"

definition opus_tuning_new :: opus_tuning_t where
  "opus_tuning_new = \<lparr>ot_application = LOWDELAY, ot_vbr = VBR_OFF, ot_expected_packet_loss_pct = 0,
     ot_enable_fec = True, ot_complexity = 10, ot_enable_bandwidth_extension = True\<rparr>"

definition config_new :: "'f config_env \<Rightarrow> 'f config" where
  "config_new env = \<lparr>cf_video = video_new (ce_double env), cf_audio = audio_new,
     cf_stream = stream_new (ce_files env), cf_nvhttp = nvhttp_new (ce_host_name env), cf_input = default_input env,
     cf_sunshine = sunshine_new (ce_files env), cf_solarflare = solarflare_new (ce_float env),
     cf_opus_tuning = opus_tuning_new,
     cf_profiles = profiles_new \<lparr>se_max_bitrate = 0, se_hevc_mode = 0, se_av1_mode = 0, se_latency_mode = ascii ''safe''\<rparr>,
     cf_modified = Map.empty, cf_log = [], cf_unrecognized = [], cf_created = []\<rparr>"

end
