(* ===== verification/ConfigFacts.thy ===== *)
theory ConfigFacts
  imports ConfigApply
begin

text \<open>
  What \<open>apply_config\<close> and the hot reload do with the variables. \<open>leaves\<close> and \<open>keeps_fallible\<close> say what a
  statement does not touch; their rules (\<open>leaves_rules\<close>, \<open>frame_rules\<close>) follow its structure. The table of
  SolarFlare's names is the reference for \<open>apply_solarflare_keys\<close>.
\<close>

section \<open>The variables that a statement takes\<close>

text \<open>
  A statement leaves the variables with a name in \<open>K\<close> as they are. The rules follow its structure; for
  a reader only its name matters.
\<close>

definition leaves :: "bytes set \<Rightarrow> 's fallible \<Rightarrow> bool" where
  "leaves K f \<longleftrightarrow> (\<forall>vars s vars' s' k. f (vars, s) = Inr (vars', s') \<longrightarrow> k \<in> K \<longrightarrow> map_of vars' k = map_of vars k)"

named_theorems leaves_rules "a statement leaves variables as they are"

lemma leaves_reader:
  assumes "\<And>vars x. fst (read (vars, x)) = AList.delete name vars" and "name \<notin> K"
  shows "leaves K (safely read)"
  using assms unfolding leaves_def safely_def
  by (metis fst_conv map_of_delete_other sum.inject(2))

lemmas reader_names = string_f.read_value generic_f.read_value string_restricted_f.read_value int_f.read_value
  int_between_f.read_value bool_f.read_value double_f.read_value float_f.read_value float_between_f.read_value

lemma leaves_readers [leaves_rules]:
  assumes "name \<notin> K"
  shows "leaves K (safely (string_f name))" and "leaves K (safely (generic_f name f))"
    and "leaves K (safely (string_restricted_f name allowed))" and "leaves K (safely (int_f name))"
    and "leaves K (safely (int_between_f name rng))" and "leaves K (safely (bool_f name))"
    and "leaves K (safely (float_between_f fl name rng))"
  by (rule leaves_reader [OF _ assms]; simp only: reader_names fst_conv)+

lemma double_between_read:
  "double_between_f fl name rng (vars, x) = (AList.delete name vars, snd (double_between_f fl name rng (vars, x)))"
  by (cases rng) (simp add: double_f.read_value del: double_f.simps)

lemma leaves_double [leaves_rules]: "name \<notin> K \<Longrightarrow> leaves K (safely (double_between_f fl name rng))"
  by (rule leaves_reader [of _ name]) (metis double_between_read fst_conv)

lemma leaves_on [leaves_rules]: "leaves K (safely read) \<Longrightarrow> leaves K (safely (on get upd read))"
  unfolding leaves_def safely_def by (auto simp: split_beta) (metis prod.collapse)

lemma leaves_on_fallible [leaves_rules]: "leaves K read \<Longrightarrow> leaves K (on_fallible get upd read)"
  unfolding leaves_def by (fastforce split: sum.splits)

lemma leaves_pure [leaves_rules]: "leaves K (safely (pure f))"
  by (simp add: leaves_def safely_def pure_def)

lemma leaves_run_fallible [leaves_rules]: "list_all (leaves K) fs \<Longrightarrow> leaves K (run_fallible fs)"
proof (induction fs)
  case Nil
  show ?case by (simp add: leaves_def)
next
  case (Cons f fs)
  then have "leaves K f" "leaves K (run_fallible fs)" by simp_all
  then show ?case
    unfolding leaves_def
    by (auto split: sum.splits)
qed

lemma run_all_fallible: "safely (run_all fs) st = run_fallible (map safely fs) st"
  by (induction fs arbitrary: st) (simp_all add: safely_def run_all_def)

lemma leaves_run_all [leaves_rules]: "list_all (\<lambda>f. leaves K (safely f)) fs \<Longrightarrow> leaves K (safely (run_all fs))"
  using leaves_run_fallible [of K "map safely fs"]
  by (simp add: leaves_def run_all_fallible list.pred_map comp_def)

lemma run_fallible_append:
  "run_fallible (fs @ gs) st = (case run_fallible fs st of Inl e \<Rightarrow> Inl e | Inr st \<Rightarrow> run_fallible gs st)"
  by (induction fs arbitrary: st) (auto split: sum.split)

text \<open>The readers of \<open>apply_config\<close> that are not among those above.\<close>

lemma fst_let_case: "fst (case x of (a, b) \<Rightarrow> (a, f a b)) = fst x"
  by (simp add: split_beta)

lemmas reader_simps = string_f_tmp reader_names
lemmas readers_opaque = string_f.simps generic_f.simps string_restricted_f.simps int_f.simps int_between_f.simps
  bool_f.simps double_f.simps double_between_f.simps float_f.simps float_between_f.simps

lemma double_between_fst: "fst (double_between_f fl name rng (vars, x)) = AList.delete name vars"
  using double_between_read [of fl name rng vars x] by (metis fst_conv)

lemma special_names:
  "fst (amd_quality_f (vars, amd)) = AList.delete (ascii ''amd_quality'') vars"
  "fst (amd_usage_f (vars, amd)) = AList.delete (ascii ''amd_usage'') vars"
  "fst (amd_rc_coder_f (vars, amd)) = AList.delete (ascii ''amd_coder'') (AList.delete (ascii ''amd_rc'') vars)"
  "fst (revert_delay_f (vars, i)) = AList.delete (ascii ''dd_config_revert_delay'') vars"
  "fst (hdr_toggle_delay_f (vars, i)) = AList.delete (ascii ''dd_wa_hdr_toggle_delay'') vars"
  "fst (max_bitrate_f (vars, i)) = AList.delete (ascii ''max_bitrate'') vars"
  "fst (api_tokens_f (vars, t)) = AList.delete (ascii ''api_tokens'') vars"
  "fst (csrf_origins_f (vars, o')) = AList.delete (ascii ''csrf_allowed_origins'') vars"
  "fst (ping_timeout_f (vars, i)) = AList.delete (ascii ''ping_timeout'') vars"
  "fst (packetsize_f (vars, i)) = AList.delete (ascii ''packetsize'') vars"
  "fst (back_button_timeout_f (vars, i)) = AList.delete (ascii ''back_button_timeout'') vars"
  "fst (key_repeat_delay_f (vars, i)) = AList.delete (ascii ''key_repeat_delay'') vars"
  "fst (key_repeat_period_f fl (vars, p)) = AList.delete (ascii ''key_repeat_frequency'') vars"
  "fst (port_f (vars, port)) = AList.delete (ascii ''port'') vars"
  "fst (upnp_f (vars, flags)) = AList.delete (ascii ''upnp'') vars"
  "fst (log_level_f (vars, i)) = AList.delete (ascii ''min_log_level'') vars"
  "fst (flags_f (vars, flags)) = AList.delete (ascii ''flags'') vars"
  by (simp_all add: reader_simps double_between_fst Let_def split_beta delete_absent del: readers_opaque split: option.split)

lemma leaves_special [leaves_rules]:
  "ascii ''amd_quality'' \<notin> K \<Longrightarrow> leaves K (safely amd_quality_f)"
  "ascii ''amd_usage'' \<notin> K \<Longrightarrow> leaves K (safely amd_usage_f)"
  "ascii ''dd_config_revert_delay'' \<notin> K \<Longrightarrow> leaves K (safely revert_delay_f)"
  "ascii ''dd_wa_hdr_toggle_delay'' \<notin> K \<Longrightarrow> leaves K (safely hdr_toggle_delay_f)"
  "ascii ''max_bitrate'' \<notin> K \<Longrightarrow> leaves K (safely max_bitrate_f)"
  "ascii ''api_tokens'' \<notin> K \<Longrightarrow> leaves K (safely api_tokens_f)"
  "ascii ''csrf_allowed_origins'' \<notin> K \<Longrightarrow> leaves K (safely csrf_origins_f)"
  "ascii ''ping_timeout'' \<notin> K \<Longrightarrow> leaves K (safely ping_timeout_f)"
  "ascii ''packetsize'' \<notin> K \<Longrightarrow> leaves K (safely packetsize_f)"
  "ascii ''back_button_timeout'' \<notin> K \<Longrightarrow> leaves K (safely back_button_timeout_f)"
  "ascii ''key_repeat_delay'' \<notin> K \<Longrightarrow> leaves K (safely key_repeat_delay_f)"
  "ascii ''key_repeat_frequency'' \<notin> K \<Longrightarrow> leaves K (safely (key_repeat_period_f fl))"
  "ascii ''port'' \<notin> K \<Longrightarrow> leaves K (safely port_f)"
  "ascii ''upnp'' \<notin> K \<Longrightarrow> leaves K (safely upnp_f)"
  "ascii ''min_log_level'' \<notin> K \<Longrightarrow> leaves K (safely log_level_f)"
  "ascii ''flags'' \<notin> K \<Longrightarrow> leaves K (safely flags_f)"
  by (rule leaves_reader [OF special_names(1)] leaves_reader [OF special_names(2)] leaves_reader [OF special_names(4)]
      leaves_reader [OF special_names(5)] leaves_reader [OF special_names(6)] leaves_reader [OF special_names(7)]
      leaves_reader [OF special_names(8)] leaves_reader [OF special_names(9)] leaves_reader [OF special_names(10)]
      leaves_reader [OF special_names(11)] leaves_reader [OF special_names(12)] leaves_reader [OF special_names(13)]
      leaves_reader [OF special_names(14)] leaves_reader [OF special_names(15)] leaves_reader [OF special_names(16)]
      leaves_reader [OF special_names(17)], assumption)+

lemma leaves_amd_rc [leaves_rules]:
  assumes "ascii ''amd_rc'' \<notin> K" "ascii ''amd_coder'' \<notin> K"
  shows "leaves K (safely amd_rc_coder_f)"
  unfolding leaves_def safely_def
proof (intro allI impI)
  fix vars s vars' s' k
  assume r: "Inr (amd_rc_coder_f (vars, s)) = (Inr (vars', s') :: config_error + vars \<times> amd_config)" and "k \<in> K"
  then have "vars' = fst (amd_rc_coder_f (vars, s))" by (metis fst_conv sum.inject(2))
  moreover have "k \<noteq> ascii ''amd_rc''" "k \<noteq> ascii ''amd_coder''" using assms \<open>k \<in> K\<close> by blast+
  ultimately show "map_of vars' k = map_of vars k"
    unfolding special_names by (simp only: map_of_delete_other not_False_eq_True)
qed

lemma leaves_on_nat [leaves_rules]: "leaves K (safely read) \<Longrightarrow> leaves K (safely (on_nat get upd read))"
  unfolding on_nat_def by (rule leaves_on)

lemma leaves_on_low_byte [leaves_rules]: "leaves K (safely read) \<Longrightarrow> leaves K (safely (on_low_byte get upd read))"
  unfolding on_low_byte_def by (rule leaves_on)

lemma map_of_filter_key: "P k \<Longrightarrow> map_of (filter (\<lambda>var. P (fst var)) vars) k = map_of vars k"
  by (induction vars) auto

lemma map_of_delete_in: "k \<in> K \<Longrightarrow> name \<notin> K \<Longrightarrow> map_of (AList.delete name vars) k = map_of vars k"
  by (rule map_of_delete_other) blast

lemma leaves_webhooks [leaves_rules]:
  "\<forall>k \<in> K. \<not> prefix (ascii ''webhook_url_'') k \<Longrightarrow> leaves K (safely webhook_urls_f)"
  by (auto simp: leaves_def safely_def Let_def map_of_filter_key [where P = "\<lambda>n. \<not> prefix (ascii ''webhook_url_'') n"])

lemma leaves_fallible_readers [leaves_rules]:
  "ascii ''dd_mode_remapping'' \<notin> K \<Longrightarrow> leaves K (mode_remapping_f rj)"
  "name \<notin> K \<Longrightarrow> leaves K (list_prep_cmd_f pj name)"
  "name \<notin> K \<Longrightarrow> leaves K (path_f fs name)"
  "name \<notin> K \<Longrightarrow> leaves K (map_int_int_f name)"
  unfolding leaves_def
  by (auto simp: string_f_tmp Let_def map_of_delete_in simp del: string_f.simps
      split: if_splits option.splits sum.splits)

lemma leaves_on_path [leaves_rules]: "name \<notin> K \<Longrightarrow> leaves K (on_path fs name get upd)"
  unfolding on_path_def by (intro leaves_on_fallible leaves_fallible_readers)

lemma leaves_apps_file [leaves_rules]: "leaves K (provide_apps_file env)"
  by (auto simp: leaves_def provide_apps_file_def Let_def split: if_splits)

section \<open>What SolarFlare's names mean\<close>

text \<open>Reference: for every name the field it sets and the value as a function of its text.\<close>

definition solarflare_table :: "(bytes \<times> (bytes option \<Rightarrow> 'f solarflare_t \<Rightarrow> 'f solarflare_t)) list" where
  "solarflare_table =
    [(ascii ''busy_poll_us'', \<lambda>v s. sf_busy_poll_us_update (\<lambda>_. between_value (0, 10000) v (sf_busy_poll_us s)) s),
     (ascii ''rate_cap_pct'', \<lambda>v s. sf_rate_cap_pct_update (\<lambda>_. between_value (50, 95) v (sf_rate_cap_pct s)) s),
     (ascii ''enet_4mib_buffer'', \<lambda>v s. sf_enet_4mib_buffer_update (\<lambda>_. generic_value to_bool v (sf_enet_4mib_buffer s)) s),
     (ascii ''pipewire_latency_ms'', \<lambda>v s. sf_pipewire_latency_ms_update (\<lambda>_. between_value (1, 40) v (sf_pipewire_latency_ms s)) s),
     (ascii ''cpu_pinning'', \<lambda>v s. sf_cpu_pinning_update (\<lambda>_. generic_value to_bool v (sf_cpu_pinning s)) s),
     (ascii ''dscp_qos'', \<lambda>v s. sf_dscp_qos_update (\<lambda>_. generic_value to_bool v (sf_dscp_qos s)) s),
     (ascii ''gpu_governor'', \<lambda>v s. sf_gpu_governor_update (\<lambda>_. generic_value to_bool v (sf_gpu_governor s)) s),
     (ascii ''headless_virtual_display'', \<lambda>v s. sf_headless_virtual_display_update (\<lambda>_. generic_value to_bool v (sf_headless_virtual_display s)) s),
     (ascii ''skip_wayland_correlation'', \<lambda>v s. sf_skip_wayland_correlation_update (\<lambda>_. generic_value to_bool v (sf_skip_wayland_correlation s)) s),
     (ascii ''latency_mode'', \<lambda>v s. sf_latency_mode_update (\<lambda>_. restricted_value (map ascii [''safe'', ''aggressive'']) v (sf_latency_mode s)) s),
     (ascii ''idle_timeout_min'', \<lambda>v s. sf_idle_timeout_min_update (\<lambda>_. between_value (0, 600) v (sf_idle_timeout_min s)) s)]"

definition audio_fx_table :: "'f floating \<Rightarrow> (bytes \<times> (bytes option \<Rightarrow> 'f audio_fx_t \<Rightarrow> 'f audio_fx_t)) list" where
  "audio_fx_table fl =
    [(ascii ''sf_audio_agc'', \<lambda>v s. fx_enable_agc_update (\<lambda>_. generic_value to_bool v (fx_enable_agc s)) s),
     (ascii ''sf_audio_vad'', \<lambda>v s. fx_enable_vad_update (\<lambda>_. generic_value to_bool v (fx_enable_vad s)) s),
     (ascii ''sf_audio_ducking'', \<lambda>v s. fx_enable_ducking_update (\<lambda>_. generic_value to_bool v (fx_enable_ducking s)) s),
     (ascii ''sf_audio_noise_gate'', \<lambda>v s. fx_enable_noise_gate_update (\<lambda>_. generic_value to_bool v (fx_enable_noise_gate s)) s),
     (ascii ''sf_audio_noise_gate_db'', \<lambda>v s. fx_noise_gate_threshold_db_update (\<lambda>_. float_between_value fl (-90, -10) v (fx_noise_gate_threshold_db s)) s),
     (ascii ''sf_audio_agc_target_db'', \<lambda>v s. fx_agc_target_rms_db_update (\<lambda>_. float_between_value fl (-40, -6) v (fx_agc_target_rms_db s)) s),
     (ascii ''sf_audio_agc_max_gain_db'', \<lambda>v s. fx_agc_max_gain_db_update (\<lambda>_. float_between_value fl (0, 30) v (fx_agc_max_gain_db s)) s),
     (ascii ''sf_audio_agc_min_gain_db'', \<lambda>v s. fx_agc_min_gain_db_update (\<lambda>_. float_between_value fl (-30, 0) v (fx_agc_min_gain_db s)) s),
     (ascii ''sf_audio_agc_attack_ms'', \<lambda>v s. fx_agc_attack_ms_update (\<lambda>_. float_between_value fl (1, 500) v (fx_agc_attack_ms s)) s),
     (ascii ''sf_audio_agc_hold_ms'', \<lambda>v s. fx_agc_hold_ms_update (\<lambda>_. float_between_value fl (0, 5000) v (fx_agc_hold_ms s)) s),
     (ascii ''sf_audio_agc_release_ms'', \<lambda>v s. fx_agc_release_ms_update (\<lambda>_. float_between_value fl (1, 5000) v (fx_agc_release_ms s)) s),
     (ascii ''sf_audio_vad_threshold_db'', \<lambda>v s. fx_vad_threshold_db_update (\<lambda>_. float_between_value fl (-80, -10) v (fx_vad_threshold_db s)) s),
     (ascii ''sf_audio_vad_hysteresis_db'', \<lambda>v s. fx_vad_hysteresis_db_update (\<lambda>_. float_between_value fl (0, 30) v (fx_vad_hysteresis_db s)) s),
     (ascii ''sf_audio_vad_min_speech_ms'', \<lambda>v s. fx_vad_min_speech_ms_update (\<lambda>_. float_between_value fl (10, 2000) v (fx_vad_min_speech_ms s)) s),
     (ascii ''sf_audio_vad_min_silence_ms'', \<lambda>v s. fx_vad_min_silence_ms_update (\<lambda>_. float_between_value fl (10, 5000) v (fx_vad_min_silence_ms s)) s),
     (ascii ''sf_audio_ducker_attenuation_db'', \<lambda>v s. fx_ducker_attenuation_db_update (\<lambda>_. float_between_value fl (-40, 0) v (fx_ducker_attenuation_db s)) s),
     (ascii ''sf_audio_ducker_attack_ms'', \<lambda>v s. fx_ducker_attack_ms_update (\<lambda>_. float_between_value fl (1, 2000) v (fx_ducker_attack_ms s)) s),
     (ascii ''sf_audio_ducker_release_ms'', \<lambda>v s. fx_ducker_release_ms_update (\<lambda>_. float_between_value fl (1, 5000) v (fx_ducker_release_ms s)) s),
     (ascii ''sf_opus_application'', \<lambda>v s. fx_opus_application_update (\<lambda>_. between_value (0, 2) v (fx_opus_application s)) s),
     (ascii ''sf_opus_vbr'', \<lambda>v s. fx_opus_vbr_update (\<lambda>_. between_value (0, 2) v (fx_opus_vbr s)) s),
     (ascii ''sf_opus_complexity'', \<lambda>v s. fx_opus_complexity_update (\<lambda>_. between_value (0, 10) v (fx_opus_complexity s)) s),
     (ascii ''sf_opus_fec'', \<lambda>v s. fx_opus_fec_update (\<lambda>_. generic_value to_bool v (fx_opus_fec s)) s),
     (ascii ''sf_opus_expected_loss_pct'', \<lambda>v s. fx_opus_expected_loss_pct_update (\<lambda>_. between_value (0, 100) v (fx_opus_expected_loss_pct s)) s),
     (ascii ''sf_opus_bandwidth_extension'', \<lambda>v s. fx_opus_bandwidth_extension_update (\<lambda>_. generic_value to_bool v (fx_opus_bandwidth_extension s)) s)]"

definition values_of :: "(bytes \<times> (bytes option \<Rightarrow> 's \<Rightarrow> 's)) list \<Rightarrow> (bytes \<rightharpoonup> bytes) \<Rightarrow> 's \<Rightarrow> 's" where
  "values_of table m s = fold (\<lambda>(k, g). g (m k)) table s"

definition solarflare_values :: "'f floating \<Rightarrow> (bytes \<rightharpoonup> bytes) \<Rightarrow> 'f solarflare_t \<Rightarrow> 'f solarflare_t" where
  "solarflare_values fl m s =
    sf_audio_fx_update (values_of (audio_fx_table fl) m) (values_of solarflare_table m s)"

definition sf_names :: "string list" where
  "sf_names =
    [''busy_poll_us'', ''rate_cap_pct'', ''enet_4mib_buffer'', ''pipewire_latency_ms'',
     ''cpu_pinning'', ''dscp_qos'', ''gpu_governor'', ''headless_virtual_display'',
     ''skip_wayland_correlation'', ''latency_mode'', ''idle_timeout_min'', ''sf_audio_agc'',
     ''sf_audio_vad'', ''sf_audio_ducking'', ''sf_audio_noise_gate'', ''sf_audio_noise_gate_db'',
     ''sf_audio_agc_target_db'', ''sf_audio_agc_max_gain_db'', ''sf_audio_agc_min_gain_db'',
     ''sf_audio_agc_attack_ms'', ''sf_audio_agc_hold_ms'', ''sf_audio_agc_release_ms'',
     ''sf_audio_vad_threshold_db'', ''sf_audio_vad_hysteresis_db'', ''sf_audio_vad_min_speech_ms'',
     ''sf_audio_vad_min_silence_ms'', ''sf_audio_ducker_attenuation_db'',
     ''sf_audio_ducker_attack_ms'', ''sf_audio_ducker_release_ms'', ''sf_opus_application'',
     ''sf_opus_vbr'', ''sf_opus_complexity'', ''sf_opus_fec'', ''sf_opus_expected_loss_pct'',
     ''sf_opus_bandwidth_extension'']"

definition sf_keys :: "bytes set" where
  "sf_keys = ascii ` set sf_names"

lemma ascii_sf_keys: "ascii name \<in> sf_keys \<longleftrightarrow> name \<in> set sf_names"
  by (auto simp: sf_keys_def ascii_inj)

lemma table_names: "map fst solarflare_table @ map fst (audio_fx_table fl) = map ascii sf_names"
  by (simp add: solarflare_table_def audio_fx_table_def sf_names_def)

lemma solarflare_fields_table: "solarflare_fields = map (\<lambda>(k, g). keyed k g) solarflare_table"
  unfolding solarflare_fields_def solarflare_table_def on_keyed by simp

lemma audio_fx_fields_table: "audio_fx_fields fl = map (\<lambda>(k, g). keyed k g) (audio_fx_table fl)"
  unfolding audio_fx_fields_def audio_fx_table_def on_keyed by simp

lemma distinct_sf_names: "distinct sf_names"
  by (simp add: sf_names_def)

lemma distinct_ascii: "distinct (map ascii names) \<longleftrightarrow> distinct names"
  by (simp add: distinct_map inj_on_def ascii_inj)

lemma distinct_tables:
  "distinct (map fst (solarflare_table :: (bytes \<times> (bytes option \<Rightarrow> 'f solarflare_t \<Rightarrow> 'f solarflare_t)) list) @
     map fst (audio_fx_table (fl :: 'f floating)))"
  unfolding table_names distinct_ascii by (rule distinct_sf_names)

lemma values_of_cong:
  "(\<And>k. k \<in> set (map fst table) \<Longrightarrow> m k = m' k) \<Longrightarrow> values_of table m s = values_of table m' s"
  unfolding values_of_def by (intro fold_cong) (auto simp: rev_image_eqI)

lemma map_of_fold_delete: "k \<notin> set ks \<Longrightarrow> map_of (fold AList.delete ks vars) k = map_of vars k"
proof (induction ks arbitrary: vars)
  case (Cons l ks)
  then show ?case by (simp add: delete_conv')
qed simp

lemma apply_solarflare_values:
  "snd (apply_solarflare_keys fl (vars, s)) = solarflare_values fl (map_of vars) s"
proof -
  define t1 :: "(bytes \<times> (bytes option \<Rightarrow> 'a solarflare_t \<Rightarrow> 'a solarflare_t)) list" where "t1 = solarflare_table"
  define t2 where "t2 = audio_fx_table fl"
  have d: "distinct (map fst t1)" "distinct (map fst t2)" "set (map fst t1) \<inter> set (map fst t2) = {}"
    using distinct_tables [of fl] unfolding t1_def t2_def distinct_append by blast+
  have "values_of t2 (map_of (fold AList.delete (map fst t1) vars)) x = values_of t2 (map_of vars) x" for x
    using d(3) by (intro values_of_cong map_of_fold_delete) blast
  then show ?thesis
    using run_keyed [OF d(1)] run_keyed [OF d(2)]
    unfolding apply_solarflare_keys_def run_all_def fold_append solarflare_fields_table audio_fx_fields_table
      solarflare_values_def t1_def [symmetric] t2_def [symmetric]
    by (simp add: values_of_def run_all_def split_beta comp_def)
qed

lemma solarflare_values_cong:
  assumes "\<And>k. k \<in> sf_keys \<Longrightarrow> m k = m' k"
  shows "solarflare_values fl m s = solarflare_values fl m' s"
proof -
  have "set (map fst (solarflare_table :: (bytes \<times> (bytes option \<Rightarrow> 'a solarflare_t \<Rightarrow> 'a solarflare_t)) list)) \<union>
      set (map fst (audio_fx_table fl)) = sf_keys"
    using arg_cong [OF table_names [of fl], of set] unfolding set_append by (simp add: sf_keys_def)
  then have "values_of solarflare_table m s = values_of solarflare_table m' s"
    and "values_of (audio_fx_table fl) m = values_of (audio_fx_table fl) m'"
    using assms by (intro values_of_cong ext, blast)+
  then show ?thesis by (simp add: solarflare_values_def)
qed

lemma values_stable:
  "values_of solarflare_table m (values_of solarflare_table m s) = values_of solarflare_table m s"
  by (simp add: values_of_def solarflare_table_def bool_f.stable int_between_f.stable string_restricted_f.stable)

lemma fx_values_stable:
  "values_of (audio_fx_table fl) m (values_of (audio_fx_table fl) m s) = values_of (audio_fx_table fl) m s"
  by (simp add: values_of_def audio_fx_table_def bool_f.stable int_between_f.stable float_between_f.stable)

lemma sf_values_audio_fx: "sf_audio_fx (values_of solarflare_table m s) = sf_audio_fx s"
  by (simp add: values_of_def solarflare_table_def)

lemma values_audio_fx_update:
  "values_of solarflare_table m (sf_audio_fx_update f s) = sf_audio_fx_update f (values_of solarflare_table m s)"
  by (simp add: values_of_def solarflare_table_def)

lemma solarflare_values_stable: "solarflare_values fl m (solarflare_values fl m s) = solarflare_values fl m s"
  by (simp add: solarflare_values_def values_audio_fx_update values_stable comp_def fx_values_stable)

lemmas field_lists = nvenc_fields_def nvenc_tuning_fields_def qsv_fields_def amd_flag_fields_def vt_fields_def
  vaapi_fields_def vk_fields_def device_fields_def dd_fields_def bitrate_fields_def linux_display_fields_def
  audio_fields_def nvhttp_fields_def stream_fields_def input_fields_def sunshine_fields_def

lemma leaves_map_safely: "list_all (leaves K) (map safely fs) \<longleftrightarrow> list_all (\<lambda>f. leaves K (safely f)) fs"
  by (simp add: list.pred_map comp_def)

lemma leaves_encoder_fields: "list_all (\<lambda>f. leaves sf_keys (safely f)) encoder_fields"
  by (simp add: encoder_fields_def field_lists leaves_rules ascii_sf_keys sf_names_def)

lemma leaves_video_fields: "list_all (leaves sf_keys) (video_fields fl rj)"
  using leaves_encoder_fields
  by (simp add: video_fields_def leaves_map_safely field_lists leaves_rules ascii_sf_keys sf_names_def)

lemma sf_keys_no_webhook: "\<forall>k \<in> sf_keys. \<not> prefix (ascii ''webhook_url_'') k"
proof
  fix k
  assume "k \<in> sf_keys"
  then obtain name where k: "k = ascii name" "name \<in> set sf_names" by (auto simp: sf_keys_def)
  have "list_all (\<lambda>name. \<not> prefix ''webhook_url_'' name) sf_names" by (simp add: sf_names_def)
  moreover have "prefix (ascii p) (ascii name) \<Longrightarrow> prefix p name" for p
    by (auto simp: prefix_def ascii_def map_eq_append_conv) (metis ascii_def ascii_inj)
  ultimately show "\<not> prefix (ascii ''webhook_url_'') k" using k by (auto simp: list_all_iff)
qed

lemma leaves_leading: "list_all (leaves sf_keys) (leading_fields env)"
proof -
  have v: "list_all (leaves sf_keys) (map (on_fallible cf_video cf_video_update) (video_fields fl rj))" for fl :: "'a floating" and rj
    using leaves_video_fields [of fl rj] unfolding list_all_iff set_map by (blast intro: leaves_on_fallible)
  show ?thesis
    using sf_keys_no_webhook
    by (simp add: leading_fields_def v path_fields_def field_lists leaves_rules ascii_sf_keys sf_names_def)
qed

section \<open>What a statement does not change\<close>

named_theorems frame_rules "a statement that writes one field keeps what does not depend on it"

lemma frame_on [frame_rules]:
  "\<forall>s x. P s \<longrightarrow> P (upd (\<lambda>_. x) s) \<Longrightarrow> keeps_fallible P (safely (on get upd read))"
  by (auto simp: keeps_fallible_def safely_def split_beta)

lemma frame_on_on [frame_rules]:
  "\<forall>s x. P s \<longrightarrow> P (upd (\<lambda>_. upd2 (\<lambda>_. x) (get s)) s) \<Longrightarrow>
   keeps_fallible P (safely (on get upd (on get2 upd2 read)))"
  by (auto simp: keeps_fallible_def safely_def split_beta)

lemma frame_on_fallible [frame_rules]:
  "\<forall>s x. P s \<longrightarrow> P (upd (\<lambda>_. x) s) \<Longrightarrow> keeps_fallible P (on_fallible get upd read)"
  by (rule keeps_on_fallible) blast

lemma frame_on_on_fallible [frame_rules]:
  "\<forall>s x. P s \<longrightarrow> P (upd (\<lambda>_. upd2 (\<lambda>_. x) (get s)) s) \<Longrightarrow>
   keeps_fallible P (on_fallible get upd (on_fallible get2 upd2 read))"
  by (auto simp: keeps_fallible_def split: sum.splits)

lemma frame_pure [frame_rules]: "\<forall>s. P s \<longrightarrow> P (f s) \<Longrightarrow> keeps_fallible P (safely (pure f))"
  by (simp add: keeps_fallible_def safely_def pure_def)

lemma frame_path [frame_rules]:
  "\<forall>s x c. P s \<longrightarrow> P ((upd (\<lambda>_. x) s)\<lparr>cf_created := c\<rparr>) \<Longrightarrow> keeps_fallible P (on_path fs name get upd)"
  unfolding on_path_def by (rule keeps_on_fallible) (simp add: split_beta)

lemma frame_apps_file [frame_rules]: "keeps_fallible P (provide_apps_file env)"
  by (auto simp: keeps_fallible_def provide_apps_file_def Let_def split: if_splits)

lemma frame_map [frame_rules]:
  "\<forall>s x. P s \<longrightarrow> P (upd (\<lambda>_. x) s) \<Longrightarrow> list_all (keeps_fallible P) (map (on_fallible get upd) fs)"
  by (simp add: list_all_iff frame_on_fallible)

lemma frame_report [frame_rules]:
  "\<forall>s x. P s \<longrightarrow> P (s\<lparr>cf_unrecognized := x\<rparr>) \<Longrightarrow> keeps_fallible P (safely report_unrecognized)"
  by (auto simp: keeps_fallible_def safely_def report_unrecognized_def Let_def split: if_splits)

lemma frame_profiles [frame_rules]:
  "\<forall>s x. P s \<longrightarrow> P (s\<lparr>cf_profiles := x\<rparr>) \<Longrightarrow> keeps_fallible P (safely load_client_profiles)"
  by (auto simp: keeps_fallible_def safely_def load_client_profiles_def)

lemma run_keeps:
  "list_all (keeps_fallible P) fs \<Longrightarrow> run_fallible fs (vars, s) = Inr (vars', s') \<Longrightarrow> P s \<Longrightarrow> P s'"
  using keeps_run_fallible [of P fs] unfolding keeps_fallible_def by blast

lemma run_leaves:
  "list_all (leaves K) fs \<Longrightarrow> run_fallible fs (vars, s) = Inr (vars', s') \<Longrightarrow> k \<in> K \<Longrightarrow> map_of vars' k = map_of vars k"
  using leaves_run_fallible [of K fs] unfolding leaves_def by blast

lemma leading_keeps_solarflare: "list_all (keeps_fallible (\<lambda>s. cf_solarflare s = c)) (leading_fields env)"
  by (simp add: leading_fields_def path_fields_def frame_rules)

lemma trailing_keeps:
  "list_all (keeps_fallible (\<lambda>s. cf_solarflare s = c \<and> cf_opus_tuning s = t \<and> cf_video s = v)) trailing_fields"
  by (simp add: trailing_fields_def frame_rules)

text \<open>A configuration that is applied, cut at the statements for SolarFlare.\<close>

lemma apply_config_cut:
  assumes "apply_config env vars s = Inr s'"
  obtains vars1 s1 vars2 vars3 where
    "run_fallible (leading_fields env) (vars, log_config_settings vars True s) = Inr (vars1, s1)"
    "vars2 = fst (apply_solarflare_keys (ce_float env) (vars1, cf_solarflare s1))"
    "run_fallible trailing_fields (vars2, update_opus_tuning
       (s1\<lparr>cf_solarflare := solarflare_values (ce_float env) (map_of vars1) (cf_solarflare s1)\<rparr>)) = Inr (vars3, s')"
proof -
  from assms obtain vars3 where
    "run_fallible (config_fields env) (vars, log_config_settings vars True s) = Inr (vars3, s')"
    by (auto simp: apply_config_def split: sum.splits)
  then obtain st1 where lead: "run_fallible (leading_fields env) (vars, log_config_settings vars True s) = Inr st1"
    and rest: "run_fallible ([safely (on cf_solarflare cf_solarflare_update (apply_solarflare_keys (ce_float env))),
      safely (pure update_opus_tuning)] @ trailing_fields) st1 = Inr (vars3, s')"
    unfolding config_fields_def run_fallible_append by (auto split: sum.splits)
  obtain vars1 s1 where st1: "st1 = (vars1, s1)" by fastforce
  have "run_fallible trailing_fields (fst (apply_solarflare_keys (ce_float env) (vars1, cf_solarflare s1)),
      update_opus_tuning (s1\<lparr>cf_solarflare := solarflare_values (ce_float env) (map_of vars1) (cf_solarflare s1)\<rparr>)) =
      Inr (vars3, s')"
    using rest unfolding st1 by (simp add: safely_def pure_def split_beta apply_solarflare_values)
  with lead show thesis unfolding st1 by (intro that [OF _ refl])
qed

lemma log_solarflare: "cf_solarflare (log_config_settings vars save s) = cf_solarflare s"
  by (simp add: log_config_settings_def)

lemma config_solarflare:
  assumes "apply_config env vars s = Inr s'"
  shows "cf_solarflare s' = solarflare_values (ce_float env) (map_of vars) (cf_solarflare s)"
    and "cf_opus_tuning s' = apply_opus_tuning_runtime (sf_audio_fx (cf_solarflare s'))"
proof -
  obtain vars1 s1 vars2 vars3 where
    lead: "run_fallible (leading_fields env) (vars, log_config_settings vars True s) = Inr (vars1, s1)" and
    trail: "run_fallible trailing_fields (vars2, update_opus_tuning
       (s1\<lparr>cf_solarflare := solarflare_values (ce_float env) (map_of vars1) (cf_solarflare s1)\<rparr>)) = Inr (vars3, s')"
    using assms by (rule apply_config_cut)
  have s1: "cf_solarflare s1 = cf_solarflare s"
    by (rule run_keeps [OF leading_keeps_solarflare lead]) (rule log_solarflare)
  have m: "solarflare_values (ce_float env) (map_of vars1) x = solarflare_values (ce_float env) (map_of vars) x" for x
    by (rule solarflare_values_cong) (rule run_leaves [OF leaves_leading lead])
  define c where "c = solarflare_values (ce_float env) (map_of vars) (cf_solarflare s)"
  have start: "cf_solarflare (update_opus_tuning (s1\<lparr>cf_solarflare := c\<rparr>)) = c \<and>
      cf_opus_tuning (update_opus_tuning (s1\<lparr>cf_solarflare := c\<rparr>)) = apply_opus_tuning_runtime (sf_audio_fx c) \<and>
      cf_video (update_opus_tuning (s1\<lparr>cf_solarflare := c\<rparr>)) = cf_video s1"
    by (simp add: update_opus_tuning_def)
  have "cf_solarflare s' = c \<and> cf_opus_tuning s' = apply_opus_tuning_runtime (sf_audio_fx c) \<and> cf_video s' = cf_video s1"
    by (rule run_keeps [OF trailing_keeps trail [unfolded m s1, folded c_def] start])
  then show "cf_solarflare s' = solarflare_values (ce_float env) (map_of vars) (cf_solarflare s)"
    and "cf_opus_tuning s' = apply_opus_tuning_runtime (sf_audio_fx (cf_solarflare s'))"
    by (simp_all add: c_def)
qed

section \<open>Variables only disappear\<close>

definition shrinks :: "'s fallible \<Rightarrow> bool" where
  "shrinks f \<longleftrightarrow> (\<forall>vars s vars' s' k.
     f (vars, s) = Inr (vars', s') \<longrightarrow> map_of vars k = None \<longrightarrow> map_of vars' k = None)"

named_theorems shrinks_rules "a statement adds no variable"

lemma delete_None: "map_of vars k = None \<Longrightarrow> map_of (AList.delete name vars) k = None"
  by (simp add: delete_conv')

lemma shrinks_reader:
  assumes "\<And>vars x. fst (read (vars, x)) = AList.delete name vars"
  shows "shrinks (safely read)"
  using assms unfolding shrinks_def safely_def by (metis delete_None fst_conv sum.inject(2))

lemma shrinks_readers [shrinks_rules]:
  "shrinks (safely (string_f name))" "shrinks (safely (generic_f name f))"
  "shrinks (safely (string_restricted_f name allowed))" "shrinks (safely (int_f name))"
  "shrinks (safely (int_between_f name rng))" "shrinks (safely (bool_f name))"
  "shrinks (safely (double_between_f fl name drng))" "shrinks (safely (float_between_f fl name rng))"
  by (rule shrinks_reader; simp only: reader_names double_between_fst fst_conv)+

lemmas shrinks_special [shrinks_rules] = special_names(1,2,4-17) [THEN shrinks_reader]

lemma shrinks_amd_rc [shrinks_rules]: "shrinks (safely amd_rc_coder_f)"
  unfolding shrinks_def safely_def
proof (intro allI impI)
  fix vars s vars' s' k
  assume r: "Inr (amd_rc_coder_f (vars, s)) = (Inr (vars', s') :: config_error + vars \<times> amd_config)"
    and k: "map_of vars k = None"
  then have "vars' = fst (amd_rc_coder_f (vars, s))" by (metis fst_conv sum.inject(2))
  then show "map_of vars' k = None" unfolding special_names using k by (simp only: delete_None)
qed

lemma shrinks_on [shrinks_rules]: "shrinks (safely read) \<Longrightarrow> shrinks (safely (on get upd read))"
  unfolding shrinks_def safely_def by (auto simp: split_beta) (metis prod.collapse)

lemma shrinks_on_fallible [shrinks_rules]: "shrinks read \<Longrightarrow> shrinks (on_fallible get upd read)"
  unfolding shrinks_def by (fastforce split: sum.splits)

lemma shrinks_pure [shrinks_rules]: "shrinks (safely (pure f))"
  by (simp add: shrinks_def safely_def pure_def)

lemma shrinks_run_fallible [shrinks_rules]: "list_all shrinks fs \<Longrightarrow> shrinks (run_fallible fs)"
proof (induction fs)
  case Nil
  show ?case by (simp add: shrinks_def)
next
  case (Cons f fs)
  then have "shrinks f" "shrinks (run_fallible fs)" by simp_all
  then show ?case unfolding shrinks_def by (auto split: sum.splits) blast
qed

lemma shrinks_run_all [shrinks_rules]: "list_all (\<lambda>f. shrinks (safely f)) fs \<Longrightarrow> shrinks (safely (run_all fs))"
  using shrinks_run_fallible [of "map safely fs"]
  by (simp add: shrinks_def run_all_fallible list.pred_map comp_def)

lemma shrinks_nested [shrinks_rules]:
  "shrinks (safely read1) \<Longrightarrow> shrinks (safely (on_nat get1 upd1 read1))"
  "shrinks (safely read2) \<Longrightarrow> shrinks (safely (on_low_byte get2 upd2 read2))"
  by (simp_all only: on_nat_def on_low_byte_def shrinks_on)

lemma filter_None: "map_of vars k = None \<Longrightarrow> map_of (filter P vars) k = None"
  by (auto simp: map_of_eq_None_iff)

lemma fold_delete_None: "map_of vars k = None \<Longrightarrow> map_of (fold AList.delete ks vars) k = None"
  by (induction ks arbitrary: vars) (simp_all add: delete_None)

lemma shrinks_others [shrinks_rules]:
  "shrinks (safely webhook_urls_f)" "shrinks (mode_remapping_f rj)" "shrinks (list_prep_cmd_f pj name)"
  "shrinks (path_f fs name)" "shrinks (map_int_int_f name)" "shrinks (provide_apps_file env)"
  "shrinks (safely report_unrecognized)" "shrinks (safely load_client_profiles)"
  unfolding shrinks_def safely_def provide_apps_file_def report_unrecognized_def load_client_profiles_def
  by (auto simp: string_f_tmp Let_def delete_None filter_None fold_delete_None simp del: string_f.simps
      split: if_splits option.splits sum.splits)

lemma shrinks_on_path [shrinks_rules]: "shrinks (on_path fs name get upd)"
  unfolding on_path_def by (intro shrinks_on_fallible shrinks_others)

lemma shrinks_video_fields: "list_all shrinks (video_fields fl rj)"
proof -
  have "list_all (\<lambda>f. shrinks (safely f)) encoder_fields"
    by (simp add: encoder_fields_def field_lists shrinks_rules)
  then show ?thesis by (simp add: video_fields_def field_lists shrinks_rules list.pred_map comp_def)
qed

lemma shrinks_solarflare: "shrinks (safely (apply_solarflare_keys fl))"
  by (simp add: apply_solarflare_keys_def solarflare_fields_def audio_fx_fields_def shrinks_rules)

lemma shrinks_config_fields: "list_all shrinks (config_fields env)"
proof -
  have "list_all shrinks (map (on_fallible cf_video cf_video_update) (video_fields fl rj))" for fl :: "'a floating" and rj
    using shrinks_video_fields [of fl rj] unfolding list_all_iff set_map by (blast intro: shrinks_on_fallible)
  then show ?thesis
    by (simp add: config_fields_def leading_fields_def trailing_fields_def path_fields_def field_lists
        shrinks_rules shrinks_solarflare)
qed

section \<open>A configuration that applies\<close>

definition absent :: "bytes set \<Rightarrow> vars \<Rightarrow> bool" where
  "absent K vars \<longleftrightarrow> (\<forall>k \<in> K. map_of vars k = None)"

definition returns :: "bytes set \<Rightarrow> 's fallible \<Rightarrow> bool" where
  "returns K f \<longleftrightarrow> (\<forall>vars s. absent K vars \<longrightarrow> (\<exists>st. f (vars, s) = Inr st))"

lemma returns_safely: "returns K (safely f)"
  by (simp add: returns_def safely_def)

lemma returns_on_fallible: "returns K read \<Longrightarrow> returns K (on_fallible get upd read)"
  unfolding returns_def
proof (intro allI impI)
  fix vars s
  assume "\<forall>vars s. absent K vars \<longrightarrow> (\<exists>st. read (vars, s) = Inr st)" and "absent K vars"
  then obtain st where "read (vars, get s) = Inr st" by blast
  then show "\<exists>st. on_fallible get upd read (vars, s) = Inr st" by (simp add: split_beta)
qed

lemma returns_run_fallible:
  "list_all shrinks fs \<Longrightarrow> list_all (returns K) fs \<Longrightarrow> absent K vars \<Longrightarrow> \<exists>st. run_fallible fs (vars, s) = Inr st"
proof (induction fs arbitrary: vars s)
  case (Cons f fs)
  then have "returns K f" by simp
  with Cons.prems(3) obtain vars' s' where f: "f (vars, s) = Inr (vars', s')"
    unfolding returns_def by (metis prod.collapse)
  have "shrinks f" using Cons.prems(1) by simp
  then have "absent K vars'" using f Cons.prems(3) unfolding absent_def shrinks_def by blast
  with Cons f show ?case by simp
qed simp

text \<open>The options that make a start fail when they are malformed.\<close>

definition delicate :: "bytes set" where
  "delicate = {ascii ''dd_mode_remapping'', ascii ''global_prep_cmd'', ascii ''keybindings''}"

definition files_ready :: "'f config_env \<Rightarrow> bool" where
  "files_ready env \<longleftrightarrow>
    (\<forall>dir. \<not> dir_exists (ce_files env) dir \<longrightarrow> dir_creatable (ce_files env) dir) \<and>
    (\<forall>file. \<not> ce_apps_exists env file \<longrightarrow> ce_apps_copied env file)"

lemma returns_readers:
  "returns delicate (mode_remapping_f rj)"
  "returns delicate (list_prep_cmd_f pj (ascii ''global_prep_cmd''))"
  "returns delicate (map_int_int_f (ascii ''keybindings''))"
  by (auto simp: returns_def absent_def delicate_def)

lemma returns_path: "files_ready env \<Longrightarrow> returns K (on_path (ce_files env) name get upd)"
  unfolding on_path_def files_ready_def
  by (rule returns_on_fallible) (auto simp: returns_def Let_def split_beta)

lemma returns_apps: "files_ready env \<Longrightarrow> returns K (provide_apps_file env)"
  by (auto simp: files_ready_def returns_def provide_apps_file_def Let_def)

lemma returns_config_fields:
  assumes "files_ready env"
  shows "list_all (returns delicate) (config_fields env)"
proof -
  have "list_all (returns delicate) (map (on_fallible cf_video cf_video_update) (video_fields fl rj))"
    for fl :: "'a floating" and rj
    by (simp add: list_all_iff video_fields_def returns_on_fallible returns_safely returns_readers ball_Un)
  with assms show ?thesis
    by (simp add: config_fields_def leading_fields_def trailing_fields_def path_fields_def returns_safely
        returns_path returns_apps returns_on_fallible returns_readers)
qed

lemma applies:
  assumes "files_ready env" and "absent delicate vars"
  shows "\<exists>s'. apply_config env vars s = Inr s'"
  using returns_run_fallible [OF shrinks_config_fields returns_config_fields [OF assms(1)] assms(2)]
  by (metis apply_config_def prod.collapse sum.simps(6) case_prod_conv)

end
