(* ===== verification/ConfigProps.thy ===== *)
theory ConfigProps
  imports ConfigFacts
begin

text \<open>
  Theorems on starting, reading again and the settings that can result from a configuration file
  (\<^verbatim>\<open>src/config.cpp\<close>), among them the cases in which an option does not do what it says.
\<close>

section \<open>Starting and reading again\<close>

text \<open>An environment for examples: every directory exists, floating point numbers are whole.\<close>

definition demo_floating :: "int floating" where
  "demo_floating = \<lparr>fl_read = parse_config_int, fl_le = (\<le>), fl_int = id, fl_max = 2 ^ 31 - 1, fl_inverse = id\<rparr>"

definition demo_config_env :: "int config_env" where
  "demo_config_env = \<lparr>ce_double = demo_floating, ce_float = demo_floating,
     ce_files = \<lparr>appdata = ascii ''/d'', dir_exists = (\<lambda>_. True), dir_creatable = (\<lambda>_. True)\<rparr>,
     ce_prep_json = (\<lambda>_. None), ce_mode_json = (\<lambda>_. None), ce_gamepads = [ascii ''auto''],
     ce_apps_exists = (\<lambda>_. True), ce_apps_copied = (\<lambda>_. False), ce_default_gamepad = ascii ''auto'',
     ce_host_name = ascii ''host'', ce_key_repeat_period = 0\<rparr>"

lemma demo_ready: "files_ready demo_config_env"
  by (simp add: files_ready_def demo_config_env_def)

lemma parse_config_Nil [simp]: "parse_config [] = []"
  by (simp add: parse_config_def config_entries.simps)

lemma parse_Running:
  "parse env read_file args s = Running s' \<longleftrightarrow>
    (\<exists>cmd_vars su. parse_args args ([], cf_sunshine s) = Inr (cmd_vars, su) \<and>
      apply_config env (merge_cmd_vars cmd_vars (parse_config (read_file (su_config_file su))))
        (s\<lparr>cf_sunshine := su\<rparr>) = Inr s')"
  by (auto simp: parse_def split: sum.splits config_error.splits)

lemma parse_no_args:
  "parse env read_file [] s = Running s' \<longleftrightarrow>
    apply_config env (parse_config (read_file (su_config_file (cf_sunshine s)))) s = Inr s'"
  by (simp add: parse_Running merge_cmd_vars_def)

lemma reload_values:
  "reload_solarflare_keys env content s = update_opus_tuning
     (s\<lparr>cf_solarflare := solarflare_values (ce_float env) (map_of (parse_config content)) (cf_solarflare s)\<rparr>)"
  by (simp add: reload_solarflare_keys_def split_beta apply_solarflare_values)

text \<open>C36: A start without options on the command line runs, whatever the file says, when the directories
  it names can be made, the applications file is there or can be copied, and none of the three options that
  are read as JSON or as a list of numbers is set.\<close>

theorem start_up_returns:
  assumes "files_ready env"
    and "absent delicate (parse_config (read_file (su_config_file (cf_sunshine s))))"
  shows "\<exists>s'. parse env read_file [] s = Running s'"
  unfolding parse_no_args using assms by (rule applies)

lemma start_up_returns_witness:
  "\<exists>s'. parse demo_config_env (\<lambda>_. []) [] (config_new demo_config_env) = Running s'"
  by (rule start_up_returns [OF demo_ready]) (simp add: absent_def)



subsection \<open>The command line\<close>

lemma map_of_append_new: "map_of (AList.delete k vars @ [(k, v)]) = (map_of vars)(k \<mapsto> v)"
  by (auto simp: fun_eq_iff map_of_append map_add_def delete_conv' split: option.split)

lemma parse_args_distinct:
  "parse_args args (cmd_vars, su) = Inr (cmd_vars', su') \<Longrightarrow> distinct (map fst cmd_vars) \<Longrightarrow>
   distinct (map fst cmd_vars')"
proof (induction args arbitrary: cmd_vars su)
  case (Cons line args)
  have d: "distinct (map fst (AList.delete n cmd_vars @ [(n, v)]))" for n v
    using Cons.prems(2) by (auto simp: delete_keys distinct_removeAll)
  show ?case
    using Cons.prems(1) Cons.IH [OF _ d] Cons.IH [OF _ Cons.prems(2)] Cons.prems(2)
    by (auto simp: Let_def split: if_splits prod.splits option.splits)
qed simp

lemma map_of_merge:
  "distinct (map fst cmd_vars) \<Longrightarrow> map_of (merge_cmd_vars cmd_vars vars) = map_of vars ++ map_of cmd_vars"
proof (induction cmd_vars arbitrary: vars)
  case (Cons cv cmd_vars)
  obtain n v where cv: "cv = (n, v)" by fastforce
  have "map_of cmd_vars n = None" using Cons.prems cv by (simp add: map_of_eq_None_iff)
  then show ?case using Cons cv
    by (auto simp: merge_cmd_vars_def update_conv' fun_eq_iff map_add_def split: option.split)
qed (simp add: merge_cmd_vars_def)

lemma solarflare_rate:
  "sf_rate_cap_pct (solarflare_values fl m s) = between_value (50, 95) (m (ascii ''rate_cap_pct'')) (sf_rate_cap_pct s)"
  by (simp add: solarflare_values_def values_of_def solarflare_table_def)



lemma rate_60: "parse_option (option_line (ascii ''rate_cap_pct'') (ascii ''60'')) = ([], Some (ascii ''rate_cap_pct'', ascii ''60''))"
  and rate_70: "map_of (parse_config (config_text [(ascii ''rate_cap_pct'', ascii ''70'')])) (ascii ''rate_cap_pct'') = Some (ascii ''70'')"
  and rate_ints: "parse_config_int (unquote (ascii ''60'')) = Some 60" "parse_config_int (unquote (ascii ''70'')) = Some 70"
proof -
  have plain: "plain_name (ascii ''rate_cap_pct'')" "plain_value (ascii ''60'')" "plain_value (ascii ''70'')"
    by code_simp+
  from parse_option_line [OF this(1,2), of "[]" "[]" "[]"]
  show "parse_option (option_line (ascii ''rate_cap_pct'') (ascii ''60'')) = ([], Some (ascii ''rate_cap_pct'', ascii ''60''))"
    by simp
  show "map_of (parse_config (config_text [(ascii ''rate_cap_pct'', ascii ''70'')])) (ascii ''rate_cap_pct'') = Some (ascii ''70'')"
    using plain by (simp add: parse_config_def config_entries_text emplace_var_def)
  show "parse_config_int (unquote (ascii ''60'')) = Some 60" "parse_config_int (unquote (ascii ''70'')) = Some 70"
    by code_simp+
qed


section \<open>The settings stay in their ranges\<close>

definition nv_ok :: "nvenc_config \<Rightarrow> bool" where
  "nv_ok nv \<longleftrightarrow> 1 \<le> nv_quality_preset nv \<and> nv_quality_preset nv \<le> 7 \<and>
     0 \<le> nv_vbv_percentage_increase nv \<and> nv_vbv_percentage_increase nv \<le> 400 \<and>
     1 \<le> nv_min_qp_h264 nv \<and> nv_min_qp_h264 nv \<le> 51 \<and> 1 \<le> nv_min_qp_hevc nv \<and> nv_min_qp_hevc nv \<le> 51 \<and>
     1 \<le> nv_min_qp_av1 nv \<and> nv_min_qp_av1 nv \<le> 255 \<and>
     0 \<le> nv_rc_lookahead nv \<and> nv_rc_lookahead nv \<le> 40 \<and>
     0 \<le> nv_bframes nv \<and> nv_bframes nv \<le> 4 \<and> 1 \<le> nv_aq_strength nv \<and> nv_aq_strength nv \<le> 15"

definition vaapi_ok :: "vaapi_config \<Rightarrow> bool" where
  "vaapi_ok va \<longleftrightarrow> 0 \<le> va_rc_mode va \<and> va_rc_mode va \<le> 6 \<and> 0 \<le> va_quality va \<and> va_quality va \<le> 10 \<and>
     0 \<le> va_min_qp va \<and> va_min_qp va \<le> 63 \<and> 0 \<le> va_max_qp va \<and> va_max_qp va \<le> 63 \<and>
     0 \<le> va_slice_count va \<and> va_slice_count va \<le> 255 \<and> 0 \<le> va_async_depth va \<and> va_async_depth va \<le> 64 \<and>
     0 \<le> va_rc_buffer_frames va \<and> va_rc_buffer_frames va \<le> 100"

definition dd_ok :: "dd_config \<Rightarrow> bool" where
  "dd_ok dd \<longleftrightarrow> 0 \<le> dd_config_revert_delay dd \<and> 0 \<le> dd_hdr_toggle_delay dd \<and> dd_hdr_toggle_delay dd \<le> 3000"

definition backends :: "bytes list" where
  "backends = map ascii [''auto'', ''labwc'', ''krfb'', ''gamescope'']"

definition display_ok :: "linux_display_config \<Rightarrow> bool" where
  "display_ok ld \<longleftrightarrow> ld_compositor_backend ld \<in> set backends \<and>
     0 \<le> ld_headless_width ld \<and> ld_headless_width ld \<le> 7680 \<and> 0 \<le> ld_headless_height ld \<and>
     ld_headless_height ld \<le> 4320 \<and> 0 \<le> ld_headless_refresh ld \<and> ld_headless_refresh ld \<le> 240"

definition video_ok :: "'f video_settings \<Rightarrow> bool" where
  "video_ok v \<longleftrightarrow> 0 \<le> vi_hevc_mode v \<and> vi_hevc_mode v \<le> 3 \<and> 0 \<le> vi_av1_mode v \<and> vi_av1_mode v \<le> 3 \<and>
     -1 \<le> vi_nv_preset v \<and> vi_nv_preset v \<le> 2 \<and> nv_ok (vi_nv v) \<and> vaapi_ok (vi_vaapi v) \<and> dd_ok (vi_dd v) \<and>
     display_ok (vi_linux_display v) \<and>
     (vi_max_bitrate v = 0 \<or> MAX_BITRATE_MIN_KBPS \<le> vi_max_bitrate v \<and> vi_max_bitrate v \<le> BITRATE_MAX_KBPS) \<and>
     BITRATE_MIN_KBPS \<le> vi_adaptive_bitrate_min v \<and> vi_adaptive_bitrate_min v \<le> BITRATE_MAX_KBPS \<and>
     BITRATE_MIN_KBPS \<le> vi_adaptive_bitrate_max v \<and> vi_adaptive_bitrate_max v \<le> BITRATE_MAX_KBPS"

named_theorems range_rules "a statement keeps a range"

lemma frame_reader [range_rules]: "\<forall>s x. P s \<longrightarrow> P (upd (\<lambda>_. x) s) \<Longrightarrow> keeps P (on get upd read)"
  by (rule keeps_on) blast

lemma range_pure [range_rules]: "\<forall>s. P s \<longrightarrow> P (f s) \<Longrightarrow> keeps P (pure f)"
  by (rule keeps_pure) blast

lemma keeps_inner:
  "keeps Q read \<Longrightarrow> \<forall>s. P s \<longrightarrow> Q (get s) \<and> (\<forall>x. Q x \<longrightarrow> P (upd (\<lambda>_. x) s)) \<Longrightarrow> keeps P (on get upd read)"
  by (rule keeps_on) (simp add: keeps_def)

lemma keeps_inner_fallible:
  "keeps_fallible Q read \<Longrightarrow> \<forall>s. P s \<longrightarrow> Q (get s) \<and> (\<forall>x. Q x \<longrightarrow> P (upd (\<lambda>_. x) s)) \<Longrightarrow>
   keeps_fallible P (on_fallible get upd read)"
  unfolding keeps_fallible_def by (fastforce split: sum.splits)

lemma int_between_cases:
  "snd (int_between_f name (l, u) (vars, x)) = x \<or>
   l \<le> snd (int_between_f name (l, u) (vars, x)) \<and> snd (int_between_f name (l, u) (vars, x)) \<le> u"
  by (simp add: int_between_f.read_value between_value_def del: int_between_f.simps)

lemma keeps_between [range_rules]:
  "\<forall>s. P s \<longrightarrow> (\<forall>x. x = get s \<or> l \<le> x \<and> x \<le> u \<longrightarrow> P (upd (\<lambda>_. x) s)) \<Longrightarrow>
   keeps P (on get upd (int_between_f name (l, u)))"
  using int_between_cases by (intro keeps_on) blast

lemma keeps_between_nat [range_rules]:
  assumes "0 \<le> l" "0 \<le> u" and P: "\<forall>s. P s \<longrightarrow> nat l \<le> get s \<and> get s \<le> nat u \<and>
    (\<forall>x. nat l \<le> x \<longrightarrow> x \<le> nat u \<longrightarrow> P (upd (\<lambda>_. x) s))"
  shows "keeps P (on_nat get upd (int_between_f name (l, u)))"
  unfolding on_nat_def
proof (rule keeps_on)
  fix vars s
  assume s: "P s"
  define x where "x = snd (int_between_f name (l, u) (vars, (int \<circ> get) s))"
  have "l \<le> (int \<circ> get) s" "(int \<circ> get) s \<le> u" using P s assms(1,2) by (auto simp: nat_le_iff le_nat_iff)
  then have "l \<le> x \<and> x \<le> u"
    unfolding x_def using int_between_range [of "(l, u)" "(int \<circ> get) s"] by simp
  then have "P (upd (\<lambda>_. nat x) s)" using P s by (simp add: nat_mono)
  then show "P (upd (nat \<circ> (\<lambda>_. x) \<circ> int) s)" by (simp add: comp_def)
qed

lemma keeps_restricted [range_rules]:
  "\<forall>s. P s \<longrightarrow> get s \<in> set allowed \<and> (\<forall>x. x \<in> set allowed \<longrightarrow> P (upd (\<lambda>_. x) s)) \<Longrightarrow>
   keeps P (on get upd (string_restricted_f name allowed))"
  using restricted_range by (intro keeps_on) blast

lemma nvenc_range: "keeps nv_ok (run_all nvenc_fields)"
  by (rule keeps_run_all) (simp add: nvenc_fields_def range_rules nv_ok_def)

lemma vaapi_range: "keeps vaapi_ok (run_all vaapi_fields)"
  by (rule keeps_run_all) (simp add: vaapi_fields_def range_rules vaapi_ok_def)

lemma linux_display_range: "keeps display_ok (run_all linux_display_fields)"
  by (rule keeps_run_all)
    (simp add: linux_display_fields_def range_rules display_ok_def backends_def del: string_restricted_f.simps)

lemma revert_delay_range: "0 \<le> x \<Longrightarrow> 0 \<le> snd (revert_delay_f (vars, x))"
  by (simp add: split_beta Let_def del: int_between_f.simps)

lemma dd_range: "keeps dd_ok (run_all dd_fields)"
proof (rule keeps_run_all)
  have "keeps dd_ok (on dd_config_revert_delay dd_config_revert_delay_update revert_delay_f)"
    by (rule keeps_on) (simp add: dd_ok_def revert_delay_range del: revert_delay_f.simps)
  then show "list_all (keeps dd_ok) dd_fields"
    by (simp add: dd_fields_def range_rules dd_ok_def del: revert_delay_f.simps)
qed

lemma preset_range: "nv_ok nv \<Longrightarrow> nv_ok (apply_nvenc_tuning_preset p nv)"
  by (simp add: nv_ok_def apply_nvenc_tuning_preset_def)

lemma encoder_range: "list_all (keeps video_ok) encoder_fields"
proof -
  have "keeps video_ok (on vi_nv vi_nv_update (run_all nvenc_fields))"
    by (rule keeps_inner [OF nvenc_range]) (simp_all add: video_ok_def)
  moreover have "keeps video_ok (on vi_vaapi vi_vaapi_update (run_all vaapi_fields))"
    by (rule keeps_inner [OF vaapi_range]) (simp_all add: video_ok_def)
  moreover have "keeps video_ok (on vi_dd vi_dd_update (run_all dd_fields))"
    by (rule keeps_inner [OF dd_range]) (simp_all add: video_ok_def)
  moreover have "keeps video_ok (pure apply_preset)"
    by (rule keeps_pure) (simp add: video_ok_def apply_preset_def preset_range)
  ultimately show ?thesis
    by (simp add: encoder_fields_def nvenc_tuning_fields_def device_fields_def range_rules keeps_pure video_ok_def)
qed

lemma max_bitrate_range:
  "x = 0 \<or> MAX_BITRATE_MIN_KBPS \<le> x \<and> x \<le> BITRATE_MAX_KBPS \<Longrightarrow>
   snd (max_bitrate_f (vars, x)) = 0 \<or>
   MAX_BITRATE_MIN_KBPS \<le> snd (max_bitrate_f (vars, x)) \<and> snd (max_bitrate_f (vars, x)) \<le> BITRATE_MAX_KBPS"
  by (auto simp: split_beta Let_def simp del: int_f.simps)

lemma bitrate_range: "list_all (keeps video_ok) (bitrate_fields fl)"
proof -
  have "keeps video_ok (on vi_max_bitrate vi_max_bitrate_update max_bitrate_f)"
    by (rule keeps_on) (use max_bitrate_range in \<open>simp add: video_ok_def del: max_bitrate_f.simps\<close>)
  moreover have "keeps video_ok (pure swap_adaptive)"
    by (rule keeps_pure) (simp add: video_ok_def swap_adaptive_def)
  ultimately show ?thesis
    by (simp add: bitrate_fields_def range_rules video_ok_def)
qed

lemma hdr_toggle_range:
  "0 \<le> snd (hdr_toggle_delay_f (vars, x)) \<and> snd (hdr_toggle_delay_f (vars, x)) \<le> 3000"
  using int_between_range [of "(0, 3000)" 0] by simp

lemma map_safely_keeps: "list_all (keeps P) fs \<Longrightarrow> list_all (keeps_fallible P) (map safely fs)"
  by (simp add: list_all_iff keeps_safely)

lemma hdr_toggle_step: "keeps_fallible video_ok (safely (on vi_dd vi_dd_update
    (on dd_hdr_toggle_delay dd_hdr_toggle_delay_update hdr_toggle_delay_f)))"
proof -
  have "keeps dd_ok (on dd_hdr_toggle_delay dd_hdr_toggle_delay_update hdr_toggle_delay_f)"
    by (rule keeps_on) (use hdr_toggle_range in \<open>simp add: dd_ok_def del: hdr_toggle_delay_f.simps\<close>)
  then show ?thesis by (intro keeps_safely, rule keeps_inner) (auto simp: video_ok_def)
qed

lemma mode_remapping_step: "keeps_fallible video_ok (on_fallible vi_dd vi_dd_update
    (on_fallible dd_mode_remapping dd_mode_remapping_update (mode_remapping_f rj)))"
proof -
  have "keeps_fallible dd_ok (on_fallible dd_mode_remapping dd_mode_remapping_update (mode_remapping_f rj))"
    by (rule keeps_on_fallible) (simp add: dd_ok_def)
  then show ?thesis by (rule keeps_inner_fallible) (auto simp: video_ok_def)
qed

lemma linux_display_step:
  "keeps video_ok (on vi_linux_display vi_linux_display_update (run_all linux_display_fields))"
  by (rule keeps_inner [OF linux_display_range]) (auto simp: video_ok_def)

lemma video_range: "list_all (keeps_fallible video_ok) (video_fields fl rj)"
  unfolding video_fields_def list_all_append
  by (intro conjI map_safely_keeps encoder_range)
    (simp_all add: hdr_toggle_step mode_remapping_step bitrate_range linux_display_step)

definition stream_ok :: "stream_settings \<Rightarrow> bool" where
  "stream_ok st \<longleftrightarrow> 0 \<le> st_ping_timeout st \<and> FEC_PERCENTAGE_MIN \<le> st_fec_percentage st \<and>
     st_fec_percentage st \<le> FEC_PERCENTAGE_MAX \<and> st_lan_encryption_mode st \<in> {0..2} \<and>
     st_wan_encryption_mode st \<in> {0..2} \<and>
     (st_packetsize st = 0 \<or> PACKETSIZE_MIN \<le> st_packetsize st \<and> st_packetsize st \<le> PACKETSIZE_MAX)"

definition token_ok :: "api_token_t \<Rightarrow> bool" where
  "token_ok t \<longleftrightarrow> tk_name t \<noteq> [] \<and> tk_hash t \<noteq> [] \<and> tk_salt t \<noteq> [] \<and> tk_scopes t \<noteq> []"

definition origins_allowed :: "bytes list" where
  "origins_allowed = map ascii [''pc'', ''lan'', ''wan'']"

definition nvhttp_ok :: "nvhttp_settings \<Rightarrow> bool" where
  "nvhttp_ok nh \<longleftrightarrow> nh_origin_web_ui_allowed nh \<in> set origins_allowed \<and> list_all token_ok (nh_api_tokens nh)"

definition families :: "bytes list" where
  "families = map ascii [''ipv4'', ''both'']"

definition sunshine_ok :: "sunshine_settings \<Rightarrow> bool" where
  "sunshine_ok su \<longleftrightarrow> 1019 \<le> uint (su_port su) \<and> uint (su_port su) \<le> 65514 \<and> 0 \<le> su_min_log_level su \<and>
     su_min_log_level su \<le> 6 \<and> su_address_family su \<in> set families \<and> su_locale su \<in> set locales \<and>
     list_all (prefix (ascii ''https://'')) (su_csrf_allowed_origins su)"

definition modes :: "bytes list" where
  "modes = map ascii [''safe'', ''aggressive'']"

definition solarflare_ok :: "'f solarflare_t \<Rightarrow> bool" where
  "solarflare_ok sf \<longleftrightarrow> sf_busy_poll_us sf \<in> {0..10000} \<and> sf_rate_cap_pct sf \<in> {50..95} \<and>
     sf_pipewire_latency_ms sf \<in> {1..40} \<and> sf_latency_mode sf \<in> set modes \<and> sf_idle_timeout_min sf \<in> {0..600} \<and>
     fx_opus_application (sf_audio_fx sf) \<in> {0..2} \<and> fx_opus_vbr (sf_audio_fx sf) \<in> {0..2} \<and>
     fx_opus_complexity (sf_audio_fx sf) \<in> {0..10} \<and> fx_opus_expected_loss_pct (sf_audio_fx sf) \<in> {0..100}"

definition config_ok :: "'f config \<Rightarrow> bool" where
  "config_ok s \<longleftrightarrow> video_ok (cf_video s) \<and> stream_ok (cf_stream s) \<and> nvhttp_ok (cf_nvhttp s) \<and>
     sunshine_ok (cf_sunshine s) \<and> solarflare_ok (cf_solarflare s)"

lemma ping_timeout_range: "0 \<le> x \<Longrightarrow> 0 \<le> snd (ping_timeout_f (vars, x))"
  using int_between_range [of "(- 1, 2 ^ 31 - 1)" "- 1" "ascii ''ping_timeout''" vars]
  by (simp add: split_beta Let_def del: int_between_f.simps)

lemma packetsize_range:
  "x = 0 \<or> PACKETSIZE_MIN \<le> x \<and> x \<le> PACKETSIZE_MAX \<Longrightarrow> snd (packetsize_f (vars, x)) = 0 \<or>
   PACKETSIZE_MIN \<le> snd (packetsize_f (vars, x)) \<and> snd (packetsize_f (vars, x)) \<le> PACKETSIZE_MAX"
proof -
  assume x: "x = 0 \<or> PACKETSIZE_MIN \<le> x \<and> x \<le> PACKETSIZE_MAX"
  then have "fst (0, PACKETSIZE_MAX) \<le> x \<and> x \<le> snd (0, PACKETSIZE_MAX)"
    by (auto simp: PACKETSIZE_MIN_def PACKETSIZE_MAX_def)
  then have "snd (int_between_f (ascii ''packetsize'') (0, PACKETSIZE_MAX) (vars, x)) \<le> PACKETSIZE_MAX \<and>
      0 \<le> snd (int_between_f (ascii ''packetsize'') (0, PACKETSIZE_MAX) (vars, x))"
    using int_between_range [of "(0, PACKETSIZE_MAX)"] by fastforce
  then show ?thesis using x
    by (auto simp: split_beta Let_def PACKETSIZE_MIN_def PACKETSIZE_MAX_def simp del: int_between_f.simps)
qed

lemma stream_range: "keeps stream_ok (run_all stream_fields)"
proof (rule keeps_run_all)
  have "keeps stream_ok (on st_ping_timeout st_ping_timeout_update ping_timeout_f)"
    by (rule keeps_on) (simp add: stream_ok_def ping_timeout_range del: ping_timeout_f.simps)
  moreover have "keeps stream_ok (on st_packetsize st_packetsize_update packetsize_f)"
    by (rule keeps_on) (use packetsize_range in \<open>simp add: stream_ok_def del: packetsize_f.simps\<close>)
  ultimately show "list_all (keeps stream_ok) stream_fields"
    by (simp add: stream_fields_def range_rules stream_ok_def)
qed

lemma parse_token_ok: "parse_token entry = Some t \<Longrightarrow> token_ok t"
  by (auto simp: parse_token_def Let_def token_ok_def split: if_splits)

lemma parse_tokens_ok: "list_all token_ok (parse_tokens temp)"
  by (auto simp: parse_tokens_def list_all_iff List.map_filter_def intro: parse_token_ok)

lemma nvhttp_range: "keeps nvhttp_ok (run_all nvhttp_fields)"
proof (rule keeps_run_all)
  have "keeps nvhttp_ok (on nh_api_tokens nh_api_tokens_update api_tokens_f)"
    by (rule keeps_on) (simp add: nvhttp_ok_def split_beta parse_tokens_ok)
  then show "list_all (keeps nvhttp_ok) nvhttp_fields"
    by (simp add: nvhttp_fields_def range_rules nvhttp_ok_def origins_allowed_def del: api_tokens_f.simps)
qed

lemma port_range_kept:
  assumes "1019 \<le> uint x" "uint x \<le> 65514"
  shows "1019 \<le> uint (snd (port_f (vars, x))) \<and> uint (snd (port_f (vars, x))) \<le> 65514"
proof -
  define p where "p = snd (int_between_f (ascii ''port'') (1024 + PORT_HTTPS, 65535 - RTSP_SETUP_PORT) (vars, uint x))"
  have p: "1019 \<le> p \<and> p \<le> 65514"
    unfolding p_def PORT_HTTPS_def RTSP_SETUP_PORT_def
    using int_between_range [of "(1024 + - 5, 65535 - 21)" "uint x"] assms by simp
  have "snd (port_f (vars, x)) = of_int p" by (simp add: p_def split_beta del: int_between_f.simps)
  moreover have "uint (of_int p :: u16) = p" using p by (simp add: unsigned_of_int take_bit_int_eq_self)
  ultimately show ?thesis using p by simp
qed

lemma log_level_range: "0 \<le> x \<Longrightarrow> x \<le> 6 \<Longrightarrow> 0 \<le> snd (log_level_f (vars, x)) \<and> snd (log_level_f (vars, x)) \<le> 6"
proof -
  assume x: "0 \<le> x" "x \<le> 6"
  have "0 \<le> log_level_of str x \<and> log_level_of str x \<le> 6" for str
  proof (cases "48 \<le> hd str \<and> hd str < 55")
    case True
    then have "48 \<le> uint (hd str) \<and> uint (hd str) < 55" by (auto simp: word_le_def word_less_def)
    with x show ?thesis by (auto simp: log_level_of_def convert_def split: option.split if_splits)
  next
    case False
    with x show ?thesis by (auto simp: log_level_of_def convert_def split: option.split if_splits)
  qed
  with x show ?thesis by (simp add: split_beta)
qed

lemma sunshine_range: "keeps sunshine_ok (run_all sunshine_fields)"
proof (rule keeps_run_all)
  have "keeps sunshine_ok (on su_port su_port_update port_f)"
    by (rule keeps_on) (simp add: sunshine_ok_def port_range_kept del: port_f.simps)
  moreover have "keeps sunshine_ok (on su_min_log_level su_min_log_level_update log_level_f)"
    by (rule keeps_on) (simp add: sunshine_ok_def log_level_range del: log_level_f.simps)
  moreover have "keeps sunshine_ok (pure add_web_ui_origins)"
    by (rule keeps_pure) (simp add: sunshine_ok_def add_web_ui_origins_def Let_def ascii_def)
  ultimately show "list_all (keeps sunshine_ok) sunshine_fields"
    by (simp add: sunshine_fields_def range_rules sunshine_ok_def families_def)
qed

lemma csrf_range: "list_all (prefix (ascii ''https://'')) (snd (csrf_origins_f (vars, x)))"
  by (simp add: split_beta list_all_iff csrf_origin_ok_def del: string_list_f.simps) (simp add: ascii_def)

lemma between_in: "x \<in> {l..u} \<Longrightarrow> between_value (l, u) v x \<in> {l..u}"
  by (simp add: between_value_def)

lemma restricted_modes:
  "x \<in> set modes \<Longrightarrow> restricted_value (map ascii [''safe'', ''aggressive'']) v x \<in> set modes"
  by (simp add: restricted_value_def modes_def)

lemma solarflare_range: "solarflare_ok sf \<Longrightarrow> solarflare_ok (solarflare_values fl m sf)"
  unfolding solarflare_ok_def solarflare_values_def values_of_def solarflare_table_def audio_fx_table_def
  by (simp del: atLeastAtMost_iff list.map add: between_in restricted_modes)

lemma fec_range: "keeps stream_ok (on st_fec_percentage st_fec_percentage_update
    (int_between_f (ascii ''fec_percentage'') (FEC_PERCENTAGE_MIN, FEC_PERCENTAGE_MAX)))"
  by (simp add: range_rules stream_ok_def)

lemma leading_range: "list_all (keeps_fallible config_ok) (leading_fields env)"
proof -
  have "list_all (keeps_fallible config_ok) (map (on_fallible cf_video cf_video_update) (video_fields fl rj))"
    for fl :: "'a floating" and rj
    unfolding list_all_iff set_map
  proof
    fix f :: "'a config fallible"
    assume "f \<in> on_fallible cf_video cf_video_update ` set (video_fields fl rj)"
    then obtain g where g: "g \<in> set (video_fields fl rj)" "f = on_fallible cf_video cf_video_update g" by blast
    have "keeps_fallible video_ok g" using video_range [of fl rj] g(1) by (simp add: list_all_iff)
    then show "keeps_fallible config_ok f"
      unfolding g(2) by (rule keeps_inner_fallible) (simp add: config_ok_def)
  qed
  moreover have "keeps (config_ok :: 'a config \<Rightarrow> bool) (on cf_nvhttp cf_nvhttp_update (run_all nvhttp_fields))"
    by (rule keeps_inner [OF nvhttp_range]) (simp add: config_ok_def)
  moreover have "keeps (config_ok :: 'a config \<Rightarrow> bool) (on cf_stream cf_stream_update (run_all stream_fields))"
    by (rule keeps_inner [OF stream_range]) (simp add: config_ok_def)
  moreover have "keeps (config_ok :: 'a config \<Rightarrow> bool) (on cf_stream cf_stream_update (on st_fec_percentage st_fec_percentage_update
      (int_between_f (ascii ''fec_percentage'') (FEC_PERCENTAGE_MIN, FEC_PERCENTAGE_MAX))))"
    by (rule keeps_inner [OF fec_range]) (simp add: config_ok_def)
  moreover have "keeps (config_ok :: 'a config \<Rightarrow> bool) (on cf_sunshine cf_sunshine_update
      (on su_csrf_allowed_origins su_csrf_allowed_origins_update csrf_origins_f))"
    by (rule keeps_on) (simp add: config_ok_def sunshine_ok_def split_beta csrf_range del: csrf_origins_f.simps)
  ultimately show ?thesis
    by (simp add: leading_fields_def path_fields_def frame_rules keeps_safely config_ok_def stream_ok_def
        nvhttp_ok_def sunshine_ok_def del: csrf_origins_f.simps)
qed


lemma trailing_range: "list_all (keeps_fallible config_ok) trailing_fields"
proof -
  have "keeps (config_ok :: 'a config \<Rightarrow> bool) (on cf_sunshine cf_sunshine_update (run_all sunshine_fields))"
    by (rule keeps_inner [OF sunshine_range]) (simp add: config_ok_def)
  then show ?thesis by (simp add: trailing_fields_def frame_rules keeps_safely config_ok_def)
qed

lemma apply_config_range:
  assumes "apply_config env vars s = Inr s'" and "config_ok s"
  shows "config_ok s'"
proof -
  obtain vars1 s1 vars2 vars3 where
    lead: "run_fallible (leading_fields env) (vars, log_config_settings vars True s) = Inr (vars1, s1)" and
    trail: "run_fallible trailing_fields (vars2, update_opus_tuning
       (s1\<lparr>cf_solarflare := solarflare_values (ce_float env) (map_of vars1) (cf_solarflare s1)\<rparr>)) = Inr (vars3, s')"
    using assms(1) by (rule apply_config_cut)
  have "config_ok (log_config_settings vars True s)"
    using assms(2) by (simp add: config_ok_def log_config_settings_def)
  then have "config_ok s1" by (rule run_keeps [OF leading_range lead])
  then show ?thesis
    by (intro run_keeps [OF trailing_range trail])
      (simp add: config_ok_def update_opus_tuning_def solarflare_range)
qed

lemma config_new_range: "config_ok (config_new env)"
proof -
  have "video_ok (video_new fl)" for fl :: "'a floating"
    by (simp add: video_ok_def video_new_def nv_ok_def nvenc_config_new_def vaapi_ok_def dd_ok_def display_ok_def
        backends_def BITRATE_MIN_KBPS_def BITRATE_MAX_KBPS_def MAX_BITRATE_MIN_KBPS_def)
  moreover have "stream_ok (stream_new fs)" for fs
    by (simp add: stream_ok_def stream_new_def FEC_PERCENTAGE_MIN_def FEC_PERCENTAGE_MAX_def)
  moreover have "nvhttp_ok (nvhttp_new host)" for host
    by (simp add: nvhttp_ok_def nvhttp_new_def origins_allowed_def)
  moreover have "sunshine_ok (sunshine_new fs)" for fs
    by (simp add: sunshine_ok_def sunshine_new_def families_def locales_def)
  moreover have "solarflare_ok (solarflare_new fl)" for fl :: "'a floating"
    by (simp add: solarflare_ok_def solarflare_new_def audio_fx_new_def modes_def)
  ultimately show ?thesis by (simp add: config_ok_def config_new_def)
qed

lemma parse_args_range:
  "parse_args args (cmd_vars, su) = Inr (cmd_vars', su') \<Longrightarrow> sunshine_ok su \<Longrightarrow> sunshine_ok su'"
proof (induction args arbitrary: cmd_vars su)
  case (Cons line args)
  have keep: "sunshine_ok (su\<lparr>su_flags := flags\<rparr>)" "sunshine_ok (su\<lparr>su_config_file := conf\<rparr>)"
    "sunshine_ok (su\<lparr>su_cmd := cmd\<rparr>)" for flags conf cmd
    using Cons.prems(2) by (simp_all add: sunshine_ok_def)
  show ?case
    using Cons.prems(1) Cons.IH [OF _ keep(1)] Cons.IH [OF _ keep(2)] Cons.IH [OF _ Cons.prems(2)] keep(3)
    by (auto simp: Let_def split: if_splits prod.splits option.splits)
qed simp



section \<open>Options that do not do what they say\<close>

text \<open>An invariant of the variables and the settings together.\<close>

definition carries :: "(vars \<Rightarrow> 's \<Rightarrow> bool) \<Rightarrow> 's fallible \<Rightarrow> bool" where
  "carries P f \<longleftrightarrow> (\<forall>vars s vars' s'. P vars s \<longrightarrow> f (vars, s) = Inr (vars', s') \<longrightarrow> P vars' s')"

lemma carries_run: "list_all (carries P) fs \<Longrightarrow> carries P (run_fallible fs)"
proof (induction fs)
  case (Cons f fs)
  then have "carries P f" "carries P (run_fallible fs)" by simp_all
  show ?case
    unfolding carries_def
  proof (intro allI impI)
    fix vars s vars' s'
    assume "P vars s" and "run_fallible (f # fs) (vars, s) = Inr (vars', s')"
    then obtain vs t where "f (vars, s) = Inr (vs, t)" "run_fallible fs (vs, t) = Inr (vars', s')"
      by (auto split: sum.splits)
    then show "P vars' s'"
      using \<open>P vars s\<close> \<open>carries P f\<close> \<open>carries P (run_fallible fs)\<close> unfolding carries_def by blast
  qed
qed (simp add: carries_def)

lemma carries_absent:
  "shrinks f \<Longrightarrow> keeps_fallible Q f \<Longrightarrow> carries (\<lambda>vars s. absent K vars \<and> Q s) f"
  unfolding shrinks_def keeps_fallible_def carries_def absent_def by blast

lemma carries_on_fallible:
  "carries (\<lambda>vars x. absent K vars \<and> R x) read \<Longrightarrow> \<forall>s. Q s \<longrightarrow> R (get s) \<and> (\<forall>x. R x \<longrightarrow> Q (upd (\<lambda>_. x) s)) \<Longrightarrow>
   carries (\<lambda>vars s. absent K vars \<and> Q s) (on_fallible get upd read)"
proof (unfold carries_def, intro allI impI)
  fix vars s vars' s'
  assume read: "\<forall>vars x vars' x'. absent K vars \<and> R x \<longrightarrow> read (vars, x) = Inr (vars', x') \<longrightarrow> absent K vars' \<and> R x'"
    and lens: "\<forall>s. Q s \<longrightarrow> R (get s) \<and> (\<forall>x. R x \<longrightarrow> Q (upd (\<lambda>_. x) s))"
    and s: "absent K vars \<and> Q s" and run: "on_fallible get upd read (vars, s) = Inr (vars', s')"
  from run obtain x where x: "read (vars, get s) = Inr (vars', x)" "s' = upd (\<lambda>_. x) s" by (auto split: sum.splits)
  then have "absent K vars' \<and> R x" using read lens s by blast
  then show "absent K vars' \<and> Q s'" using x(2) lens s by blast
qed

lemma on_safely: "safely (on get upd read) = on_fallible get upd (safely read)"
  by (rule ext) (auto simp: safely_def split_beta)

lemma input_native_pen:
  "carries (\<lambda>vars i. absent {ascii ''native_pen_touch''} vars \<and> \<not> in_native_pen_touch i) (safely (run_all (input_fields env)))"
proof -
  let ?P = "\<lambda>vars i :: 'a input_settings. absent {ascii ''native_pen_touch''} vars \<and> \<not> in_native_pen_touch i"
  have pen: "carries ?P (safely (on in_native_pen_touch in_native_pen_touch_update (bool_f (ascii ''native_pen_touch''))))"
    by (auto simp: carries_def safely_def absent_def split_beta bool_f.read_value generic_value_def delete_None
        simp del: bool_f.simps)
  have "list_all (carries ?P) (map safely (input_fields env))"
    unfolding input_fields_def list.map list.pred_inject
    by (intro conjI pen list.pred_inject(1); rule carries_absent; simp add: shrinks_rules frame_rules rightalt_as_win_def)
  moreover have "safely (run_all (input_fields env)) = run_fallible (map safely (input_fields env))"
    by (rule ext) (rule run_all_fallible)
  ultimately show ?thesis by (simp only: carries_run)
qed


lemma leading_native_pen:
  "list_all (carries (\<lambda>vars s. absent {ascii ''native_pen_touch''} vars \<and> \<not> in_native_pen_touch (cf_input s)))
    (leading_fields env)"
proof -
  let ?Q = "\<lambda>s :: 'a config. \<not> in_native_pen_touch (cf_input s)"
  have sh: "list_all shrinks (leading_fields env)"
    using shrinks_config_fields [of env] by (simp add: config_fields_def)
  have inp: "carries (\<lambda>vars s. absent {ascii ''native_pen_touch''} vars \<and> ?Q s)
      (safely (on cf_input cf_input_update (run_all (input_fields env))))"
    unfolding on_safely by (rule carries_on_fallible [OF input_native_pen]) simp
  have "\<forall>f \<in> set (leading_fields env). keeps_fallible ?Q f \<or>
      f = safely (on cf_input cf_input_update (run_all (input_fields env)))"
    by (simp add: leading_fields_def path_fields_def frame_rules ball_Un frame_map [unfolded list_all_iff])
  then show ?thesis
    using sh inp carries_absent unfolding list_all_iff by blast
qed

text \<open>The comments of the defaults and the documentation say that native pen and touch input is enabled
  unless it is switched off. The initialiser leaves the field out, so that it is disabled unless it is
  switched on.\<close>

theorem native_pen_touch_off:
  assumes "parse env read_file [] (config_new env) = Running s"
    and "map_of (parse_config (read_file (su_config_file (cf_sunshine (config_new env))))) (ascii ''native_pen_touch'') = None"
  shows "\<not> in_native_pen_touch (cf_input s)"
proof -
  let ?vars = "parse_config (read_file (su_config_file (cf_sunshine (config_new env))))"
  obtain vars1 s1 vars2 vars3 where
    lead: "run_fallible (leading_fields env) (?vars, log_config_settings ?vars True (config_new env)) = Inr (vars1, s1)" and
    trail: "run_fallible trailing_fields (vars2, update_opus_tuning
       (s1\<lparr>cf_solarflare := solarflare_values (ce_float env) (map_of vars1) (cf_solarflare s1)\<rparr>)) = Inr (vars3, s)"
    using assms(1) unfolding parse_no_args by (rule apply_config_cut)
  have "absent {ascii ''native_pen_touch''} ?vars" using assms(2) by (simp add: absent_def)
  moreover have "\<not> in_native_pen_touch (cf_input (log_config_settings ?vars True (config_new env)))"
    by (simp add: log_config_settings_def config_new_def default_input_def)
  ultimately have "\<not> in_native_pen_touch (cf_input s1)"
    using carries_run [OF leading_native_pen, unfolded carries_def] lead by blast
  moreover have "list_all (keeps_fallible (\<lambda>s. \<not> in_native_pen_touch (cf_input s))) trailing_fields"
    by (simp add: trailing_fields_def frame_rules)
  ultimately show ?thesis
    using run_keeps [OF _ trail, of "\<lambda>s. \<not> in_native_pen_touch (cf_input s)"] by (simp add: update_opus_tuning_def)
qed

lemma vt_require_kept: "keeps (\<lambda>vt. vt_require_sw vt = c) (run_all vt_fields)"
  unfolding keeps_def run_all_def vt_fields_def
  by (simp add: reader_simps generic_value_def delete_conv' del: readers_opaque)

text \<open>The word \<open>forced\<close> of \<open>vt_software\<close> should require the software encoder. The name is read twice,
  and the first reader takes it out of the variables: no configuration ever changes \<open>vt_require_sw\<close>.\<close>

theorem vt_forced_ignored:
  assumes "apply_config env vars s = Inr s'"
  shows "vt_require_sw (vi_vt (cf_video s')) = vt_require_sw (vi_vt (cf_video s))"
proof -
  define c where "c = vt_require_sw (vi_vt (cf_video s))"
  let ?V = "\<lambda>v :: 'a video_settings. vt_require_sw (vi_vt v) = c"
  have vt: "keeps ?V (on vi_vt vi_vt_update (run_all vt_fields))"
    by (rule keeps_inner [OF vt_require_kept [of c]]) simp
  have "list_all (keeps ?V) encoder_fields"
    using vt by (simp add: encoder_fields_def nvenc_tuning_fields_def device_fields_def range_rules apply_preset_def)
  then have video: "list_all (keeps_fallible ?V) (video_fields (ce_double env) rj)" for rj
    by (simp add: video_fields_def map_safely_keeps bitrate_fields_def frame_rules range_rules keeps_safely swap_adaptive_def)
  have "keeps_fallible (\<lambda>s. ?V (cf_video s)) (on_fallible cf_video cf_video_update f)"
    if "f \<in> set (video_fields (ce_double env) rj)" for f rj
    using video [of rj] that by (intro keeps_inner_fallible) (auto simp: list_all_iff)
  then have lead: "list_all (keeps_fallible (\<lambda>s. ?V (cf_video s))) (leading_fields env)"
    by (simp add: leading_fields_def path_fields_def frame_rules) (auto simp: list_all_iff)
  obtain vars1 s1 vars2 vars3 where
    run: "run_fallible (leading_fields env) (vars, log_config_settings vars True s) = Inr (vars1, s1)" and
    trail: "run_fallible trailing_fields (vars2, update_opus_tuning
       (s1\<lparr>cf_solarflare := solarflare_values (ce_float env) (map_of vars1) (cf_solarflare s1)\<rparr>)) = Inr (vars3, s')"
    using assms by (rule apply_config_cut)
  have "?V (cf_video s1)" by (rule run_keeps [OF lead run]) (simp add: log_config_settings_def c_def)
  moreover have "list_all (keeps_fallible (\<lambda>s. ?V (cf_video s))) trailing_fields"
    by (simp add: trailing_fields_def frame_rules)
  ultimately show ?thesis
    using run_keeps [OF _ trail, of "\<lambda>s. ?V (cf_video s)"] by (simp add: update_opus_tuning_def c_def)
qed

text \<open>Every value is written to the log as it is, except the one name that is redacted: also the secret of
  the web hooks and the hashes and salts of the tokens.\<close>

theorem secrets_logged:
  assumes "apply_config env vars s = Inr s'" and "(name, v) \<in> set vars"
    and "name \<in> {ascii ''webhook_secret'', ascii ''api_tokens''}"
  shows "(name, v) \<in> set (cf_log s')"
proof -
  let ?P = "\<lambda>s :: 'a config. (name, v) \<in> set (cf_log s)"
  have "\<not> name \<in> set redacted_config"
    using assms(3) by (auto simp: redacted_config_def ascii_inj)
  then have start: "?P (log_config_settings vars True s)"
    using assms(2) by (force simp: log_config_settings_def)
  have "list_all (keeps_fallible ?P) (leading_fields env)"
    by (simp add: leading_fields_def path_fields_def frame_rules)
  moreover have "list_all (keeps_fallible ?P) trailing_fields"
    by (simp add: trailing_fields_def frame_rules)
  moreover obtain vars1 s1 vars2 vars3 where
    "run_fallible (leading_fields env) (vars, log_config_settings vars True s) = Inr (vars1, s1)" and
    trail: "run_fallible trailing_fields (vars2, update_opus_tuning
       (s1\<lparr>cf_solarflare := solarflare_values (ce_float env) (map_of vars1) (cf_solarflare s1)\<rparr>)) = Inr (vars3, s')"
    using assms(1) by (rule apply_config_cut)
  ultimately show ?thesis
    using start run_keeps [of ?P "leading_fields env"] run_keeps [OF _ trail, of ?P]
    by (simp add: update_opus_tuning_def)
qed

subsection \<open>Comments\<close>

lemma decimal_digits_bad: "c \<in> set cs \<Longrightarrow> decimal_digit c = None \<Longrightarrow> decimal_digits acc cs = None"
  by (induction cs arbitrary: acc) (auto split: option.split)

lemma parse_config_int_blank:
  assumes "v \<noteq> []" and "blank \<noteq> []" and "list_all space_tab blank"
  shows "parse_config_int (v @ blank) = None"
proof -
  obtain b bs where b: "blank = bs @ [b]" using assms(2) by (cases blank rule: rev_cases) auto
  have sp: "b = 32 \<or> b = 9" using assms(3) b by (simp add: space_tab_def)
  have hex: "hex_digit b = None" and dec: "decimal_digit b = None"
    using sp by (auto simp: hex_digit_def decimal_digit_def)
  show ?thesis
  proof (cases "take 2 (v @ blank) = ascii ''0x''")
    case True
    define w where "w = v @ blank"
    have last: "last w = b" using b by (simp add: w_def)
    have "drop 2 w \<noteq> []"
    proof
      assume "drop 2 w = []"
      then have "w = ascii ''0x''" using True append_take_drop_id [of 2 w] by (simp add: w_def)
      then have "b = 120" using last by (simp add: ascii_def)
      then show False using sp by simp
    qed
    then have "b \<in> set (drop 2 (v @ blank))" using last unfolding w_def [symmetric] by (metis last_drop last_in_set drop_eq_Nil2 not_le)
    then have "decode_pairs (drop 2 (v @ blank)) = None" using hex by (rule decode_pairs_bad)
    with True show ?thesis by (simp add: parse_config_int_def from_hex_def decode_hex_def)
  next
    case False
    have "b \<in> set (v @ blank)" "b \<in> set (tl (v @ blank))" using assms(1) b by (cases v; simp)+
    then have "decimal_digits 0 (v @ blank) = None" "decimal_digits 0 (tl (v @ blank)) = None"
      using dec by (blast intro: decimal_digits_bad)+
    with False show ?thesis by (simp add: parse_config_int_def parse_integer_def Let_def)
  qed
qed

lemma parse_config_line:
  assumes "plain_name n" "plain_value v" "list_all space_tab blank" "list_all (\<lambda>c. \<not> endline c) comment"
  shows "parse_config (option_line n v @ blank @ 35 # comment) = [(n, v @ blank)]"
proof -
  have "parse_option (option_line n v @ blank @ (35 # comment) @ []) = ([], Some (n, v @ blank))"
    using assms by (intro parse_option_line) (simp_all add: endline_def)
  moreover have "option_line n v \<noteq> []" by (simp add: option_line_def)
  ultimately show ?thesis
    by (subst parse_config_def, subst config_entries.simps)
      (simp add: next_option_def config_entries.simps [of "[]"] emplace_var_def)
qed

text \<open>A comment behind a value spoils it: the blanks before the comment belong to the value. An integer
  is then invalid and the setting keeps its old value; a word that means true is read as false.\<close>

theorem comment_spoils_value:
  assumes n: "plain_name n" and v: "plain_value v" "hd v \<noteq> 34"
    and blank: "blank \<noteq> []" "list_all space_tab blank" and comment: "list_all (\<lambda>c. \<not> endline c) comment"
  shows "snd (int_f n (parse_config (option_line n v @ blank @ 35 # comment), x)) = x \<and>
    (49 \<notin> set v \<longrightarrow> \<not> snd (bool_f n (parse_config (option_line n v @ blank @ 35 # comment), b)))"
proof -
  have v0: "v \<noteq> []" using v(1) by (simp add: plain_value_def)
  have "unquote (v @ blank) = v @ blank" using v(2) v0 by (cases v) (simp_all add: unquote_def)
  then have "parse_config_int (unquote (v @ blank)) = None"
    using parse_config_int_blank [OF v0 blank] by simp
  moreover have "\<not> to_bool (v @ blank)" if "49 \<notin> set v"
  proof -
    obtain bs b where b: "blank = bs @ [b]" using blank(1) by (cases blank rule: rev_cases) auto
    have sp: "\<forall>c \<in> set blank. c = 32 \<or> c = 9" using blank(2) by (simp add: list_all_iff space_tab_def)
    then have low: "lower_char b = 32 \<or> lower_char b = 9" using b by (auto simp: lower_char_def)
    have "lower_char c \<noteq> 49" if "c \<noteq> 49" for c
    proof
      assume "lower_char c = 49"
      moreover have "c + 32 \<noteq> 49" if "65 \<le> c" "c \<le> 90"
      proof
        assume "c + 32 = 49"
        then have "c = 49 - 32" by (metis add_diff_cancel_right')
        with that show False by simp
      qed
      ultimately show False using that by (auto simp: lower_char_def split: if_splits)
    qed
    then have "49 \<notin> set (map lower_char (v @ blank))" using \<open>49 \<notin> set v\<close> sp by (fastforce simp: lower_char_def)
    moreover have "map lower_char (v @ blank) \<notin> set (map ascii [''true'', ''yes'', ''enable'', ''enabled'', ''on''])"
    proof
      assume "map lower_char (v @ blank) \<in> set (map ascii [''true'', ''yes'', ''enable'', ''enabled'', ''on''])"
      then have "last (map lower_char (v @ blank)) \<in> {101, 115, 100, 110}" by (auto simp: ascii_def)
      then show False using low b by auto
    qed
    ultimately show ?thesis by (simp add: to_bool_def)
  qed
  ultimately show ?thesis
    using parse_config_line [OF n v(1) blank(2) comment] v0 by (simp add: Let_def)
qed

lemma comment_spoils_value_witness:
  "snd (int_f (ascii ''port'') (parse_config (option_line (ascii ''port'') (ascii ''48000'') @ [32] @ 35 # ascii '' base''), 47989)) = 47989"
proof -
  have "plain_name (ascii ''port'')" "plain_value (ascii ''48000'')" "hd (ascii ''48000'') \<noteq> 34"
    "[32] \<noteq> ([] :: bytes)" "list_all space_tab [32]" "list_all (\<lambda>c. \<not> endline c) (ascii '' base'')" by code_simp+
  from comment_spoils_value [OF this] show ?thesis by blast
qed

subsection \<open>Ports\<close>

text \<open>The ports of a server: HTTP, HTTPS, web interface, video, control, audio and RTSP.\<close>

definition port_offsets :: "int list" where
  "port_offsets = [0, PORT_HTTPS, 1, 16, 26, 27, RTSP_SETUP_PORT]"

definition server_ports :: "int \<Rightarrow> u16 list" where
  "server_ports base = map (map_port base) port_offsets"


definition clamp_port :: "int \<Rightarrow> int" where
  "clamp_port m = (if m < 1024 then 1024 else if 65535 < m then 65535 else m)"

lemma map_port_clamp: "uint (map_port base port) = clamp_port (base + port)"
  by (auto simp: map_port_def clamp_port_def Let_def unsigned_of_int take_bit_int_eq_self simp del: of_int_add)

lemma server_ports_distinct: "distinct (server_ports base) \<longleftrightarrow> distinct (map (\<lambda>off. clamp_port (base + off)) port_offsets)"
proof -
  have "map (\<lambda>off. clamp_port (base + off)) port_offsets = map uint (server_ports base)"
    by (simp add: server_ports_def map_port_clamp)
  then show ?thesis by (simp add: distinct_map inj_on_def word_uint_eq_iff)
qed



end
