(* ===== verification/WebAuth.thy ===== *)
theory WebAuth
  imports ConfigProps
begin

text \<open>
  Who may use the web interface (\<^verbatim>\<open>src/confighttp.cpp\<close>): the limit on failed logins, bearer tokens and
  passwords, scopes, the check of the content type, and the tokens against requests forged by other
  web sites. Handlers follow in \<open>WebApi\<close>. Times are nanoseconds of the steady clock.
\<close>

section \<open>Requests, replies and state\<close>

text \<open>
  A request as the HTTP library delivers it: the address in its normal form with the class that
  \<open>from_address\<close> gives it, the look-up of a header (names are compared without case), the look-up of a
  query parameter, the body and the path.
\<close>

record web_request =
  rq_address :: bytes
  rq_net :: net_e
  rq_header :: "string \<Rightarrow> bytes option"
  rq_query :: "string \<Rightarrow> bytes option"
  rq_content :: bytes
  rq_path :: bytes

text \<open>The trees that replies are printed from.\<close>

datatype json =
    Json_bool bool
  | Json_int int
  | Json_text bytes
  | Json_array "json list"
  | Json_object "(bytes \<times> json) list"

text \<open>A reply: a status with a tree, a status alone, or a redirection. The headers against framing and
  downgrades, which every tree is sent with, are left out.\<close>

datatype web_reply = Reply nat "(bytes \<times> json) list" | Bare nat | Redirect bytes

text \<open>\<open>crypto::hash\<close>, SHA-256 by OpenSSL, and the Base64 decoder of the HTTP library.\<close>

record web_env =
  we_hash :: "bytes \<Rightarrow> bytes"
  we_base64 :: "bytes \<Rightarrow> bytes"

record rate_bucket_t =
  rb_window_start :: int
  rb_failures :: int

record csrf_token_t =
  ct_token :: bytes
  ct_expiration :: int

record web_state =
  wb_login_failures :: "bytes \<rightharpoonup> rate_bucket_t"
  wb_csrf_tokens :: "bytes \<rightharpoonup> csrf_token_t"
  wb_origin_allowed :: net_e
  wb_sunshine :: sunshine_settings
  wb_nvhttp :: nvhttp_settings

text \<open>The readings of the clock during one request: \<open>now\<close> of a function and that of the bucket it may
  construct, for the look-up before and for a failure, and \<open>now\<close> of the functions on CSRF tokens.\<close>

record web_clock =
  wc_allow :: "int \<times> int"
  wc_failure :: "int \<times> int"
  wc_csrf :: int

section \<open>Replies\<close>

definition text_field :: "string \<Rightarrow> json \<Rightarrow> bytes \<times> json" where
  "text_field name v = (ascii name, v)"

definition send_response :: "(bytes \<times> json) list \<Rightarrow> web_reply" where
  "send_response tree = Reply 200 tree"

definition send_unauthorized :: web_reply where
  "send_unauthorized = Reply 401 [text_field ''status_code'' (Json_int 401), text_field ''status'' (Json_bool False),
     text_field ''error'' (Json_text (ascii ''Unauthorized''))]"

definition send_forbidden :: web_reply where
  "send_forbidden = Reply 403 [text_field ''status_code'' (Json_int 403), text_field ''status'' (Json_bool False),
     text_field ''error'' (Json_text (ascii ''Token does not have the required scope for this endpoint''))]"

definition web_not_found :: "bytes \<Rightarrow> web_reply" where
  "web_not_found message = Reply 404 [text_field ''status_code'' (Json_int 404), text_field ''error'' (Json_text message)]"

definition web_bad_request :: "bytes \<Rightarrow> web_reply" where
  "web_bad_request message = Reply 400 [text_field ''status_code'' (Json_int 400), text_field ''status'' (Json_bool False),
     text_field ''error'' (Json_text message)]"

section \<open>The limit on failed logins\<close>

definition LOGIN_FAIL_LIMIT :: int where
  "LOGIN_FAIL_LIMIT = 10"

definition LOGIN_FAIL_WINDOW :: int where
  "LOGIN_FAIL_WINDOW = 30 * 10 ^ 9"

definition prune_rate_limits :: "int \<Rightarrow> (bytes \<rightharpoonup> rate_bucket_t) \<Rightarrow> (bytes \<rightharpoonup> rate_bucket_t)" where
  "prune_rate_limits now m = (\<lambda>ip. case m ip of
     None \<Rightarrow> None
   | Some b \<Rightarrow> if LOGIN_FAIL_WINDOW < now - rb_window_start b then None else Some b)"

text \<open>What \<open>rate_limit_allow\<close> and \<open>rate_limit_record_failure\<close> start with: the bucket of the address, made
  at the time \<open>made\<close> when there is none, and begun again when its window is over.\<close>

definition rate_bucket :: "int \<times> int \<Rightarrow> bytes \<Rightarrow> (bytes \<rightharpoonup> rate_bucket_t) \<Rightarrow> rate_bucket_t" where
  "rate_bucket clock ip m =
    (let (now, made) = clock;
         b = (case m ip of Some b \<Rightarrow> b | None \<Rightarrow> \<lparr>rb_window_start = made, rb_failures = 0\<rparr>) in
     if LOGIN_FAIL_WINDOW < now - rb_window_start b then \<lparr>rb_window_start = now, rb_failures = 0\<rparr> else b)"

definition rate_limit_allow ::
    "int \<times> int \<Rightarrow> bytes \<Rightarrow> (bytes \<rightharpoonup> rate_bucket_t) \<Rightarrow> bool \<times> (bytes \<rightharpoonup> rate_bucket_t)" where
  "rate_limit_allow clock ip m =
    (let m = prune_rate_limits (fst clock) m; b = rate_bucket clock ip m in
     (rb_failures b < LOGIN_FAIL_LIMIT, m(ip \<mapsto> b)))"

definition rate_limit_record_failure ::
    "int \<times> int \<Rightarrow> bytes \<Rightarrow> (bytes \<rightharpoonup> rate_bucket_t) \<Rightarrow> (bytes \<rightharpoonup> rate_bucket_t)" where
  "rate_limit_record_failure clock ip m =
    (let m = prune_rate_limits (fst clock) m; b = rate_bucket clock ip m in
     m(ip \<mapsto> b\<lparr>rb_failures := rb_failures b + 1\<rparr>))"

definition rate_limit_reset :: "bytes \<Rightarrow> (bytes \<rightharpoonup> rate_bucket_t) \<Rightarrow> (bytes \<rightharpoonup> rate_bucket_t)" where
  "rate_limit_reset ip m = m(ip := None)"

section \<open>Authentication\<close>

record auth_result_t =
  ar_authenticated :: bool
  ar_is_admin :: bool
  ar_token_name :: bytes
  ar_granted_scopes :: "api_scope_t list"

definition auth_result_new :: auth_result_t where
  "auth_result_new = \<lparr>ar_authenticated = False, ar_is_admin = False, ar_token_name = [], ar_granted_scopes = []\<rparr>"

definition iequals :: "bytes \<Rightarrow> bytes \<Rightarrow> bool" where
  "iequals a b \<longleftrightarrow> map lower_char a = map lower_char b"

text \<open>\<open>util::hex(crypto::hash(text)).to_string()\<close>\<close>

definition hash_text :: "web_env \<Rightarrow> bytes \<Rightarrow> bytes" where
  "hash_text env plain = hex_vec (we_hash env plain) False"

definition presented_token :: "web_request \<Rightarrow> bytes option" where
  "presented_token request =
    (case rq_header request ''authorization'' of
       None \<Rightarrow> None
     | Some raw \<Rightarrow>
         let bearer = ascii ''Bearer ''; presented = trim (drop (length bearer) raw) in
         if length raw < length bearer \<or> \<not> iequals (take (length bearer) raw) bearer then None
         else if presented = [] then None
         else Some presented)"

definition token_matches :: "web_env \<Rightarrow> bytes \<Rightarrow> api_token_t \<Rightarrow> bool" where
  "token_matches env presented token \<longleftrightarrow> hash_text env (presented @ 58 # tk_salt token) = tk_hash token"

definition authenticate_bearer :: "web_env \<Rightarrow> web_request \<Rightarrow> api_token_t list \<Rightarrow> auth_result_t" where
  "authenticate_bearer env request tokens =
    (case presented_token request of
       None \<Rightarrow> auth_result_new
     | Some presented \<Rightarrow>
         case find (token_matches env presented) tokens of
           None \<Rightarrow> auth_result_new
         | Some token \<Rightarrow> \<lparr>ar_authenticated = True, ar_is_admin = STAR \<in> set (tk_scopes token),
             ar_token_name = tk_name token, ar_granted_scopes = tk_scopes token\<rparr>)"

text \<open>
  User name and password, separated by the first colon, after the first six characters, whatever they are.
  \<open>index\<close> is -1 without a colon, which is the greatest number when it is compared with a size.
\<close>

definition basic_credentials :: "web_env \<Rightarrow> bytes \<Rightarrow> (bytes \<times> bytes) option" where
  "basic_credentials env raw =
    (let auth = we_base64 env (drop 6 raw) in
     case find_index (\<lambda>c. c = 58) auth of
       None \<Rightarrow> None
     | Some index \<Rightarrow>
         if length auth - 1 \<le> index then None else Some (take index auth, drop (index + 1) auth))"

definition credentials_right :: "web_env \<Rightarrow> sunshine_settings \<Rightarrow> bytes \<Rightarrow> bytes \<Rightarrow> bool" where
  "credentials_right env su username password \<longleftrightarrow>
    iequals username (su_username su) \<and> hash_text env (password @ su_salt su) = su_password su"

text \<open>How the order of \<open>net_e\<close> compares.\<close>

fun net_rank :: "net_e \<Rightarrow> nat" where
  "net_rank PC = 0"
| "net_rank LAN = 1"
| "net_rank WAN = 2"

text \<open>
  The result is \<open>None\<close> when an exception leaves the function (\<open>substr\<close> of a header that is too short);
  the guard has then counted the failure and answered. The replies are those the function has written.
\<close>

definition authenticate ::
    "web_env \<Rightarrow> web_clock \<Rightarrow> web_request \<Rightarrow> web_state \<Rightarrow> auth_result_t option \<times> web_reply list \<times> web_state" where
  "authenticate env clock request s =
    (let address = rq_address request in
     if net_rank (wb_origin_allowed s) < net_rank (rq_net request) then (Some auth_result_new, [Bare 403], s)
     else
       let (allowed, m) = rate_limit_allow (wc_allow clock) address (wb_login_failures s);
           s = s\<lparr>wb_login_failures := m\<rparr> in
       if \<not> allowed then (Some auth_result_new, [Bare 429], s)
       else if 1 * 1024 * 1024 < length (rq_content request) then (Some auth_result_new, [Bare 413], s)
       else if su_username (wb_sunshine s) = [] then (Some auth_result_new, [Redirect (ascii ''/welcome'')], s)
       else
         let refused = ([send_unauthorized],
               s\<lparr>wb_login_failures := rate_limit_record_failure (wc_failure clock) address m\<rparr>);
             accepted = ([], s\<lparr>wb_login_failures := rate_limit_reset address m\<rparr>);
             bearer_result = authenticate_bearer env request (nh_api_tokens (wb_nvhttp s)) in
         if ar_authenticated bearer_result then (Some bearer_result, accepted)
         else
           case rq_header request ''authorization'' of
             None \<Rightarrow> (Some auth_result_new, refused)
           | Some raw_auth \<Rightarrow>
               if length raw_auth < 6 then (None, refused)
               else
                 case basic_credentials env raw_auth of
                   None \<Rightarrow> (Some auth_result_new, refused)
                 | Some (username, password) \<Rightarrow>
                     if \<not> credentials_right env (wb_sunshine s) username password
                     then (Some auth_result_new, refused)
                     else (Some (auth_result_new\<lparr>ar_authenticated := True, ar_is_admin := True\<rparr>), accepted))"

definition has_scope :: "auth_result_t \<Rightarrow> api_scope_t \<Rightarrow> bool" where
  "has_scope auth scope =
    (if \<not> ar_authenticated auth then False
     else if ar_is_admin auth then True
     else list_ex (\<lambda>s. s = scope \<or> s = STAR) (ar_granted_scopes auth))"

definition require_scope ::
    "web_env \<Rightarrow> web_clock \<Rightarrow> web_request \<Rightarrow> api_scope_t \<Rightarrow> web_state \<Rightarrow> bool option \<times> web_reply list \<times> web_state" where
  "require_scope env clock request scope s =
    (case authenticate env clock request s of
       (None, replies, s) \<Rightarrow> (None, replies, s)
     | (Some auth, replies, s) \<Rightarrow>
         if \<not> ar_authenticated auth then (Some False, replies, s)
         else if \<not> has_scope auth scope then (Some False, replies @ [send_forbidden], s)
         else (Some True, replies, s))"

section \<open>Content type and forged requests\<close>

definition boost_trim :: "bytes \<Rightarrow> bytes" where
  "boost_trim s = rev (dropWhile is_space (rev (dropWhile is_space s)))"

definition check_content_type :: "web_request \<Rightarrow> bytes \<Rightarrow> bool \<times> web_reply list" where
  "check_content_type request content_type =
    (case rq_header request ''content-type'' of
       None \<Rightarrow> (False, [web_bad_request (ascii ''Content type not provided'')])
     | Some actual \<Rightarrow>
         if map lower_char (boost_trim (takeWhile (\<lambda>c. c \<noteq> 59) actual)) \<noteq> map lower_char content_type
         then (False, [web_bad_request (ascii ''Content type mismatch'')])
         else (True, []))"

definition get_client_id :: "web_env \<Rightarrow> web_request \<Rightarrow> web_state \<Rightarrow> bytes" where
  "get_client_id env request s =
    (case rq_header request ''authorization'' of
       None \<Rightarrow> rq_address request
     | Some raw_auth \<Rightarrow>
         if su_username (wb_sunshine s) = [] \<or> \<not> prefix (ascii ''Basic '') raw_auth then rq_address request
         else
           case basic_credentials env raw_auth of
             None \<Rightarrow> rq_address request
           | Some (username, _) \<Rightarrow> username)"

definition CSRF_TOKEN_SIZE :: nat where
  "CSRF_TOKEN_SIZE = 32"

definition CSRF_TOKEN_LIFETIME :: int where
  "CSRF_TOKEN_LIFETIME = 3600 * 10 ^ 9"

text \<open>\<open>rand_alphabet\<close> on the bytes that \<open>RAND_bytes\<close> gave.\<close>

definition csrf_alphabet :: bytes where
  "csrf_alphabet = ascii ''ABCDEFGHIJKLMNOPQRSTUVWXYZabcdefghijklmnopqrstuvwxyz0123456789!%&()=-''"

definition rand_alphabet :: "bytes \<Rightarrow> bytes \<Rightarrow> bytes" where
  "rand_alphabet random alphabet =
    (if random = [] \<or> alphabet = [] then []
     else map (\<lambda>v. alphabet ! (unat v mod length alphabet)) random)"

definition generate_csrf_token :: "int \<Rightarrow> bytes \<Rightarrow> bytes \<Rightarrow> web_state \<Rightarrow> bytes \<times> web_state" where
  "generate_csrf_token now random client_id s =
    (let token = rand_alphabet (take CSRF_TOKEN_SIZE random) csrf_alphabet;
         m = (\<lambda>id. case wb_csrf_tokens s id of
                None \<Rightarrow> None | Some t \<Rightarrow> if ct_expiration t < now then None else Some t) in
     (token, s\<lparr>wb_csrf_tokens :=
        m(client_id \<mapsto> \<lparr>ct_token = token, ct_expiration = now + CSRF_TOKEN_LIFETIME\<rparr>)\<rparr>))"

definition validate_stored_csrf_token ::
    "int \<Rightarrow> bytes \<Rightarrow> bytes \<Rightarrow> web_state \<Rightarrow> bool \<times> web_reply list \<times> web_state" where
  "validate_stored_csrf_token now client_id provided_token s =
    (case wb_csrf_tokens s client_id of
       None \<Rightarrow> (False, [web_bad_request (ascii ''Invalid CSRF token'')], s)
     | Some t \<Rightarrow>
         if ct_expiration t < now
         then (False, [web_bad_request (ascii ''CSRF token expired'')],
           s\<lparr>wb_csrf_tokens := (wb_csrf_tokens s)(client_id := None)\<rparr>)
         else if ct_token t \<noteq> provided_token
         then (False, [web_bad_request (ascii ''Invalid CSRF token'')], s)
         else (True, [], s))"

text \<open>An origin fits when the URL is the origin, or goes on with a port or a path.\<close>

definition origin_fits :: "bytes \<Rightarrow> bytes \<Rightarrow> bool" where
  "origin_fits url allowed_origin \<longleftrightarrow>
    prefix allowed_origin url \<and>
    (length url = length allowed_origin \<or> url ! length allowed_origin = 58 \<or> url ! length allowed_origin = 47)"

definition is_allowed_origin :: "bytes list \<Rightarrow> bytes \<Rightarrow> bool" where
  "is_allowed_origin allowed_origins url \<longleftrightarrow> list_ex (origin_fits url) allowed_origins"

definition validate_csrf_token ::
    "int \<Rightarrow> web_request \<Rightarrow> bytes \<Rightarrow> web_state \<Rightarrow> bool \<times> web_reply list \<times> web_state" where
  "validate_csrf_token now request client_id s =
    (let origin = rq_header request ''Origin''; referer = rq_header request ''Referer'';
         allowed = (\<lambda>header. case header of
           None \<Rightarrow> False | Some url \<Rightarrow> is_allowed_origin (su_csrf_allowed_origins (wb_sunshine s)) url) in
     if allowed origin then (True, [], s)
     else if allowed referer then (True, [], s)
     else if origin = None \<and> referer = None then (True, [], s)
     else
       case rq_header request ''X-CSRF-Token'' of
         None \<Rightarrow>
           (case rq_query request ''csrf_token'' of
              None \<Rightarrow> (False, [web_bad_request (ascii ''Missing CSRF token'')], s)
            | Some token \<Rightarrow> validate_stored_csrf_token now client_id token s)
       | Some token \<Rightarrow> validate_stored_csrf_token now client_id token s)"

section \<open>What clients may send\<close>

definition contains_control_chars :: "bytes \<Rightarrow> bool" where
  "contains_control_chars value \<longleftrightarrow> list_ex (\<lambda>ch. ch < 32 \<or> ch = 127) value"

definition is_valid_web_username :: "bytes \<Rightarrow> bool" where
  "is_valid_web_username username \<longleftrightarrow>
    username \<noteq> [] \<and> length username \<le> 256 \<and> \<not> contains_control_chars username"

text \<open>The regular expression: groups of 8, 4, 4, 4 and 12 hexadecimal digits.\<close>

fun hex_groups :: "nat list \<Rightarrow> bytes \<Rightarrow> bool" where
  "hex_groups [] text = False"
| "hex_groups [n] text \<longleftrightarrow> length text = n \<and> list_all (\<lambda>c. hex_digit c \<noteq> None) text"
| "hex_groups (n # ns) text \<longleftrightarrow>
     n < length text \<and> list_all (\<lambda>c. hex_digit c \<noteq> None) (take n text) \<and> text ! n = 45 \<and>
     hex_groups ns (drop (n + 1) text)"

definition is_valid_client_uuid :: "bytes \<Rightarrow> bool" where
  "is_valid_client_uuid uuid = hex_groups [8, 4, 4, 4, 12] uuid"

section \<open>New tokens\<close>

definition hex_encode :: "bytes \<Rightarrow> bytes" where
  "hex_encode raw = concat (map (\<lambda>c.
     [ascii ''0123456789abcdef'' ! (unat c div 16), ascii ''0123456789abcdef'' ! (unat c mod 16)]) raw)"

record minted_token_t =
  mt_plaintext :: bytes
  mt_hash :: bytes
  mt_salt :: bytes

text \<open>The argument is what is read of the random device.\<close>

definition mint_api_token :: "web_env \<Rightarrow> bytes \<Rightarrow> minted_token_t" where
  "mint_api_token env urandom =
    (let plaintext = hex_encode (take 32 urandom); salt = hex_encode (take 16 (drop 32 urandom)) in
     \<lparr>mt_plaintext = plaintext, mt_hash = hash_text env (plaintext @ 58 # salt), mt_salt = salt\<rparr>)"

text \<open>The scopes of the entry, separated by commas, and the entry for the configuration file.\<close>

fun scopes_text :: "api_scope_t list \<Rightarrow> bytes" where
  "scopes_text [] = []"
| "scopes_text [s] = scope_text s"
| "scopes_text (s # scopes) = scope_text s @ 44 # scopes_text scopes"

definition cfg_entry :: "bytes \<Rightarrow> minted_token_t \<Rightarrow> api_scope_t list \<Rightarrow> bytes" where
  "cfg_entry name minted scopes = name @ 9 # mt_hash minted @ 9 # mt_salt minted @ 9 # scopes_text scopes"

section \<open>Who is let in\<close>

text \<open>What a request must show: a token of the list that has the scope, or the name and the password.\<close>

definition token_entitles :: "web_env \<Rightarrow> web_request \<Rightarrow> api_scope_t \<Rightarrow> api_token_t list \<Rightarrow> bool" where
  "token_entitles env request scope tokens \<longleftrightarrow>
    (case presented_token request of
       None \<Rightarrow> False
     | Some presented \<Rightarrow>
         list_ex (\<lambda>t. token_matches env presented t \<and> (scope \<in> set (tk_scopes t) \<or> STAR \<in> set (tk_scopes t))) tokens)"

definition password_entitles :: "web_env \<Rightarrow> web_request \<Rightarrow> sunshine_settings \<Rightarrow> bool" where
  "password_entitles env request su \<longleftrightarrow>
    (case rq_header request ''authorization'' of
       None \<Rightarrow> False
     | Some raw_auth \<Rightarrow>
         (case basic_credentials env raw_auth of
            None \<Rightarrow> False
          | Some (username, password) \<Rightarrow> credentials_right env su username password))"

text \<open>An address is locked out while its bucket is full and the window lasts.\<close>

definition locked_out :: "int \<Rightarrow> bytes \<Rightarrow> web_state \<Rightarrow> bool" where
  "locked_out now ip s \<longleftrightarrow>
    (case wb_login_failures s ip of
       None \<Rightarrow> False
     | Some b \<Rightarrow> LOGIN_FAIL_LIMIT \<le> rb_failures b \<and> now - rb_window_start b \<le> LOGIN_FAIL_WINDOW)"

lemma auth_new_simps [simp]:
  "\<not> ar_authenticated auth_result_new" "\<not> has_scope auth_result_new scope"
  by (simp_all add: auth_result_new_def has_scope_def)

lemma allow_locked: "fst (rate_limit_allow clock ip m) = (\<not> (case m ip of None \<Rightarrow> False
     | Some b \<Rightarrow> LOGIN_FAIL_LIMIT \<le> rb_failures b \<and> fst clock - rb_window_start b \<le> LOGIN_FAIL_WINDOW))"
  by (cases clock) (auto simp: rate_limit_allow_def rate_bucket_def prune_rate_limits_def Let_def LOGIN_FAIL_LIMIT_def
      split: option.split)

lemma bearer_entitles:
  assumes "ar_authenticated (authenticate_bearer env request tokens)"
    and "has_scope (authenticate_bearer env request tokens) scope"
  shows "token_entitles env request scope tokens"
proof -
  from assms(1) obtain presented token where p: "presented_token request = Some presented"
    and f: "find (token_matches env presented) tokens = Some token"
    by (auto simp: authenticate_bearer_def split: option.splits)
  have "token \<in> set tokens" "token_matches env presented token"
    using f by (auto simp: find_Some_iff)
  moreover have "scope \<in> set (tk_scopes token) \<or> STAR \<in> set (tk_scopes token)"
    using assms(2) p f by (auto simp: authenticate_bearer_def has_scope_def list_ex_iff split: if_splits)
  ultimately show ?thesis using p by (auto simp: token_entitles_def list_ex_iff)
qed

lemma authenticate_cases:
  assumes "authenticate env clock request s = (Some auth, replies, s')" and "ar_authenticated auth"
  shows "net_rank (rq_net request) \<le> net_rank (wb_origin_allowed s)"
    and "\<not> locked_out (fst (wc_allow clock)) (rq_address request) s"
    and "su_username (wb_sunshine s) \<noteq> []"
    and "auth = authenticate_bearer env request (nh_api_tokens (wb_nvhttp s)) \<or>
      password_entitles env request (wb_sunshine s)"
  using assms allow_locked [of "wc_allow clock" "rq_address request" "wb_login_failures s"]
  by (auto simp: authenticate_def Let_def locked_out_def password_entitles_def split: if_splits prod.splits option.splits)

text \<open>C37: A handler that asks for a scope goes on only for a request from an allowed network, from an
  address that is not locked out, that shows a token with this scope (or with all) or the right name and
  password.\<close>

theorem scope_enforced:
  assumes "require_scope env clock request scope s = (Some True, replies, s')"
  shows "net_rank (rq_net request) \<le> net_rank (wb_origin_allowed s) \<and>
    \<not> locked_out (fst (wc_allow clock)) (rq_address request) s \<and>
    (token_entitles env request scope (nh_api_tokens (wb_nvhttp s)) \<or>
     su_username (wb_sunshine s) \<noteq> [] \<and> password_entitles env request (wb_sunshine s))"
proof -
  obtain auth r1 s1 where a: "authenticate env clock request s = (Some auth, r1, s1)"
    and ok: "ar_authenticated auth" "has_scope auth scope"
    using assms by (auto simp: require_scope_def split: prod.splits option.splits if_splits)
  show ?thesis
    using authenticate_cases [OF a ok(1)] bearer_entitles ok by auto
qed

text \<open>After ten failures within the window an address is not let in, whatever it shows, until the
  window is over; what it tries meanwhile is neither looked at nor counted.\<close>

theorem lock_out_holds:
  assumes "locked_out (fst (wc_allow clock)) (rq_address request) s"
  shows "\<exists>code s'. authenticate env clock request s = (Some auth_result_new, [Bare code], s') \<and>
    code \<in> {403, 429} \<and> wb_login_failures s' (rq_address request) = wb_login_failures s (rq_address request)"
proof -
  obtain b where b: "wb_login_failures s (rq_address request) = Some b" "LOGIN_FAIL_LIMIT \<le> rb_failures b"
    "fst (wc_allow clock) - rb_window_start b \<le> LOGIN_FAIL_WINDOW"
    using assms by (auto simp: locked_out_def split: option.splits)
  then have "rate_limit_allow (wc_allow clock) (rq_address request) (wb_login_failures s) =
      (False, (prune_rate_limits (fst (wc_allow clock)) (wb_login_failures s))(rq_address request \<mapsto> b))"
    by (cases "wc_allow clock") (simp add: rate_limit_allow_def rate_bucket_def prune_rate_limits_def Let_def)
  then show ?thesis using b(1) by (simp add: authenticate_def Let_def)
qed

section \<open>How often credentials can be tried\<close>

text \<open>The requests of an address whose credentials were looked at and refused, and those let in.\<close>

fun refusals :: "web_env \<Rightarrow> bytes \<Rightarrow> (web_clock \<times> web_request) list \<Rightarrow> web_state \<Rightarrow> nat" where
  "refusals env ip [] s = 0"
| "refusals env ip ((clock, request) # requests) s =
    (case authenticate env clock request s of
       (_, replies, s) \<Rightarrow>
         (if rq_address request = ip \<and> replies = [send_unauthorized] then 1 else 0) + refusals env ip requests s)"

fun admissions :: "web_env \<Rightarrow> bytes \<Rightarrow> (web_clock \<times> web_request) list \<Rightarrow> web_state \<Rightarrow> nat" where
  "admissions env ip [] s = 0"
| "admissions env ip ((clock, request) # requests) s =
    (case authenticate env clock request s of
       (_, replies, s) \<Rightarrow>
         (if rq_address request = ip \<and> replies = [] then 1 else 0) + admissions env ip requests s)"

definition clock_within :: "int \<Rightarrow> web_clock \<Rightarrow> bool" where
  "clock_within t clock \<longleftrightarrow> t \<le> fst (wc_allow clock) \<and> t \<le> snd (wc_allow clock) \<and>
     t \<le> fst (wc_failure clock) \<and> t \<le> snd (wc_failure clock) \<and>
     fst (wc_allow clock) \<le> t + LOGIN_FAIL_WINDOW \<and> fst (wc_failure clock) \<le> t + LOGIN_FAIL_WINDOW"

text \<open>What a bucket leaves for refusals until the end of a span that begins at \<open>t\<close>: a bucket from before
  \<open>t\<close> may be begun again once.\<close>

definition allowance :: "int \<Rightarrow> rate_bucket_t option \<Rightarrow> nat" where
  "allowance t bucket =
    (case bucket of
       None \<Rightarrow> 10
     | Some b \<Rightarrow> nat (10 - rb_failures b) + (if rb_window_start b < t then 10 else 0))"

definition bucket_ok :: "rate_bucket_t option \<Rightarrow> bool" where
  "bucket_ok bucket = pred_option (\<lambda>b. 0 \<le> rb_failures b) bucket"

lemma prune_allowance:
  assumes "now \<le> t + LOGIN_FAIL_WINDOW" "bucket_ok (m ip)"
  shows "allowance t (prune_rate_limits now m ip) \<le> allowance t (m ip)" "bucket_ok (prune_rate_limits now m ip)"
  using assms by (auto simp: prune_rate_limits_def allowance_def bucket_ok_def split: option.splits)

lemma rate_bucket_allowance:
  assumes "t \<le> fst clock" "t \<le> snd clock" "fst clock \<le> t + LOGIN_FAIL_WINDOW" "bucket_ok (m ip)"
  shows "allowance t (Some (rate_bucket clock ip m)) \<le> allowance t (m ip)" "bucket_ok (Some (rate_bucket clock ip m))"
  using assms by (cases clock; auto simp: rate_bucket_def Let_def allowance_def bucket_ok_def split: option.splits)+

lemma allow_allowance:
  assumes "clock_within t clock" "bucket_ok (m ip)"
  shows "allowance t (snd (rate_limit_allow (wc_allow clock) address m) ip) \<le> allowance t (m ip)"
    and "bucket_ok (snd (rate_limit_allow (wc_allow clock) address m) ip)"
proof -
  let ?m = "prune_rate_limits (fst (wc_allow clock)) m"
  have p: "allowance t (?m ip) \<le> allowance t (m ip)" "bucket_ok (?m ip)"
    using prune_allowance [where m = m and ip = ip, OF _ assms(2)] assms(1) by (auto simp: clock_within_def)
  have "allowance t (Some (rate_bucket (wc_allow clock) ip ?m)) \<le> allowance t (?m ip)"
    "bucket_ok (Some (rate_bucket (wc_allow clock) ip ?m))"
    using rate_bucket_allowance [where clock = "wc_allow clock" and m = ?m and ip = ip and t = t, OF _ _ _ p(2)] assms(1) by (auto simp: clock_within_def)
  with p show "allowance t (snd (rate_limit_allow (wc_allow clock) address m) ip) \<le> allowance t (m ip)"
    "bucket_ok (snd (rate_limit_allow (wc_allow clock) address m) ip)"
    by (auto simp: rate_limit_allow_def Let_def)
qed

lemma allowed_bucket:
  "fst (rate_limit_allow clock ip m) \<Longrightarrow>
   \<exists>b. snd (rate_limit_allow clock ip m) ip = Some b \<and> rb_failures b < 10"
  by (auto simp: rate_limit_allow_def Let_def LOGIN_FAIL_LIMIT_def)

lemma record_other:
  assumes "clock_within t clock" "bucket_ok (m ip)" "address \<noteq> ip"
  shows "allowance t (rate_limit_record_failure (wc_failure clock) address m ip) \<le> allowance t (m ip)"
    and "bucket_ok (rate_limit_record_failure (wc_failure clock) address m ip)"
  using prune_allowance [where m = m and ip = ip, OF _ assms(2)] assms(1,3)
  by (auto simp: rate_limit_record_failure_def Let_def clock_within_def)

lemma record_allowance:
  assumes c: "clock_within t clock" and b: "m ip = Some b" "0 \<le> rb_failures b" "rb_failures b < 10"
  shows "allowance t (rate_limit_record_failure (wc_failure clock) ip m ip) < allowance t (m ip)"
    and "bucket_ok (rate_limit_record_failure (wc_failure clock) ip m ip)"
proof -
  obtain now made where w: "wc_failure clock = (now, made)" by fastforce
  have t: "t \<le> now" "t \<le> made" "now \<le> t + LOGIN_FAIL_WINDOW" using c w by (auto simp: clock_within_def)
  have "(\<exists>ws \<ge> t. rate_bucket (now, made) ip (prune_rate_limits now m) = \<lparr>rb_window_start = ws, rb_failures = 0\<rparr>)
      \<and> rb_window_start b < t \<or> rate_bucket (now, made) ip (prune_rate_limits now m) = b"
    using b(1) t by (auto simp: rate_bucket_def prune_rate_limits_def Let_def)
  then show "allowance t (rate_limit_record_failure (wc_failure clock) ip m ip) < allowance t (m ip)"
    "bucket_ok (rate_limit_record_failure (wc_failure clock) ip m ip)"
    using b w by (auto simp: rate_limit_record_failure_def Let_def allowance_def bucket_ok_def)
qed

lemma authenticate_allowance:
  assumes a: "authenticate env clock request s = (auth, replies, s')"
    and c: "clock_within t clock" and ok: "bucket_ok (wb_login_failures s ip)"
    and out: "rq_address request = ip \<longrightarrow> replies \<noteq> []"
  shows "(if rq_address request = ip \<and> replies = [send_unauthorized] then 1 else 0) +
    allowance t (wb_login_failures s' ip) \<le> allowance t (wb_login_failures s ip) \<and> bucket_ok (wb_login_failures s' ip)"
proof (cases "net_rank (wb_origin_allowed s) < net_rank (rq_net request)")
  case True
  then show ?thesis using a ok by (auto simp: authenticate_def send_unauthorized_def)
next
  case False
  let ?address = "rq_address request"
  obtain allowed m where al: "rate_limit_allow (wc_allow clock) ?address (wb_login_failures s) = (allowed, m)"
    by fastforce
  have m: "allowance t (m ip) \<le> allowance t (wb_login_failures s ip)" "bucket_ok (m ip)"
    using allow_allowance [of t clock "wb_login_failures s" ip ?address, OF c ok] al by simp_all
  let ?refused = "rate_limit_record_failure (wc_failure clock) ?address m"
  have res: "wb_login_failures s' = m \<and> replies \<noteq> [send_unauthorized] \<or>
      allowed \<and> wb_login_failures s' = ?refused \<and> replies = [send_unauthorized] \<or>
      wb_login_failures s' = rate_limit_reset ?address m \<and> replies = []"
    using a False al
    by (auto simp: authenticate_def Let_def send_unauthorized_def split: if_splits option.splits prod.splits)
  have reset: "?address \<noteq> ip \<Longrightarrow> rate_limit_reset ?address m ip = m ip"
    by (simp add: rate_limit_reset_def)
  have refused: "allowed \<Longrightarrow> (if ?address = ip then 1 else 0) + allowance t (?refused ip) \<le> allowance t (m ip) \<and>
      bucket_ok (?refused ip)"
  proof (cases "?address = ip")
    case True
    assume allowed
    then obtain b where b: "m ip = Some b" "rb_failures b < 10"
      using allowed_bucket [of "wc_allow clock" ip "wb_login_failures s"] al True by auto
    moreover have "0 \<le> rb_failures b" using m(2) b(1) by (simp add: bucket_ok_def)
    ultimately show ?thesis using record_allowance [where m = m and ip = ip, OF c b(1)] True by (auto simp: Suc_le_eq)
  next
    case False
    then show ?thesis using record_other [where m = m and ip = ip, OF c m(2) False] by simp
  qed
  show ?thesis using res reset refused m out by fastforce
qed

text \<open>C39: However the requests of the addresses mix, within 30 seconds at most twenty requests of one
  address have their credentials looked at and refused, as long as none of them is let in.\<close>

theorem login_attempts_bounded:
  assumes "\<forall>(clock, request) \<in> set requests. clock_within t clock"
    and "bucket_ok (wb_login_failures s ip)"
    and "admissions env ip requests s = 0"
  shows "refusals env ip requests s \<le> 20"
proof -
  have "refusals env ip requests s \<le> allowance t (wb_login_failures s ip)"
    using assms
  proof (induction requests arbitrary: s)
    case (Cons cr requests)
    obtain clock request where cr: "cr = (clock, request)" by fastforce
    obtain auth replies s' where a: "authenticate env clock request s = (auth, replies, s')"
      by (metis prod_cases3)
    have out: "rq_address request = ip \<longrightarrow> replies \<noteq> []" and rest: "admissions env ip requests s' = 0"
      using Cons.prems(3) cr a by (auto split: if_splits)
    have "clock_within t clock" using Cons.prems(1) cr by simp
    from authenticate_allowance [OF a this Cons.prems(2) out] Cons.IH [OF _ _ rest] Cons.prems(1)
    show ?case using cr a by auto
  qed simp
  moreover have "allowance t (wb_login_failures s ip) \<le> 20"
    using assms(2) by (auto simp: allowance_def bucket_ok_def split: option.splits)
  ultimately show ?thesis by simp
qed

section \<open>Examples\<close>

definition demo_web_env :: web_env where
  "demo_web_env = \<lparr>we_hash = (\<lambda>text. 7 # text), we_base64 = (\<lambda>text. text)\<rparr>"

definition demo_token :: api_token_t where
  "demo_token = \<lparr>tk_name = ascii ''bot'', tk_hash = hash_text demo_web_env (ascii ''secret:salt''),
     tk_salt = ascii ''salt'', tk_scopes = [LOGS_GET]\<rparr>"

definition demo_web_state :: web_state where
  "demo_web_state = \<lparr>wb_login_failures = (\<lambda>_. None), wb_csrf_tokens = (\<lambda>_. None), wb_origin_allowed = LAN,
     wb_sunshine = (sunshine_new (ce_files demo_config_env))\<lparr>su_username := ascii ''admin'',
       su_salt := ascii ''x'', su_password := hash_text demo_web_env (ascii ''pwx'')\<rparr>,
     wb_nvhttp = (nvhttp_new (ascii ''host''))\<lparr>nh_api_tokens := [demo_token]\<rparr>\<rparr>"

definition demo_web_request :: "(string \<times> string) list \<Rightarrow> web_request" where
  "demo_web_request headers = \<lparr>rq_address = ascii ''10.0.0.9'', rq_net = LAN,
     rq_header = (\<lambda>name. map_option ascii (map_of headers name)), rq_query = (\<lambda>_. None), rq_content = [], rq_path = []\<rparr>"

definition demo_clock :: web_clock where
  "demo_clock = \<lparr>wc_allow = (0, 0), wc_failure = (0, 0), wc_csrf = 0\<rparr>"


definition demo_bearer_request :: web_request where
  "demo_bearer_request = demo_web_request [(''authorization'', ''bearer  secret'')]"

lemma demo_presented: "presented_token demo_bearer_request = Some (ascii ''secret'')"
  by code_simp

lemma demo_matches: "token_matches demo_web_env (ascii ''secret'') demo_token"
proof -
  have "ascii ''secret'' @ 58 # ascii ''salt'' = ascii ''secret:salt''" by code_simp
  then show ?thesis by (simp add: token_matches_def demo_token_def)
qed

lemma demo_let_in:
  "require_scope demo_web_env demo_clock demo_bearer_request LOGS_GET demo_web_state = (Some True, [], demo_web_state)"
proof -
  let ?auth = "\<lparr>ar_authenticated = True, ar_is_admin = False, ar_token_name = ascii ''bot'', ar_granted_scopes = [LOGS_GET]\<rparr>"
  have "authenticate_bearer demo_web_env demo_bearer_request [demo_token] = ?auth"
    using demo_matches by (simp add: authenticate_bearer_def demo_presented, simp add: demo_token_def)
  moreover have "ascii ''admin'' \<noteq> []" by (simp add: ascii_def)
  ultimately have "authenticate demo_web_env demo_clock demo_bearer_request demo_web_state = (Some ?auth, [], demo_web_state)"
    by (simp add: authenticate_def demo_web_state_def demo_bearer_request_def demo_web_request_def rate_limit_allow_def
        rate_limit_reset_def rate_bucket_def prune_rate_limits_def demo_clock_def LOGIN_FAIL_LIMIT_def LOGIN_FAIL_WINDOW_def)
  then show ?thesis by (simp add: require_scope_def has_scope_def)
qed

lemma scope_enforced_witness:
  "token_entitles demo_web_env demo_bearer_request LOGS_GET [demo_token] \<or>
   password_entitles demo_web_env demo_bearer_request (wb_sunshine demo_web_state)"
  using scope_enforced [OF demo_let_in] by (auto simp: demo_web_state_def)

definition demo_locked_state :: web_state where
  "demo_locked_state = demo_web_state\<lparr>wb_login_failures :=
     [ascii ''10.0.0.9'' \<mapsto> \<lparr>rb_window_start = - 5, rb_failures = 10\<rparr>]\<rparr>"

lemma lock_out_holds_witness:
  "fst (authenticate demo_web_env demo_clock demo_bearer_request demo_locked_state) = Some auth_result_new"
proof -
  have "locked_out (fst (wc_allow demo_clock)) (rq_address demo_bearer_request) demo_locked_state"
    by (simp add: locked_out_def demo_locked_state_def demo_clock_def demo_bearer_request_def demo_web_request_def
        LOGIN_FAIL_LIMIT_def LOGIN_FAIL_WINDOW_def)
  from lock_out_holds [OF this, of demo_web_env] show ?thesis by auto
qed

lemma login_attempts_bounded_witness:
  "refusals demo_web_env (ascii ''10.0.0.9'') [(demo_clock, demo_web_request [])] demo_web_state \<le> 20"
proof (rule login_attempts_bounded)
  have "authenticate_bearer demo_web_env (demo_web_request []) tokens = auth_result_new" for tokens
    by (simp add: authenticate_bearer_def presented_token_def demo_web_request_def)
  then show "admissions demo_web_env (ascii ''10.0.0.9'') [(demo_clock, demo_web_request [])] demo_web_state = 0"
    by (simp add: authenticate_def demo_web_state_def demo_web_request_def rate_limit_allow_def rate_bucket_def
        prune_rate_limits_def demo_clock_def LOGIN_FAIL_LIMIT_def LOGIN_FAIL_WINDOW_def ascii_def Let_def)
  show "\<forall>(clock, request) \<in> set [(demo_clock, demo_web_request [])]. clock_within 0 clock"
    by (simp add: clock_within_def demo_clock_def LOGIN_FAIL_WINDOW_def)
qed (simp add: bucket_ok_def demo_web_state_def)

section \<open>Forged requests\<close>

lemma origin_fits_iff:
  "origin_fits url origin \<longleftrightarrow> url = origin \<or> (\<exists>rest. url = origin @ 58 # rest \<or> url = origin @ 47 # rest)"
proof (cases "prefix origin url")
  case True
  then obtain rest where url: "url = origin @ rest" by (auto simp: prefix_def)
  then show ?thesis by (cases rest) (auto simp: origin_fits_def)
next
  case False
  then show ?thesis by (auto simp: origin_fits_def prefix_def)
qed


definition demo_csrf_state :: web_state where
  "demo_csrf_state = demo_web_state\<lparr>wb_csrf_tokens :=
     [ascii ''admin'' \<mapsto> \<lparr>ct_token = ascii ''tok'', ct_expiration = 9\<rparr>]\<rparr>"


text \<open>The token made for a client is accepted from this client for an hour, unless another is made for
  it; no other text is, and after the hour the token is not.\<close>

theorem csrf_token_valid:
  "case generate_csrf_token made random client s of
     (token, s') \<Rightarrow> fst (validate_stored_csrf_token now client text s') \<longleftrightarrow>
       text = token \<and> now \<le> made + CSRF_TOKEN_LIFETIME"
  by (auto simp: generate_csrf_token_def validate_stored_csrf_token_def Let_def split: if_splits)

section \<open>A new token works\<close>

lemma split_on_field: "sep \<notin> set xs \<Longrightarrow> split_on sep acc (xs @ sep # ys) = (rev acc @ xs) # split_on sep [] ys"
  by (induction xs arbitrary: acc) auto

lemma split_on_last: "sep \<notin> set xs \<Longrightarrow> acc \<noteq> [] \<or> xs \<noteq> [] \<Longrightarrow> split_on sep acc xs = [rev acc @ xs]"
  by (induction xs arbitrary: acc) auto

lemma trim_id: "xs \<noteq> [] \<Longrightarrow> \<not> is_blank (hd xs) \<Longrightarrow> \<not> is_blank (last xs) \<Longrightarrow> trim xs = xs"
proof -
  assume xs: "xs \<noteq> []" "\<not> is_blank (hd xs)" "\<not> is_blank (last xs)"
  have drop: "ys \<noteq> [] \<Longrightarrow> \<not> is_blank (hd ys) \<Longrightarrow> dropWhile is_blank ys = ys" for ys by (cases ys) auto
  show "trim xs = xs" using xs drop [of xs] drop [of "rev xs"] by (simp add: trim_def hd_rev)
qed

text \<open>Text of a field: nothing that separates tokens, fields, lines or comments.\<close>

definition field_text :: "bytes \<Rightarrow> bool" where
  "field_text xs \<longleftrightarrow> xs \<noteq> [] \<and> list_all (\<lambda>c. c \<notin> {9, 10, 13, 35, 124}) xs"

definition token_name_ok :: "bytes \<Rightarrow> bool" where
  "token_name_ok name \<longleftrightarrow> field_text name \<and> hd name \<noteq> 32 \<and> hd name \<noteq> 91"

lemma hex_digit_range: "hex_digit c \<noteq> None \<Longrightarrow> 48 \<le> unat c \<and> unat c \<le> 102"
  by (auto simp: hex_digit_def word_le_nat_alt split: if_splits)

lemma hex_field: "xs \<noteq> [] \<Longrightarrow> list_all (\<lambda>c. hex_digit c \<noteq> None) xs \<Longrightarrow> field_text xs"
proof -
  assume xs: "xs \<noteq> []" and hex: "list_all (\<lambda>c. hex_digit c \<noteq> None) xs"
  have all: "\<forall>c \<in> set xs. hex_digit c \<noteq> None" using hex by (simp only: list_all_iff)
  have "c \<notin> {9, 10, 13, 35, 124}" if "c \<in> set xs" for c
  proof -
    have "48 \<le> unat c \<and> unat c \<le> 102" using all that hex_digit_range by blast
    then show ?thesis by auto
  qed
  then show "field_text xs" using xs by (simp only: field_text_def list_all_iff) blast
qed

lemma hex_vec_digits: "list_all (\<lambda>c. hex_digit c \<noteq> None) (hex_vec b r)"
proof -
  have "hex_digit (hex_bits (unat x div 16)) \<noteq> None" "hex_digit (hex_bits (unat x mod 16)) \<noteq> None" for x :: u8
    using unat_u8_less [of x] by (simp_all add: hex_bits_digit)
  then show ?thesis by (auto simp: hex_vec_def hex_byte_def list_all_iff)
qed

lemma hex_encode_digits: "list_all (\<lambda>c. hex_digit c \<noteq> None) (hex_encode b)"
proof -
  have "list_all (\<lambda>d. hex_digit (ascii ''0123456789abcdef'' ! d) \<noteq> None) [0..<16]" by code_simp
  then have d: "hex_digit (ascii ''0123456789abcdef'' ! d) \<noteq> None" if "d < 16" for d
    using that by (simp only: list_all_iff) simp
  have "hex_digit (ascii ''0123456789abcdef'' ! (unat x div 16)) \<noteq> None"
    "hex_digit (ascii ''0123456789abcdef'' ! (unat x mod 16)) \<noteq> None" for x :: u8
    using unat_u8_less [of x] by (intro d; simp)+
  then show ?thesis unfolding hex_encode_def list_all_iff by auto
qed

lemma scope_text_field:
  "field_text (scope_text s) \<and> 44 \<notin> set (scope_text s) \<and> trim (scope_text s) = scope_text s \<and>
   \<not> is_blank (last (scope_text s)) \<and> api_scope_from_string (scope_text s) = Some s"
  by (cases s; hypsubst; code_simp)

lemma scopes_text_field: "scopes \<noteq> [] \<Longrightarrow> field_text (scopes_text scopes) \<and> \<not> is_blank (last (scopes_text scopes))"
proof (induction scopes rule: scopes_text.induct)
  case (3 s t scopes)
  then show ?case using scope_text_field [of s] by (auto simp: field_text_def)
qed (simp_all add: scope_text_field)

lemma parse_scopes_text: "parse_scopes (scopes_text scopes) = scopes"
proof (induction scopes rule: scopes_text.induct)
  case (2 s)
  then show ?case using scope_text_field [of s]
    by (simp add: parse_scopes_def split_on_last field_text_def map_filter_simps)
next
  case (3 s t scopes)
  then show ?case using scope_text_field [of s]
    by (simp add: parse_scopes_def split_on_field field_text_def map_filter_simps)
qed (simp add: parse_scopes_def map_filter_simps)

lemma minted_fields:
  assumes "\<forall>text. we_hash env text \<noteq> []" "length urandom = 48"
  shows "field_text (mt_hash (mint_api_token env urandom))" "field_text (mt_salt (mint_api_token env urandom))"
    "field_text (mt_plaintext (mint_api_token env urandom))"
proof -
  have enc: "hex_encode b \<noteq> []" if "b \<noteq> []" for b using that by (cases b) (simp_all add: hex_encode_def)
  have vec: "hex_vec b r \<noteq> []" if "b \<noteq> []" for b r
    using that by (cases b; cases b rule: rev_cases) (auto simp: hex_vec_def hex_byte_def)
  show "field_text (mt_hash (mint_api_token env urandom))" "field_text (mt_salt (mint_api_token env urandom))"
    "field_text (mt_plaintext (mint_api_token env urandom))"
    using assms by (auto simp: mint_api_token_def Let_def hash_text_def intro!: hex_field hex_encode_digits hex_vec_digits vec enc)
qed

lemma field_set:
  "field_text xs \<Longrightarrow> 9 \<notin> set xs \<and> 10 \<notin> set xs \<and> 13 \<notin> set xs \<and> 35 \<notin> set xs \<and> 124 \<notin> set xs"
  by (auto simp: field_text_def list_all_iff)

lemma cfg_entry_text:
  assumes "token_name_ok name" "field_text (mt_hash m)" "field_text (mt_salt m)" "scopes \<noteq> []"
  shows "plain_value (cfg_entry name m scopes)" "124 \<notin> set (cfg_entry name m scopes)"
    "cfg_entry name m scopes \<noteq> []" "trim (cfg_entry name m scopes) = cfg_entry name m scopes"
proof -
  let ?e = "cfg_entry name m scopes"
  have sc: "field_text (scopes_text scopes)" "\<not> is_blank (last (scopes_text scopes))"
    using scopes_text_field [OF assms(4)] by auto
  have last: "last ?e = last (scopes_text scopes)" using sc by (simp add: cfg_entry_def field_text_def)
  have hd: "hd ?e = hd name" and name: "name \<noteq> []" using assms(1)
    by (simp_all add: cfg_entry_def token_name_ok_def field_text_def)
  show ne: "?e \<noteq> []" by (simp add: cfg_entry_def)
  have set: "35 \<notin> set ?e" "124 \<notin> set ?e" "10 \<notin> set ?e" "13 \<notin> set ?e"
    using field_set [OF sc(1)] field_set [OF assms(2)] field_set [OF assms(3)] field_set [of name] assms(1)
    by (simp_all add: cfg_entry_def token_name_ok_def)
  have hd_ok: "hd name \<noteq> 9" "hd name \<noteq> 10" "hd name \<noteq> 13" "hd name \<noteq> 32" "hd name \<noteq> 91"
    using assms(1) field_set [of name] hd_in_set [OF name] by (auto simp: token_name_ok_def)
  show "124 \<notin> set ?e" by (rule set)
  show "plain_value ?e"
    using set hd_ok sc(2) ne unfolding plain_value_def list_all_iff last hd
    by (auto simp: endline_def whitespace_def space_tab_def is_blank_def)
  show "trim ?e = ?e"
    by (rule trim_id [OF ne]) (use hd_ok sc(2) in \<open>simp_all add: last hd is_blank_def\<close>)
qed

lemma cfg_entry_token:
  assumes "token_name_ok name" "field_text (mt_hash m)" "field_text (mt_salt m)" "scopes \<noteq> []"
  shows "parse_tokens (cfg_entry name m scopes) =
    [\<lparr>tk_name = name, tk_hash = mt_hash m, tk_salt = mt_salt m, tk_scopes = scopes\<rparr>]"
proof -
  note e = cfg_entry_text [OF assms]
  have f: "field_text name" "field_text (scopes_text scopes)"
    using assms scopes_text_field by (auto simp: token_name_ok_def)
  have no_tab: "field_text xs \<Longrightarrow> 9 \<notin> set xs" and ne: "field_text xs \<Longrightarrow> xs \<noteq> []" for xs
    by (auto simp: field_text_def list_all_iff)
  have "split_on 9 [] (cfg_entry name m scopes) = [name, mt_hash m, mt_salt m, scopes_text scopes]"
    unfolding cfg_entry_def using no_tab [OF f(1)] no_tab [OF assms(2)] no_tab [OF assms(3)] no_tab [OF f(2)] ne [OF f(2)]
    by (simp add: split_on_field split_on_last)
  then have "parse_token (cfg_entry name m scopes) =
      Some \<lparr>tk_name = name, tk_hash = mt_hash m, tk_salt = mt_salt m, tk_scopes = scopes\<rparr>"
    using e ne f assms(2-) by (simp add: parse_token_def parse_scopes_text)
  then show ?thesis using e by (simp add: parse_tokens_def split_on_last map_filter_simps)
qed

lemma plain_api_tokens: "plain_name (ascii ''api_tokens'')"
  by code_simp

lemma read_tokens:
  assumes "plain_value v"
  shows "snd (api_tokens_f (parse_config (config_text [(ascii ''api_tokens'', v)]), [])) = parse_tokens v"
proof -
  have "list_all (\<lambda>(n, v). plain_name n \<and> plain_value v) [(ascii ''api_tokens'', v)]"
    using assms plain_api_tokens by simp
  then have "parse_config (config_text [(ascii ''api_tokens'', v)]) = [(ascii ''api_tokens'', v)]"
    by (simp add: parse_config_def config_entries_text emplace_var_def)
  then show ?thesis by (simp add: string_f_tmp string_value_def split_beta del: string_f.simps)
qed

lemma presented_minted:
  assumes "rq_header request ''authorization'' = Some (ascii ''Bearer '' @ plaintext)"
    and "plaintext \<noteq> []" "list_all (\<lambda>c. hex_digit c \<noteq> None) plaintext"
  shows "presented_token request = Some plaintext"
proof -
  have "\<not> is_blank c" if "hex_digit c \<noteq> None" for c :: u8
    using that hex_digit_range [OF that] by (auto simp: is_blank_def)
  then have "trim plaintext = plaintext"
    using assms(2,3) by (intro trim_id) (auto simp: list_all_iff)
  moreover have "length (ascii ''Bearer '') = 7" by (simp add: ascii_def)
  ultimately show ?thesis using assms(1,2) by (simp add: presented_token_def iequals_def)
qed



end
