(* ===== verification/Spec2Isabelle.thy ===== *)
theory Spec2Isabelle
  imports Prelude EventQueue TaskPool InputBatch InputDevices VideoPacket AudioStream
    ControlStream ControlServer SessionLife NetUtil Process ClientProfiles Pairing RtspMessage
    StreamConfig RtspServer HttpLaunch ConfigFile ConfigRead ConfigState ConfigApply ConfigFacts
    ConfigProps WebAuth
begin

text \<open>
  A model of the streaming host Sunshine (\<^verbatim>\<open>src/\<close>): what happens between the packets a Moonlight
  client sends and the packets and system calls the host answers with. The theories are in the order
  of the program's layers; every definition carries the name of the function or type it translates.

  The parts and how they interact.

  \<^item> \<open>EventQueue\<close> (\<^verbatim>\<open>src/thread_safe.h\<close>): \<open>event_t\<close>, \<open>alarm_t\<close>, \<open>queue_t\<close>, \<open>shared_t\<close> with its
    \<open>ptr_t\<close>, and the mail box. Threads of the program talk through these. An operation under the lock
    is one step on a record; a wait is a function of the steps the other threads make while it sleeps
    (\<open>None\<close>: it is still asleep when they end). The locale \<open>mailbox\<close> states what events and queues
    have in common and is interpreted for both.
  \<^item> \<open>TaskPool\<close> (\<^verbatim>\<open>src/task_pool.h\<close>, \<^verbatim>\<open>src/thread_pool.h\<close>): ready and timed tasks and the worker loop.
    A task is a number; a log records what every operation hands out. The locale \<open>timers\<close> is the
    contract of a timed insertion.
  \<^item> \<open>InputBatch\<close>, \<open>InputDevices\<close> (\<^verbatim>\<open>src/input.cpp\<close>): the queue of input messages, batching, the drain
    task, then buttons, keys, gamepads, scrolling and their reset. Calls to the platform layer are
    logged in order. The locale \<open>queue_view\<close> says how an amount that batching preserves goes through
    the queue; its six interpretations are the motions, scrolls, discrete events and pad states.
  \<^item> \<open>VideoPacket\<close>, \<open>AudioStream\<close> (\<^verbatim>\<open>src/stream.cpp\<close>, \<open>videoBroadcastThread\<close> and
    \<open>audioBroadcastThread\<close>): cutting frames into packets, FEC blocks, numbering, IVs, pacing.
  \<^item> \<open>ControlStream\<close>, \<open>ControlServer\<close>, \<open>SessionLife\<close> (\<^verbatim>\<open>src/stream.cpp\<close>): control messages and their
    encryption, the map from peers to sessions, the control thread, and how a session starts, waits
    for its pings, stops and is joined.
  \<^item> \<open>NetUtil\<close> (\<^verbatim>\<open>src/utility.h\<close>, \<^verbatim>\<open>src/network.cpp\<close>): hexadecimal text, integers, address classes.
  \<^item> \<open>Pairing\<close> (\<^verbatim>\<open>src/nvhttp.cpp\<close>, \<^verbatim>\<open>src/crypto.cpp\<close>): the pairing handshake and the authorisation
    of clients; new certificates go through a \<open>queue_t\<close> of \<open>EventQueue\<close>.
  \<^item> \<open>RtspMessage\<close>, \<open>StreamConfig\<close>, \<open>RtspServer\<close> (\<^verbatim>\<open>src/rtsp.cpp\<close>): how requests are put together from
    the reads of a connection, what an announce turns into (with the clamps and layouts of
    \<^verbatim>\<open>src/audio.cpp\<close> and \<^verbatim>\<open>src/video.cpp\<close>), the pending launch with its timer, the commands and the set
    of sessions. A run is a list of operations; \<open>rtsp_run\<close> is \<open>None\<close> where the code has no defined
    behaviour. Launch sessions live in a store because events and connections share them.
  \<^item> \<open>Process\<close> (\<^verbatim>\<open>src/process.cpp\<close>): the applications file and the one running application with its do
    and undo commands. \<open>ClientProfiles\<close> (\<^verbatim>\<open>src/client_profiles.cpp\<close>): settings overridden per client. The
    locale \<open>overlay\<close> states when overridden settings come back and is interpreted for the encoder preset
    of an application.
  \<^item> \<open>HttpLaunch\<close> (\<^verbatim>\<open>src/nvhttp.cpp\<close>): launch, resume and cancel, which compose the application, the
    profiles and the RTSP server.
  \<^item> \<open>ConfigFile\<close>, \<open>ConfigRead\<close>, \<open>ConfigState\<close>, \<open>ConfigApply\<close> (\<^verbatim>\<open>src/config.cpp\<close>): the parser of the
    configuration file; the functions that read one option (\<open>string_f\<close>, \<open>int_between_f\<close>, ...), each a
    function on the variables that are left and the setting; the records of the settings; and the
    sequence of all options in \<open>apply_config\<close>, the command line, \<open>parse\<close>, the reload and the defaults.
    The locales \<open>reader\<close> and \<open>stable_reader\<close> state the contract of a reading function (it depends on its
    own name only, takes it away, and reading again changes nothing) and are interpreted for the readers.
    \<open>ConfigFacts\<close> holds the frame rules for lists of readers and a table of the options that are
    reloaded, to which the code is shown equal; \<open>ConfigProps\<close> the theorems.
  \<^item> \<open>WebAuth\<close> (\<^verbatim>\<open>src/confighttp.cpp\<close>): who may use the web interface: the limit on failed logins, bearer
    tokens and passwords over the settings that \<open>ConfigApply\<close> reads, scopes, and tokens against forged
    requests. A handler's guards return what they answered and the state they left.
  State and operations. A struct is a record with a prefix for its fields (\<open>q_\<close> for \<open>queue_t\<close>, \<open>tp_\<close>
  for the task pool, \<open>vs_\<close> for a video session, \<open>cs_\<close> for its control part); machine integers are words
  of their width, so that sums wrap, and \<open>int\<close> where the code tests for overflow. A function
  of the code that changes state returns the new state; an exception, an undefined access or a failure
  is \<open>None\<close> or a constructor of a result type. Time is a number of nanoseconds or milliseconds, as in
  the code.

  What the lemmas show. Invariants: histories of queues and pools (every element once, in order, with
  the stated exceptions), contiguous numbering of packets, exact maps and counters, gamepad
  identifiers. Bounds: FEC blocks fit their header fields, scrolling, queue capacities. Types: whatever the
  configuration file says, a program that starts has its settings in their ranges. Refinement: batching conserves the motion of the mouse. Safety: who may
  connect, what an unauthenticated control message may do. Termination and liveness: pacing, the
  worker loop and waiting. Errors: the theorems whose text begins with what goes wrong state
  behaviour of the code that its authors do not intend.

  Bounds and fuel. No recursion of a modelled operation uses fuel except the control thread's loop,
  whose number of iterations is the number of turns the environment supplies, and blocking waits,
  which consume the list of steps of other threads. The loop of the worker threads is
  shown to end when the pool stops.

  Parameters. Boost's addresses, ENet, OpenSSL, Reed-Solomon coding, the Moonlight protocol library,
  the encoder, audio capture and the platform layer are not part of the repository's own sources.
  They appear as function arguments; a law they are assumed to have is a hypothesis of the theorem
  that needs it.

  Not modelled: encoding and capture (\<^verbatim>\<open>src/video.cpp\<close>, \<^verbatim>\<open>src/audio.cpp\<close>, \<^verbatim>\<open>src/nvenc/\<close>,
  \<^verbatim>\<open>src/platform/\<close>), which drive system libraries; the JSON handlers of the web interface
  (\<^verbatim>\<open>src/confighttp.cpp\<close>); the Windows part of \<open>config::parse\<close>; display
  devices, statistics, logging, tray, UPnP and web hooks, which are input and output around the
  stream; touch, pen and absolute pointer coordinates and the other floating point computations.
\<close>

end
